(* ===== verification/Eye_Prelude.thy ===== *)
theory Eye_Prelude
  imports Main "HOL-Library.Word" "HOL-Library.Sublist"
begin

text \<open>
  Shared vocabulary of the development: the fixed-width integer types of the C++ sources,
  the collections of rules that the component theories fill, and the generic list, map and
  word facts that more than one component uses.
\<close>

unbundle bit_operations_syntax

section \<open>Machine types\<close>

type_synonym u8 = "8 word"
type_synonym u16 = "16 word"
type_synonym u32 = "32 word"
type_synonym u64 = "64 word"

text \<open>\<open>td_s32\<close> return codes are kept as \<open>int\<close>; no arithmetic is done on them.\<close>

type_synonym td_s32 = int

abbreviation (input) TD_SUCCESS :: td_s32 where
  "TD_SUCCESS \<equiv> 0"

abbreviation (input) TD_FAILURE :: td_s32 where
  "TD_FAILURE \<equiv> - 1"

section \<open>Undefined behaviour as a value\<close>

text \<open>
  Where the C++ standard leaves the behaviour undefined or ends the process, the model returns
  \<open>Inl\<close> of the reason instead of a made-up value; \<open>Inr\<close> is a defined result.
\<close>

datatype ub =
    OutOfBounds      \<comment> \<open>read or write outside an array or buffer\<close>
  | NullDeref        \<comment> \<open>bytes read through a null pointer\<close>
  | EmptyPop         \<comment> \<open>\<open>pop_front\<close> of an empty \<open>deque\<close>\<close>
  | UseAfterFree     \<comment> \<open>access to an object that was deleted\<close>
  | DivideByZero
  | Terminated       \<comment> \<open>\<open>std::terminate\<close>: a joinable \<open>std::thread\<close> overwritten or destroyed\<close>

type_synonym 'a checked = "ub + 'a"

definition defined :: "'a checked \<Rightarrow> bool" where
  "defined r \<longleftrightarrow> (case r of Inl _ \<Rightarrow> False | Inr _ \<Rightarrow> True)"

lemma defined_simps [simp]: "\<not> defined (Inl e)" "defined (Inr x)"
  by (simp_all add: defined_def)

lemma definedE [elim]:
  assumes "defined r" obtains x where "r = Inr x"
  using assms by (cases r) auto

section \<open>Rule collections\<close>

text \<open>
  \<open>inv_intros\<close> holds the preservation lemmas of the component invariants; \<open>queue_simps\<close> the
  effect of the queue operations on the queue contents.
\<close>

named_theorems inv_intros "preservation of component invariants"
named_theorems queue_simps "effect of operations on queue contents"

section \<open>Lists\<close>

lemma subseq_drop_front [intro]: "subseq (drop n xs) xs"
  by (metis append_take_drop_id list_emb_append2 subseq_order.order_refl)

lemma subseq_tl [intro]: "subseq (tl xs) xs"
  using subseq_drop_front [of 1 xs] by (simp add: drop_Suc)

lemma set_tl_subset: "set (tl xs) \<subseteq> set xs"
  by (cases xs) auto

lemma subseq_tl_snoc: "subseq (tl xs @ [x]) (xs @ [x])"
  by (cases xs) auto

lemma subseq_snoc_mono: "subseq xs ys \<Longrightarrow> subseq (xs @ [x]) (ys @ [x])"
  by (simp add: list_emb_append_mono)

lemma tl_snoc_drop:
  "tl xs @ [x] = drop (Suc (length xs) - length xs) (xs @ [x])" if "xs \<noteq> []"
  using that by (cases xs) auto

lemma fold_append_map: "fold (\<lambda>x acc. acc @ [f x]) xs acc = acc @ map f xs"
  by (induction xs arbitrary: acc) auto

lemma fold_append_if:
  "fold (\<lambda>x acc. if P x then acc else acc @ [f x]) xs acc
     = acc @ map f (filter (\<lambda>x. \<not> P x) xs)"
  by (induction xs arbitrary: acc) auto

lemma drop_nth_Cons: "i < length xs \<Longrightarrow> drop i xs = xs ! i # drop (Suc i) xs"
  by (rule Cons_nth_drop_Suc [symmetric])

lemma upd_filter_other:
  "k \<noteq> k' \<Longrightarrow> (m(k := v)) k' = m k'"
  by simp

section \<open>Words\<close>

lemma word_less_of_nat_len:
  "n < 2 ^ LENGTH('a) \<Longrightarrow> unat (word_of_nat n :: 'a::len word) = n"
  by (simp add: unat_of_nat take_bit_nat_eq_self)

end
