(* ===== verification/Bounded_Buffer.thy ===== *)
theory Bounded_Buffer
  imports Eye_Prelude
begin

text \<open>
  The contract shared by the three bounded queues of the program: the per-consumer queue of
  \<open>StreamDistributor\<close>, the write queue of \<open>RecorderConsumer\<close> and the access-unit queue of
  \<open>RtspFrameQueue\<close>.  All of them accept every element, make room by dropping queued ones, keep
  the arrival order and never lose the newest element.  \<open>drop_oldest\<close> is the stronger contract of
  the two queues that always drop at the front.
\<close>

locale bounded_buffer =
  fixes push :: "'a \<Rightarrow> 'q \<Rightarrow> 'q"
    and contents :: "'q \<Rightarrow> 'a list"
    and cap :: "'q \<Rightarrow> nat"
    and valid :: "'q \<Rightarrow> bool"
    and accepts :: "'a \<Rightarrow> bool"
  assumes push_valid: "valid q \<Longrightarrow> accepts x \<Longrightarrow> valid (push x q)"
    and push_cap: "valid q \<Longrightarrow> accepts x \<Longrightarrow> cap (push x q) = cap q"
    and bounded: "valid q \<Longrightarrow> length (contents q) \<le> cap q"
    and push_subseq: "valid q \<Longrightarrow> accepts x \<Longrightarrow> subseq (contents (push x q)) (contents q @ [x])"
    and push_last: "valid q \<Longrightarrow> accepts x \<Longrightarrow> contents (push x q) \<noteq> [] \<and> last (contents (push x q)) = x"
begin

lemma push_all_valid:
  "valid q \<Longrightarrow> (\<And>x. x \<in> set xs \<Longrightarrow> accepts x) \<Longrightarrow>
     valid (fold push xs q) \<and> cap (fold push xs q) = cap q"
proof (induction xs arbitrary: q)
  case Nil
  then show ?case by simp
next
  case (Cons x xs)
  then have "valid (push x q)" and "cap (push x q) = cap q"
    by (simp_all add: push_valid push_cap)
  with Cons show ?case by simp
qed

lemma push_all_bounded:
  assumes "valid q" and "\<And>x. x \<in> set xs \<Longrightarrow> accepts x"
  shows "length (contents (fold push xs q)) \<le> cap q"
  using push_all_valid [OF assms] bounded [of "fold push xs q"] by simp

lemma push_all_subseq:
  "valid q \<Longrightarrow> (\<And>x. x \<in> set xs \<Longrightarrow> accepts x) \<Longrightarrow>
     subseq (contents (fold push xs q)) (contents q @ xs)"
proof (induction xs arbitrary: q)
  case Nil
  then show ?case by simp
next
  case (Cons x xs)
  then have "subseq (contents (fold push xs (push x q))) (contents (push x q) @ xs)"
    by (simp add: push_valid)
  also have "subseq (contents (push x q) @ xs) ((contents q @ [x]) @ xs)"
    using Cons.prems by (intro list_emb_append_mono) (simp_all add: push_subseq)
  finally show ?case by simp
qed

lemma push_all_last:
  assumes "valid q" and "\<And>x. x \<in> set xs \<Longrightarrow> accepts x" and "xs \<noteq> []"
  shows "contents (fold push xs q) \<noteq> [] \<and> last (contents (fold push xs q)) = last xs"
proof -
  obtain ys y where xs: "xs = ys @ [y]" using \<open>xs \<noteq> []\<close> by (metis append_butlast_last_id)
  with assms push_all_valid [of q ys] show ?thesis by (simp add: push_last)
qed

end

locale drop_oldest =
  fixes push :: "'a \<Rightarrow> 'q \<Rightarrow> 'q"
    and contents :: "'q \<Rightarrow> 'a list"
    and cap :: "'q \<Rightarrow> nat"
    and valid :: "'q \<Rightarrow> bool"
    and accepts :: "'a \<Rightarrow> bool"
  assumes keeps_valid: "valid q \<Longrightarrow> accepts x \<Longrightarrow> valid (push x q)"
    and keeps_cap: "valid q \<Longrightarrow> accepts x \<Longrightarrow> cap (push x q) = cap q"
    and within_cap: "valid q \<Longrightarrow> length (contents q) \<le> cap q"
    and push_contents: "valid q \<Longrightarrow> accepts x \<Longrightarrow>
      contents (push x q) = (if length (contents q) < cap q then contents q else tl (contents q)) @ [x]"

sublocale drop_oldest \<subseteq> bounded_buffer
proof unfold_locales
  fix q x assume "valid q" "accepts x"
  then show "subseq (contents (push x q)) (contents q @ [x])"
    by (auto simp: push_contents)
next
  fix q x assume "valid q" "accepts x"
  then show "contents (push x q) \<noteq> [] \<and> last (contents (push x q)) = x"
    by (simp add: push_contents)
qed (simp_all add: keeps_valid keeps_cap within_cap)

context drop_oldest
begin

text \<open>After any sequence of pushes the queue holds the newest elements, up to its capacity.\<close>

lemma push_contents_drop:
  assumes "valid q" and "accepts x" and "0 < cap q"
  shows "contents (push x q) = drop (length (contents q) + 1 - cap q) (contents q @ [x])"
proof (cases "length (contents q) < cap q")
  case True
  with assms show ?thesis by (simp add: push_contents)
next
  case False
  with within_cap [OF assms(1)] assms(3) have len: "length (contents q) = cap q" and "contents q \<noteq> []"
    by auto
  with assms show ?thesis by (simp add: push_contents drop_Suc)
qed

lemma push_all_newest:
  "valid q \<Longrightarrow> (\<And>x. x \<in> set xs \<Longrightarrow> accepts x) \<Longrightarrow> 0 < cap q \<Longrightarrow>
     contents (fold push xs q) = drop (length (contents q) + length xs - cap q) (contents q @ xs)"
proof (induction xs arbitrary: q)
  case Nil
  then show ?case using within_cap [of q] by simp
next
  case (Cons x xs)
  have q': "valid (push x q)" "cap (push x q) = cap q"
    using Cons.prems by (simp_all add: keeps_valid keeps_cap)
  have eq: "contents (push x q) = drop (length (contents q) + 1 - cap q) (contents q @ [x])"
    using Cons.prems by (simp add: push_contents_drop)
  have le: "length (contents q) \<le> cap q" using Cons.prems by (simp add: within_cap)
  have "contents (fold push (x # xs) q)
      = drop (length (contents (push x q)) + length xs - cap q) (contents (push x q) @ xs)"
    using Cons q' by simp
  also have "\<dots> = drop (length (contents q) + length (x # xs) - cap q) (contents q @ x # xs)"
  proof (cases "length (contents q) < cap q")
    case True
    then show ?thesis by (simp add: eq)
  next
    case False
    with le have "length (contents q) = cap q" by simp
    moreover obtain y ys where "contents q = y # ys"
      using \<open>length (contents q) = cap q\<close> Cons.prems(3) by (cases "contents q") auto
    ultimately show ?thesis by (simp add: eq)
  qed
  finally show ?case .
qed

end

end
