(* ===== verification/Frame_Queue.thy ===== *)
theory Frame_Queue
  imports Bounded_Buffer
begin

text \<open>
  \<open>modules/rtsp/src/rtsp_frame_queue.cpp\<close>: the queue between the distributor's worker and the
  live555 event loop.  It holds whole access units (lists of NAL units) and is read one NAL unit at
  a time, so the unit at the front may be partly sent.  Every operation runs under the queue's
  mutex and is one atomic function here.  A \<open>RtspStreamSource*\<close> is its identity.
\<close>

section \<open>State and operations\<close>

record RtspNalUnit =
  nu_data :: "u8 list"
  nu_timestamp :: u64
  nu_is_idr :: bool

type_synonym source_id = nat

record RtspFrameQueue =
  fq_queue :: "RtspNalUnit list list"
  fq_active_sources :: "source_id list"
  fq_max_queue_size :: nat
  fq_last_overflow_log_time :: int
  fq_warnings :: nat

definition new_frame_queue :: "nat \<Rightarrow> RtspFrameQueue" where
  "new_frame_queue max_queue_size =
     \<lparr>fq_queue = [], fq_active_sources = [],
      fq_max_queue_size = (if max_queue_size = 0 then 1 else max_queue_size),
      fq_last_overflow_log_time = 0, fq_warnings = 0\<rparr>"

text \<open>
  \<open>now\<close> is the steady clock in nanoseconds; at most one overflow warning is written per five
  seconds.  \<open>pop_front\<close> of an empty deque is undefined.
\<close>

definition drop_oldest_access_unit_locked :: "int \<Rightarrow> RtspFrameQueue \<Rightarrow> RtspFrameQueue checked" where
  "drop_oldest_access_unit_locked now q =
     (case fq_queue q of
        [] \<Rightarrow> Inl EmptyPop
      | _ # aus \<Rightarrow>
          let q = q\<lparr>fq_queue := aus\<rparr>
          in Inr (if 5 \<le> (now - fq_last_overflow_log_time q) div 1000000000
                  then q\<lparr>fq_warnings := fq_warnings q + 1, fq_last_overflow_log_time := now\<rparr>
                  else q))"

text \<open>The \<open>while (queue_.size() >= max_queue_size_)\<close> loop.\<close>

function make_room :: "int \<Rightarrow> RtspFrameQueue \<Rightarrow> RtspFrameQueue checked" where
  "make_room now q =
     (if fq_max_queue_size q \<le> length (fq_queue q)
      then case drop_oldest_access_unit_locked now q of
             Inl e \<Rightarrow> Inl e
           | Inr q' \<Rightarrow> make_room now q'
      else Inr q)"
  by pat_completeness auto
termination
  by (relation "measure (\<lambda>(_, q). length (fq_queue q))")
    (auto simp: drop_oldest_access_unit_locked_def Let_def split: list.splits if_splits)

declare make_room.simps [simp del]

definition push_access_unit :: "int \<Rightarrow> RtspNalUnit list \<Rightarrow> RtspFrameQueue \<Rightarrow> RtspFrameQueue checked" where
  "push_access_unit now nals q =
     (if nals = [] then Inr q
      else case make_room now q of
             Inl e \<Rightarrow> Inl e
           | Inr q \<Rightarrow> Inr (q\<lparr>fq_queue := fq_queue q @ [nals]\<rparr>))"

definition push_nal_unit :: "int \<Rightarrow> RtspNalUnit \<Rightarrow> RtspFrameQueue \<Rightarrow> RtspFrameQueue checked" where
  "push_nal_unit now nal q = push_access_unit now [nal] q"

text \<open>\<open>None\<close> is the result \<open>false\<close>; \<open>dropWhile\<close> is the loop over empty access units.\<close>

definition pop_nal_unit :: "RtspFrameQueue \<Rightarrow> RtspNalUnit option \<times> RtspFrameQueue" where
  "pop_nal_unit q =
     (let q = q\<lparr>fq_queue := dropWhile (\<lambda>au. au = []) (fq_queue q)\<rparr>
      in case fq_queue q of
           [] \<Rightarrow> (None, q)
         | au # aus \<Rightarrow>
             (Some (hd au), q\<lparr>fq_queue := if tl au = [] then aus else tl au # aus\<rparr>))"

definition register_source :: "source_id \<Rightarrow> RtspFrameQueue \<Rightarrow> RtspFrameQueue" where
  "register_source s q = q\<lparr>fq_active_sources := fq_active_sources q @ [s]\<rparr>"

definition unregister_source :: "source_id \<Rightarrow> RtspFrameQueue \<Rightarrow> RtspFrameQueue" where
  "unregister_source s q = q\<lparr>fq_active_sources := remove1 s (fq_active_sources q)\<rparr>"

text \<open>Calls \<open>notify_frame_available\<close>, here \<open>notify\<close>, on every registered source in order.\<close>

definition notify_active_sources :: "(source_id \<Rightarrow> 's \<Rightarrow> 's) \<Rightarrow> RtspFrameQueue \<Rightarrow> 's \<Rightarrow> 's" where
  "notify_active_sources notify q s = fold notify (fq_active_sources q) s"

definition clear_queue :: "RtspFrameQueue \<Rightarrow> RtspFrameQueue" where
  "clear_queue q = q\<lparr>fq_queue := []\<rparr>"

definition has_active_sources :: "RtspFrameQueue \<Rightarrow> bool" where
  "has_active_sources q \<longleftrightarrow> fq_active_sources q \<noteq> []"

section \<open>The queue of access units\<close>

definition fq_valid :: "RtspFrameQueue \<Rightarrow> bool" where
  "fq_valid q \<longleftrightarrow>
     0 < fq_max_queue_size q \<and> length (fq_queue q) \<le> fq_max_queue_size q \<and> [] \<notin> set (fq_queue q)"

lemma new_frame_queue_valid [inv_intros]: "fq_valid (new_frame_queue n)"
  by (simp add: new_frame_queue_def fq_valid_def)

text \<open>In a valid queue the loop drops at most one access unit.\<close>

lemma make_room_eq:
  assumes "fq_valid q"
  obtains q' where "make_room now q = Inr q'"
    "fq_queue q' = (if length (fq_queue q) < fq_max_queue_size q then fq_queue q else tl (fq_queue q))"
    "fq_max_queue_size q' = fq_max_queue_size q" "fq_active_sources q' = fq_active_sources q"
proof (cases "length (fq_queue q) < fq_max_queue_size q")
  case True
  then have "make_room now q = Inr q" by (subst make_room.simps) simp
  then show thesis by (rule that) (use True in simp_all)
next
  case False
  with assms obtain au aus where q: "fq_queue q = au # aus"
    by (cases "fq_queue q") (auto simp: fq_valid_def)
  then obtain q' where q': "drop_oldest_access_unit_locked now q = Inr q'" "fq_queue q' = aus"
    "fq_max_queue_size q' = fq_max_queue_size q" "fq_active_sources q' = fq_active_sources q"
    by (auto simp: drop_oldest_access_unit_locked_def Let_def)
  moreover have "\<not> fq_max_queue_size q \<le> length aus"
    using assms by (simp add: fq_valid_def q)
  ultimately have "make_room now q = Inr q'"
    using False by (subst make_room.simps, simp, subst make_room.simps, simp)
  then show thesis by (rule that) (use q' False q in simp_all)
qed

definition push_total :: "int \<Rightarrow> RtspNalUnit list \<Rightarrow> RtspFrameQueue \<Rightarrow> RtspFrameQueue" where
  "push_total now nals q = (case push_access_unit now nals q of Inl _ \<Rightarrow> q | Inr q' \<Rightarrow> q')"

lemma push_access_unit_total:
  assumes "fq_valid q"
  shows "push_access_unit now nals q = Inr (push_total now nals q)"
proof -
  obtain q' where "make_room now q = Inr q'" using assms by (rule make_room_eq)
  then show ?thesis by (auto simp: push_total_def push_access_unit_def)
qed

lemma push_total_fields:
  assumes "fq_valid q"
  shows "fq_queue (push_total now nals q) = (if nals = [] then fq_queue q else
      (if length (fq_queue q) < fq_max_queue_size q then fq_queue q else tl (fq_queue q)) @ [nals])"
    and "fq_max_queue_size (push_total now nals q) = fq_max_queue_size q"
    and "fq_active_sources (push_total now nals q) = fq_active_sources q"
proof -
  obtain q' where "make_room now q = Inr q'"
    "fq_queue q' = (if length (fq_queue q) < fq_max_queue_size q then fq_queue q else tl (fq_queue q))"
    "fq_max_queue_size q' = fq_max_queue_size q" "fq_active_sources q' = fq_active_sources q"
    using assms by (rule make_room_eq)
  then show "fq_queue (push_total now nals q) = (if nals = [] then fq_queue q else
      (if length (fq_queue q) < fq_max_queue_size q then fq_queue q else tl (fq_queue q)) @ [nals])"
    "fq_max_queue_size (push_total now nals q) = fq_max_queue_size q"
    "fq_active_sources (push_total now nals q) = fq_active_sources q"
    by (auto simp: push_total_def push_access_unit_def)
qed

lemmas push_total_queue [queue_simps] = push_total_fields(1)

lemma push_total_valid [inv_intros]: "fq_valid q \<Longrightarrow> fq_valid (push_total now nals q)"
  unfolding fq_valid_def [of "push_total now nals q"]
  by (auto simp: push_total_fields) (auto simp: fq_valid_def dest: set_tl_subset [THEN subsetD])

interpretation frame_queue: drop_oldest "push_total now" fq_queue fq_max_queue_size fq_valid "\<lambda>nals. nals \<noteq> []"
  for now
  by unfold_locales (auto simp: queue_simps push_total_fields(2) intro: push_total_valid, simp add: fq_valid_def)

section \<open>The queue of NAL units\<close>

text \<open>The reader sees the concatenation: \<open>pop_nal_unit\<close> is the FIFO operation on it.\<close>

definition fq_nals :: "RtspFrameQueue \<Rightarrow> RtspNalUnit list" where
  "fq_nals q = concat (fq_queue q)"

lemma concat_dropWhile_Nil: "concat (dropWhile (\<lambda>xs. xs = []) xss) = concat xss"
  by (induction xss) auto

lemma dropWhile_Nil_eq_Cons:
  "dropWhile (\<lambda>xs. xs = []) xss = ys # yss \<Longrightarrow> ys \<noteq> [] \<and> ys \<in> set xss \<and> set yss \<subseteq> set xss"
  by (induction xss) (auto split: if_splits)

lemma dropWhile_Nil_eq_Nil: "dropWhile (\<lambda>xs. xs = []) xss = [] \<longleftrightarrow> concat xss = []"
  by (induction xss) auto

lemma pop_nal_unit_fifo:
  "pop_nal_unit q = (case fq_nals q of
      [] \<Rightarrow> (None, q\<lparr>fq_queue := []\<rparr>)
    | nal # nals \<Rightarrow> (Some nal, snd (pop_nal_unit q)))
   \<and> fq_nals (snd (pop_nal_unit q)) = tl (fq_nals q)"
proof (cases "dropWhile (\<lambda>au. au = []) (fq_queue q)")
  case Nil
  then have empty: "fq_nals q = []" using dropWhile_Nil_eq_Nil [of "fq_queue q"] by (simp only: fq_nals_def)
  have "pop_nal_unit q = (None, q\<lparr>fq_queue := []\<rparr>)"
    unfolding pop_nal_unit_def Nil by simp
  moreover have "fq_nals (q\<lparr>fq_queue := []\<rparr>) = []" by (simp add: fq_nals_def)
  ultimately show ?thesis using empty by simp
next
  case (Cons au aus)
  then obtain n ns where au: "au = n # ns" using dropWhile_Nil_eq_Cons by (metis neq_Nil_conv)
  have "fq_nals q = n # ns @ concat aus"
    using concat_dropWhile_Nil [of "fq_queue q"] by (simp add: fq_nals_def Cons au)
  then show ?thesis
    by (simp add: pop_nal_unit_def Cons au) (simp add: fq_nals_def)
qed

lemma pop_nal_unit_fields:
  "fq_max_queue_size (snd (pop_nal_unit q)) = fq_max_queue_size q"
  "fq_active_sources (snd (pop_nal_unit q)) = fq_active_sources q"
  by (simp_all add: pop_nal_unit_def Let_def split: list.splits)

lemma pop_nal_unit_valid [inv_intros]:
  assumes "fq_valid q"
  shows "fq_valid (snd (pop_nal_unit q))"
proof (cases "fq_queue q")
  case Nil
  with assms show ?thesis by (simp add: pop_nal_unit_def fq_valid_def)
next
  case (Cons au aus)
  with assms show ?thesis by (auto simp: pop_nal_unit_def fq_valid_def)
qed

lemma pop_nal_unit_None:
  "fst (pop_nal_unit q) = None \<longleftrightarrow> fq_nals q = []"
  using pop_nal_unit_fifo [of q] by (cases "fq_nals q") (auto dest: arg_cong [where f = fst])

lemma pop_nal_unit_Some:
  "fst (pop_nal_unit q) = Some nal \<Longrightarrow> fq_nals q = nal # fq_nals (snd (pop_nal_unit q))"
  using pop_nal_unit_fifo [of q] by (cases "fq_nals q") (auto dest: arg_cong [where f = fst])

section \<open>Properties\<close>

text \<open>
  C35: the queue refines a bounded list of access units: on a valid queue (as every operation
  leaves it), pushing a non-empty access unit is always defined, drops exactly the oldest unit
  when the queue is full and nothing otherwise, appends the whole unit at the end, and keeps the
  registered sources; an empty access unit changes nothing.
\<close>

theorem push_access_unit_refines:
  assumes "fq_valid q"
  shows "\<exists>q'. push_access_unit now nals q = Inr q' \<and> fq_valid q'
    \<and> fq_queue q' = (if nals = [] then fq_queue q else
        (if length (fq_queue q) < fq_max_queue_size q then fq_queue q else tl (fq_queue q)) @ [nals])
    \<and> fq_active_sources q' = fq_active_sources q \<and> fq_max_queue_size q' = fq_max_queue_size q"
  using push_access_unit_total [OF assms] push_total_valid [OF assms] push_total_fields [OF assms]
  by (intro exI [of _ "push_total now nals q"]) blast

definition nal1 :: "u8 \<Rightarrow> RtspNalUnit" where
  "nal1 b = \<lparr>nu_data = [b], nu_timestamp = 0, nu_is_idr = False\<rparr>"

theorem push_access_unit_refines_witness:
  "\<exists>q'. push_access_unit 0 [nal1 3] ((new_frame_queue 1)\<lparr>fq_queue := [[nal1 1, nal1 2]]\<rparr>) = Inr q'
      \<and> fq_queue q' = [[nal1 3]]"
  using push_access_unit_refines [of "(new_frame_queue 1)\<lparr>fq_queue := [[nal1 1, nal1 2]]\<rparr>" 0 "[nal1 3]"]
  by (auto simp: new_frame_queue_def fq_valid_def)

text \<open>
  C36: reading refines a FIFO of NAL units: \<open>pop_nal_unit\<close> returns false exactly when no NAL unit
  is left (empty access units are skipped), otherwise the first NAL unit of the concatenation of
  the queued access units, and what is left is the rest of it.
\<close>

theorem pop_nal_unit_refines:
  "fst (pop_nal_unit q) = (case fq_nals q of [] \<Rightarrow> None | nal # _ \<Rightarrow> Some nal)
   \<and> fq_nals (snd (pop_nal_unit q)) = tl (fq_nals q)"
  using pop_nal_unit_fifo [of q] by (cases "fq_nals q") (auto dest: arg_cong [where f = fst])

text \<open>
  After any sequence of pushes onto an empty queue, the queue holds exactly the last
  \<open>max_queue_size\<close> access units, whole and in order.
\<close>

lemma frame_queue_newest:
  assumes "\<And>au. au \<in> set aus \<Longrightarrow> au \<noteq> []"
  shows "fq_queue (fold (push_total now) aus (new_frame_queue n)) = drop (length aus - max n 1) aus"
proof -
  have "fq_queue (fold (push_total now) aus (new_frame_queue n))
      = drop (length (fq_queue (new_frame_queue n)) + length aus - fq_max_queue_size (new_frame_queue n))
          (fq_queue (new_frame_queue n) @ aus)"
    using assms by (intro frame_queue.push_all_newest) (auto simp: new_frame_queue_def fq_valid_def)
  also have "\<dots> = drop (length aus - max n 1) aus"
    by (simp add: new_frame_queue_def)
  finally show ?thesis .
qed

text \<open>
  An overflow can cut an access unit in the middle: the unit at the front may be partly sent when
  it is dropped, and its remaining NAL units are then never sent.
\<close>

lemma overflow_truncates_access_unit:
  "let q0 = push_total 0 [nal1 1, nal1 2] (new_frame_queue 1);
       (first, q1) = pop_nal_unit q0;
       (second, q2) = pop_nal_unit (push_total 0 [nal1 3] q1)
   in first = Some (nal1 1) \<and> second = Some (nal1 3) \<and> fq_queue q2 = []"
  by (simp add: push_total_def push_access_unit_def make_room.simps new_frame_queue_def pop_nal_unit_def
      drop_oldest_access_unit_locked_def)

end
