(* ===== verification/Eye_Types.thy ===== *)
theory Eye_Types
  imports Eye_Prelude
begin

text \<open>
  The data types of \<open>modules/core\<close>: the enumerations and structs of
  \<open>include/common_types.h\<close>, and the resolution table of \<open>include/global_constants.h\<close> and
  \<open>src/global_constants.cpp\<close>.  An enumeration is a \<open>datatype\<close>, a struct a \<open>record\<close>.
\<close>

section \<open>common_types.h\<close>

datatype VencChannel = CHN0 | CHN1 | CHN2

datatype StreamType = VIDEO_MAIN | VIDEO_SUB | VIDEO_MJPEG | AUDIO_AAC

datatype CodecType = H264 | H265 | MJPEG

datatype NaluType = IDR_SLICE | P_SLICE | B_SLICE | OTHER

record Size =
  width :: u32
  height :: u32

text \<open>
  A \<open>const uint8_t*\<close> is \<open>None\<close> for the null pointer and otherwise the bytes that can be read
  from it; \<open>fp_len\<close> is the length the producer announces, which need not agree with them.
\<close>

record FramePack =
  fp_data :: "u8 list option"
  fp_len :: u32
  fp_nalu_type :: NaluType

definition MAX_PACKS :: nat where
  "MAX_PACKS = 16"

text \<open>\<open>fd_packs\<close> is the array \<open>packs[MAX_PACKS]\<close>: sixteen entries, of which \<open>pack_count\<close> are used.\<close>

record FrameData =
  fd_packs :: "FramePack list"
  fd_pack_count :: u32
  fd_seq :: u32

text \<open>
  \<open>std::map<StreamType, _>\<close> iterates in the order of the enumerators; the instance gives the
  type that order.
\<close>

fun stream_index :: "StreamType \<Rightarrow> nat" where
  "stream_index VIDEO_MAIN = 0"
| "stream_index VIDEO_SUB = 1"
| "stream_index VIDEO_MJPEG = 2"
| "stream_index AUDIO_AAC = 3"

lemma stream_index_inject [simp]: "stream_index a = stream_index b \<longleftrightarrow> a = b"
  by (cases a; cases b) auto

instantiation StreamType :: linorder
begin

definition less_eq_StreamType :: "StreamType \<Rightarrow> StreamType \<Rightarrow> bool" where
  "a \<le> b \<longleftrightarrow> stream_index a \<le> stream_index b"

definition less_StreamType :: "StreamType \<Rightarrow> StreamType \<Rightarrow> bool" where
  "a < b \<longleftrightarrow> stream_index a < stream_index b"

instance
  by standard (auto simp: less_eq_StreamType_def less_StreamType_def)

end

definition stream_types :: "StreamType list" where
  "stream_types = [VIDEO_MAIN, VIDEO_SUB, VIDEO_MJPEG, AUDIO_AAC]"

lemma stream_types_complete [simp]: "t \<in> set stream_types"
  by (cases t) (auto simp: stream_types_def)

lemma stream_types_sorted: "sorted_wrt (<) stream_types"
  by (simp add: stream_types_def less_StreamType_def)

text \<open>The values of a \<open>std::map\<close> in iteration order.\<close>

definition map_values :: "(StreamType \<rightharpoonup> 'v) \<Rightarrow> 'v list" where
  "map_values m = List.map_filter m stream_types"

lemma set_map_values: "set (map_values m) = ran m"
  by (auto simp: map_values_def map_filter_def ran_def image_iff) (metis stream_types_complete option.sel option.distinct(1))+

section \<open>global_constants\<close>

datatype PicSize =
    PIC_CIF | PIC_360P | PIC_D1_PAL | PIC_D1_NTSC | PIC_960H | PIC_720P | PIC_1080P | PIC_480P
  | PIC_576P | PIC_800X600 | PIC_1024X768 | PIC_1280X1024 | PIC_1366X768 | PIC_1440X900
  | PIC_1280X800 | PIC_1600X1200 | PIC_1680X1050 | PIC_1920X1200 | PIC_640X480 | PIC_1920X2160
  | PIC_2304X1296 | PIC_2560X1440 | PIC_2560X1600 | PIC_2592X1520 | PIC_2688X1520
  | PIC_2592X1944 | PIC_3840X2160 | PIC_4096X2160 | PIC_3000X3000 | PIC_4000X3000
  | PIC_6080X2800 | PIC_7680X4320 | PIC_3840X8640 | PIC_2880X1620 | PIC_BUTT

text \<open>The enumerators in declaration order; the value of an enumerator is its position.\<close>

definition pic_enumerators :: "PicSize list" where
  "pic_enumerators =
    [PIC_CIF, PIC_360P, PIC_D1_PAL, PIC_D1_NTSC, PIC_960H, PIC_720P, PIC_1080P, PIC_480P,
     PIC_576P, PIC_800X600, PIC_1024X768, PIC_1280X1024, PIC_1366X768, PIC_1440X900,
     PIC_1280X800, PIC_1600X1200, PIC_1680X1050, PIC_1920X1200, PIC_640X480, PIC_1920X2160,
     PIC_2304X1296, PIC_2560X1440, PIC_2560X1600, PIC_2592X1520, PIC_2688X1520,
     PIC_2592X1944, PIC_3840X2160, PIC_4096X2160, PIC_3000X3000, PIC_4000X3000,
     PIC_6080X2800, PIC_7680X4320, PIC_3840X8640, PIC_2880X1620, PIC_BUTT]"

fun index_of :: "'a \<Rightarrow> 'a list \<Rightarrow> nat" where
  "index_of x [] = 0"
| "index_of x (y # ys) = (if x = y then 0 else Suc (index_of x ys))"

definition pic_value :: "PicSize \<Rightarrow> nat" where
  "pic_value s = index_of s pic_enumerators"

definition pic_size_array :: "Size list" where
  "pic_size_array = map (\<lambda>(w, h). \<lparr>width = w, height = h\<rparr>)
    [(352, 288), (640, 360), (720, 576), (720, 480), (960, 576), (1280, 720), (1920, 1080),
     (720, 480), (720, 576), (800, 600), (1024, 768), (1280, 1024), (1366, 768), (1440, 900),
     (1280, 800), (1600, 1200), (1680, 1050), (1920, 1200), (640, 480), (1920, 2160),
     (2304, 1296), (2560, 1440), (2560, 1600), (2592, 1520), (2688, 1520), (2592, 1944),
     (3840, 2160), (4096, 2160), (3000, 3000), (4000, 3000), (6080, 2800), (7680, 4320),
     (3840, 8640), (2880, 1620)]"

text \<open>The array read \<open>pic_size_array[size]\<close>; past the end it is undefined in C, here \<open>None\<close>.\<close>

definition pic_lookup :: "PicSize \<Rightarrow> Size option" where
  "pic_lookup s =
     (if pic_value s < length pic_size_array then Some (pic_size_array ! pic_value s) else None)"

lemma pic_lookup_None: "pic_lookup s = None \<longleftrightarrow> s = PIC_BUTT"
  by (cases s) (simp_all add: pic_lookup_def pic_value_def pic_enumerators_def pic_size_array_def)

text \<open>Every resolution of the table is small enough for 32-bit pixel counts.\<close>

lemma pic_lookup_bound:
  assumes "pic_lookup s = Some z"
  shows "0 < unat (width z) \<and> unat (width z) \<le> 7680 \<and> 0 < unat (height z) \<and> unat (height z) \<le> 8640
    \<and> unat (width z) * unat (height z) \<le> 33177600"
  using assms
  by (cases s)
    (auto simp: pic_lookup_def pic_value_def pic_enumerators_def pic_size_array_def)

end
