(* ===== verification/Stream_Source.thy ===== *)
theory Stream_Source
  imports Frame_Queue Eye_Types
begin

text \<open>
  \<open>modules/rtsp/src/rtsp_stream_source.cpp\<close>: the live555 \<open>FramedSource\<close> that hands NAL units from
  the queue to the RTP sink.  The fields \<open>fTo\<close>, \<open>fMaxSize\<close>, \<open>fIsCurrentlyAwaitingData\<close> and the
  results are those of the base class.  Of live555 the model uses what its documentation says:
  \<open>getNextFrame\<close> sets the buffer and the awaiting flag and calls \<open>doGetNextFrame\<close>;
  \<open>afterGetting\<close> clears the flag before it tells the sink; a delayed task runs once, later, on the
  event loop, with the pointer it was given; an event trigger runs its handler once after it was
  raised.  The event loop may order socket events, triggers and tasks in any way.
\<close>

section \<open>One source\<close>

record RtspStreamSource =
  ss_stream_type :: StreamType
  ss_codec_type :: CodecType
  ss_awaiting_frame :: bool
  ss_currently_awaiting :: bool
  ss_to :: "u8 list"
  ss_max_size :: u32
  ss_frame_size :: u32
  ss_truncated_bytes :: u32
  ss_tv_sec :: u64
  ss_tv_usec :: u64
  ss_duration :: u32

definition new_source :: "StreamType \<Rightarrow> CodecType \<Rightarrow> RtspStreamSource" where
  "new_source type codec =
     \<lparr>ss_stream_type = type, ss_codec_type = codec, ss_awaiting_frame = False,
      ss_currently_awaiting = False, ss_to = [], ss_max_size = 0, ss_frame_size = 0,
      ss_truncated_bytes = 0, ss_tv_sec = 0, ss_tv_usec = 0, ss_duration = 0\<rparr>"

text \<open>\<open>memcpy(fTo, bytes, n)\<close>: both ranges must be in bounds.\<close>

definition copy_out :: "u8 list \<Rightarrow> u8 list \<Rightarrow> nat \<Rightarrow> u8 list checked" where
  "copy_out dst src n =
     (if length src < n \<or> length dst < n then Inl OutOfBounds else Inr (take n src @ drop n dst))"

text \<open>
  \<open>deliver_frame\<close>, with \<open>afterGetting\<close> at its end; the NAL unit taken from the queue is returned
  as well.
\<close>

definition deliver_frame ::
  "RtspStreamSource \<Rightarrow> RtspFrameQueue \<Rightarrow> (RtspStreamSource \<times> RtspFrameQueue \<times> RtspNalUnit option) checked" where
  "deliver_frame source q =
     (if \<not> ss_currently_awaiting source then Inr (source\<lparr>ss_awaiting_frame := False\<rparr>, q, None)
      else case pop_nal_unit q of
          (None, q) \<Rightarrow> Inr (source\<lparr>ss_awaiting_frame := True\<rparr>, q, None)
        | (Some nal, q) \<Rightarrow>
            let size = length (nu_data nal);
                max = unat (ss_max_size source);
                n = (if max < size then max else size)
            in case copy_out (ss_to source) (nu_data nal) n of
                 Inl e \<Rightarrow> Inl e
               | Inr buf \<Rightarrow>
                   Inr (source\<lparr>ss_to := buf,
                         ss_frame_size := (if max < size then ss_max_size source else word_of_nat size),
                         ss_truncated_bytes := (if max < size then word_of_nat (size - max) else 0),
                         ss_tv_sec := nu_timestamp nal div 1000,
                         ss_tv_usec := (nu_timestamp nal mod 1000) * 1000,
                         ss_duration := 1000000 div 30,
                         ss_currently_awaiting := False\<rparr>, q, Some nal))"

definition doGetNextFrame ::
  "RtspStreamSource \<Rightarrow> RtspFrameQueue \<Rightarrow> (RtspStreamSource \<times> RtspFrameQueue \<times> RtspNalUnit option) checked" where
  "doGetNextFrame source q = deliver_frame (source\<lparr>ss_awaiting_frame := True\<rparr>) q"

definition doStopGettingFrames :: "RtspStreamSource \<Rightarrow> RtspStreamSource" where
  "doStopGettingFrames source = source\<lparr>ss_awaiting_frame := False\<rparr>"

text \<open>\<open>notify_frame_available\<close>: the new state and whether \<open>deliver_frame\<close> was scheduled.\<close>

definition notify_frame_available :: "RtspStreamSource \<Rightarrow> RtspStreamSource \<times> bool" where
  "notify_frame_available source =
     (if \<not> ss_awaiting_frame source then (source, False)
      else (source\<lparr>ss_awaiting_frame := False\<rparr>, True))"

section \<open>Sources, queue and event loop\<close>

record rtsp_sys =
  y_queue :: RtspFrameQueue
  y_sources :: "source_id \<rightharpoonup> RtspStreamSource"
  y_next_id :: source_id
  y_tasks :: "source_id list"
  y_trigger :: bool
  y_unsignalled :: bool
  y_pushed :: "RtspNalUnit list"
  y_sent :: "RtspNalUnit list"

definition new_sys :: "nat \<Rightarrow> rtsp_sys" where
  "new_sys max_queue_size =
     \<lparr>y_queue = new_frame_queue max_queue_size, y_sources = Map.empty, y_next_id = 0, y_tasks = [],
      y_trigger = False, y_unsignalled = False, y_pushed = [], y_sent = []\<rparr>"

text \<open>Calling \<open>notify_frame_available\<close> through a pointer; a dead source is undefined behaviour.\<close>

definition notify_by_id ::
  "source_id \<Rightarrow> ((source_id \<rightharpoonup> RtspStreamSource) \<times> source_id list) checked
     \<Rightarrow> ((source_id \<rightharpoonup> RtspStreamSource) \<times> source_id list) checked" where
  "notify_by_id s r =
     (case r of
        Inl e \<Rightarrow> Inl e
      | Inr (sources, tasks) \<Rightarrow>
          (case sources s of
             None \<Rightarrow> Inl UseAfterFree
           | Some source \<Rightarrow>
               let (source, scheduled) = notify_frame_available source
               in Inr (sources(s \<mapsto> source), if scheduled then tasks @ [s] else tasks)))"

definition delivered ::
  "source_id \<Rightarrow> rtsp_sys \<Rightarrow> (RtspStreamSource \<times> RtspFrameQueue \<times> RtspNalUnit option) checked \<Rightarrow> rtsp_sys checked" where
  "delivered s y r =
     (case r of
        Inl e \<Rightarrow> Inl e
      | Inr (source, q, nal) \<Rightarrow>
          Inr (y\<lparr>y_sources := (y_sources y)(s \<mapsto> source), y_queue := q,
                 y_sent := y_sent y @ (case nal of None \<Rightarrow> [] | Some n \<Rightarrow> [n])\<rparr>))"

text \<open>
  \<open>Push\<close> and \<open>Signal\<close> are the server's worker thread (\<open>push_access_unit\<close>, then
  \<open>triggerEvent\<close>); the others run on the event loop.
\<close>

datatype src_action =
    NewSource StreamType CodecType
  | GetNextFrame source_id "u8 list"
  | StopGetting source_id
  | CloseSource source_id
  | Push int "RtspNalUnit list"
  | Signal
  | HandleTrigger
  | RunTask

fun src_step :: "src_action \<Rightarrow> rtsp_sys \<Rightarrow> rtsp_sys checked option" where
  "src_step (NewSource type codec) y =
     Some (Inr (y\<lparr>y_sources := (y_sources y)(y_next_id y \<mapsto> new_source type codec),
                  y_queue := register_source (y_next_id y) (y_queue y),
                  y_next_id := y_next_id y + 1\<rparr>))"
| "src_step (GetNextFrame s buf) y =
     (case y_sources y s of
        None \<Rightarrow> None
      | Some source \<Rightarrow>
          if ss_currently_awaiting source \<or> 2 ^ 32 \<le> length buf then None
          else Some (delivered s y
            (doGetNextFrame (source\<lparr>ss_to := buf, ss_max_size := word_of_nat (length buf),
                                    ss_currently_awaiting := True\<rparr>) (y_queue y))))"
| "src_step (StopGetting s) y =
     (case y_sources y s of
        None \<Rightarrow> None
      | Some source \<Rightarrow>
          Some (Inr (y\<lparr>y_sources := (y_sources y)
            (s \<mapsto> doStopGettingFrames (source\<lparr>ss_currently_awaiting := False\<rparr>))\<rparr>)))"
| "src_step (CloseSource s) y =
     (case y_sources y s of
        None \<Rightarrow> None
      | Some _ \<Rightarrow>
          Some (Inr (y\<lparr>y_sources := (y_sources y)(s := None),
                       y_queue := unregister_source s (y_queue y)\<rparr>)))"
| "src_step (Push now nals) y =
     Some (case push_access_unit now nals (y_queue y) of
        Inl e \<Rightarrow> Inl e
      | Inr q \<Rightarrow> Inr (y\<lparr>y_queue := q, y_pushed := y_pushed y @ nals, y_unsignalled := True\<rparr>))"
| "src_step Signal y =
     (if y_unsignalled y then Some (Inr (y\<lparr>y_unsignalled := False, y_trigger := True\<rparr>)) else None)"
| "src_step HandleTrigger y =
     (if y_trigger y then
        Some (case notify_active_sources notify_by_id (y_queue y) (Inr (y_sources y, y_tasks y)) of
           Inl e \<Rightarrow> Inl e
         | Inr (sources, tasks) \<Rightarrow> Inr (y\<lparr>y_trigger := False, y_sources := sources, y_tasks := tasks\<rparr>))
      else None)"
| "src_step RunTask y =
     (case y_tasks y of
        [] \<Rightarrow> None
      | s # tasks \<Rightarrow>
          Some (let y = y\<lparr>y_tasks := tasks\<rparr>
                in case y_sources y s of
                     None \<Rightarrow> Inl UseAfterFree
                   | Some source \<Rightarrow> delivered s y (deliver_frame source (y_queue y))))"

inductive src_reachable :: "nat \<Rightarrow> rtsp_sys \<Rightarrow> bool" for max_queue_size where
  src_init: "src_reachable max_queue_size (new_sys max_queue_size)"
| src_next: "src_reachable max_queue_size y \<Longrightarrow> src_step x y = Some (Inr y') \<Longrightarrow>
    src_reachable max_queue_size y'"

section \<open>Delivery\<close>

lemma deliver_frame_cases:
  assumes "length (ss_to source) = unat (ss_max_size source)"
  obtains (idle) "\<not> ss_currently_awaiting source"
      "deliver_frame source q = Inr (source\<lparr>ss_awaiting_frame := False\<rparr>, q, None)"
  | (empty) q' where "ss_currently_awaiting source" "pop_nal_unit q = (None, q')"
      "deliver_frame source q = Inr (source\<lparr>ss_awaiting_frame := True\<rparr>, q', None)"
  | (sent) nal q' source' where "ss_currently_awaiting source" "pop_nal_unit q = (Some nal, q')"
      "deliver_frame source q = Inr (source', q', Some nal)" "\<not> ss_currently_awaiting source'"
      "length (ss_to source') = unat (ss_max_size source')"
proof (cases "ss_currently_awaiting source")
  case False
  then show thesis by (intro idle) (simp_all add: deliver_frame_def)
next
  case True
  show thesis
  proof (cases "pop_nal_unit q")
    case (Pair r q')
    show thesis
    proof (cases r)
      case None
      with Pair True show thesis by (intro empty) (simp_all add: deliver_frame_def)
    next
      case (Some nal)
      let ?n = "if unat (ss_max_size source) < length (nu_data nal) then unat (ss_max_size source)
        else length (nu_data nal)"
      have "copy_out (ss_to source) (nu_data nal) ?n = Inr (take ?n (nu_data nal) @ drop ?n (ss_to source))"
        using assms by (simp add: copy_out_def)
      then obtain source' where "deliver_frame source q = Inr (source', q', Some nal)"
        "\<not> ss_currently_awaiting source'" "length (ss_to source') = unat (ss_max_size source')"
        using True Pair Some assms by (simp add: deliver_frame_def Let_def)
      with Pair True Some show thesis by (intro sent) simp_all
    qed
  qed
qed

text \<open>
  Delivering a NAL unit never writes past the sink's buffer: the buffer keeps its length, its
  first \<open>fFrameSize\<close> bytes are the first bytes of the NAL unit, \<open>fFrameSize\<close> plus
  \<open>fNumTruncatedBytes\<close> is the size of the NAL unit, and bytes are cut only when the NAL unit is
  larger than the buffer.
\<close>

theorem deliver_frame_copies:
  assumes "ss_currently_awaiting source" and "pop_nal_unit q = (Some nal, q')"
    and "length (ss_to source) = unat (ss_max_size source)" and "length (nu_data nal) < 2 ^ 32"
  shows "case deliver_frame source q of
      Inl _ \<Rightarrow> False
    | Inr (source', q1, r) \<Rightarrow> q1 = q' \<and> r = Some nal
        \<and> length (ss_to source') = length (ss_to source)
        \<and> take (unat (ss_frame_size source')) (ss_to source') = take (unat (ss_frame_size source')) (nu_data nal)
        \<and> unat (ss_frame_size source') + unat (ss_truncated_bytes source') = length (nu_data nal)
        \<and> (ss_truncated_bytes source' = 0 \<longleftrightarrow> length (nu_data nal) \<le> unat (ss_max_size source))"
proof -
  let ?size = "length (nu_data nal)" and ?max = "unat (ss_max_size source)"
  have size: "unat (word_of_nat ?size :: u32) = ?size" "unat (word_of_nat (?size - ?max) :: u32) = ?size - ?max"
    using assms(4) by (auto intro!: word_less_of_nat_len)
  then have "(word_of_nat (?size - ?max) :: u32) = 0 \<longleftrightarrow> ?size \<le> ?max"
    by (metis diff_is_0_eq unat_eq_0)
  then show ?thesis
    using assms size by (simp add: deliver_frame_def copy_out_def Let_def del: of_nat_diff)
qed

definition nal3 :: RtspNalUnit where
  "nal3 = \<lparr>nu_data = [1, 2, 3], nu_timestamp = 1234567, nu_is_idr = True\<rparr>"

definition source2 :: RtspStreamSource where
  "source2 = (new_source VIDEO_MAIN H264)\<lparr>ss_to := [0, 0], ss_max_size := 2, ss_currently_awaiting := True\<rparr>"

lemma pop_nal3: "pop_nal_unit ((new_frame_queue 4)\<lparr>fq_queue := [[nal3]]\<rparr>) = (Some nal3, new_frame_queue 4)"
  by (simp add: pop_nal_unit_def new_frame_queue_def)

theorem deliver_frame_copies_witness:
  "case deliver_frame source2 ((new_frame_queue 4)\<lparr>fq_queue := [[nal3]]\<rparr>) of
      Inl _ \<Rightarrow> False
    | Inr (source', _, _) \<Rightarrow> unat (ss_frame_size source') + unat (ss_truncated_bytes source') = 3"
  using deliver_frame_copies [OF _ pop_nal3, of source2]
  by (auto simp: source2_def new_source_def nal3_def split: sum.splits prod.splits)

text \<open>
  The presentation time of a delivered NAL unit is its millisecond timestamp, exactly:
  seconds times 1000 plus microseconds divided by 1000 is the timestamp, and the microseconds are
  a proper fraction of a second; the duration is that of 30 frames per second.
\<close>

theorem deliver_frame_time:
  assumes "ss_currently_awaiting source" and "pop_nal_unit q = (Some nal, q')"
    and "deliver_frame source q = Inr (source', q1, r)"
  shows "unat (ss_tv_sec source') * 1000 + unat (ss_tv_usec source') div 1000 = unat (nu_timestamp nal)
    \<and> unat (ss_tv_usec source') < 1000000 \<and> unat (ss_tv_usec source') mod 1000 = 0
    \<and> ss_duration source' = 33333"
proof -
  let ?t = "nu_timestamp nal"
  have fields: "ss_tv_sec source' = ?t div 1000" "ss_tv_usec source' = (?t mod 1000) * 1000"
    "ss_duration source' = 33333"
    using assms by (auto simp: deliver_frame_def Let_def split: sum.splits)
  have mod: "unat (?t mod 1000) = unat ?t mod 1000" by (simp add: unat_mod)
  then have "unat (?t mod 1000) * unat (1000 :: u64) < 2 ^ 64" by simp
  then have "unat ((?t mod 1000) * 1000) = unat (?t mod 1000) * 1000"
    by (subst unat_mult_lem [THEN iffD1]) simp_all
  then have usec: "unat (ss_tv_usec source') = (unat ?t mod 1000) * 1000"
    by (simp add: fields mod)
  moreover have "unat (ss_tv_sec source') = unat ?t div 1000"
    by (simp add: fields unat_div)
  ultimately show ?thesis by (simp add: fields(3))
qed

theorem deliver_frame_time_witness:
  "\<exists>source' q1 r. deliver_frame source2 ((new_frame_queue 4)\<lparr>fq_queue := [[nal3]]\<rparr>) = Inr (source', q1, r)
     \<and> unat (ss_tv_sec source') * 1000 + unat (ss_tv_usec source') div 1000 = 1234567"
proof -
  have "length (ss_to source2) = unat (ss_max_size source2)" by (simp add: source2_def)
  then obtain source' q1 r where
    d: "deliver_frame source2 ((new_frame_queue 4)\<lparr>fq_queue := [[nal3]]\<rparr>) = Inr (source', q1, r)"
    by (rule deliver_frame_cases) blast+
  have "ss_currently_awaiting source2" by (simp add: source2_def)
  from deliver_frame_time [OF this pop_nal3 d] d show ?thesis by (simp add: nal3_def)
qed

section \<open>Invariant of the system\<close>

text \<open>\<open>source_ok y s source\<close>: a source that waits for data will be woken if there is any.\<close>

definition source_ok :: "rtsp_sys \<Rightarrow> source_id \<Rightarrow> RtspStreamSource \<Rightarrow> bool" where
  "source_ok y s source \<longleftrightarrow>
     length (ss_to source) = unat (ss_max_size source) \<and> s < y_next_id y
   \<and> (ss_currently_awaiting source \<and> s \<notin> set (y_tasks y) \<longrightarrow>
        ss_awaiting_frame source \<and> (fq_nals (y_queue y) = [] \<or> y_trigger y \<or> y_unsignalled y))"

definition sys_inv :: "rtsp_sys \<Rightarrow> bool" where
  "sys_inv y \<longleftrightarrow>
     fq_valid (y_queue y)
   \<and> distinct (fq_active_sources (y_queue y)) \<and> set (fq_active_sources (y_queue y)) = dom (y_sources y)
   \<and> (\<forall>s source. y_sources y s = Some source \<longrightarrow> source_ok y s source)
   \<and> subseq (y_sent y @ fq_nals (y_queue y)) (y_pushed y)"

lemma sys_invD:
  assumes "sys_inv y"
  shows "fq_valid (y_queue y)" and "distinct (fq_active_sources (y_queue y))"
    and "set (fq_active_sources (y_queue y)) = dom (y_sources y)"
    and "y_sources y s = Some source \<Longrightarrow> source_ok y s source"
    and "subseq (y_sent y @ fq_nals (y_queue y)) (y_pushed y)"
  using assms by (auto simp: sys_inv_def)

lemma register_simps [simp]:
  "fq_nals (register_source s q) = fq_nals q" "fq_nals (unregister_source s q) = fq_nals q"
  "fq_valid (register_source s q) = fq_valid q" "fq_valid (unregister_source s q) = fq_valid q"
  by (simp_all add: register_source_def unregister_source_def fq_nals_def fq_valid_def)

lemma register_source_sources:
  "fq_active_sources (register_source s q) = fq_active_sources q @ [s]"
  "fq_active_sources (unregister_source s q) = remove1 s (fq_active_sources q)"
  by (simp_all add: register_source_def unregister_source_def)

lemma fq_nals_push:
  assumes "fq_valid q"
  shows "subseq (fq_nals (push_total now nals q)) (fq_nals q @ nals)"
proof -
  have "subseq (concat (tl (fq_queue q))) (concat (fq_queue q))"
    by (cases "fq_queue q") (auto intro: list_emb_append2)
  then show ?thesis
    by (simp add: fq_nals_def push_total_fields [OF assms] list_emb_append_mono)
qed

text \<open>Delivery keeps the invariant of all other sources and establishes that of its own.\<close>

lemma deliver_frame_effect:
  assumes d: "deliver_frame source q = Inr (source', q', r)" and own: "length (ss_to source) = unat (ss_max_size source)"
  shows "q' = q \<or> q' = snd (pop_nal_unit q)"
    and "fq_nals q = (case r of None \<Rightarrow> [] | Some n \<Rightarrow> [n]) @ fq_nals q'"
    and "length (ss_to source') = unat (ss_max_size source')"
    and "ss_currently_awaiting source' \<Longrightarrow> ss_awaiting_frame source' \<and> fq_nals q' = []"
proof -
  have "(q' = q \<or> q' = snd (pop_nal_unit q))
    \<and> fq_nals q = (case r of None \<Rightarrow> [] | Some n \<Rightarrow> [n]) @ fq_nals q'
    \<and> length (ss_to source') = unat (ss_max_size source')
    \<and> (ss_currently_awaiting source' \<longrightarrow> ss_awaiting_frame source' \<and> fq_nals q' = [])"
    using own
  proof (cases rule: deliver_frame_cases [of source q])
    case idle
    with d own show ?thesis by auto
  next
    case (empty q1)
    then have "fq_nals q = []" "fq_nals q1 = []"
      using pop_nal_unit_None [of q] pop_nal_unit_fifo [of q] by auto
    with empty d own show ?thesis by auto
  next
    case (sent nal q1 source1)
    then have "fq_nals q = nal # fq_nals q1"
      using pop_nal_unit_Some [of q nal] by simp
    with sent d show ?thesis by auto
  qed
  then show "q' = q \<or> q' = snd (pop_nal_unit q)"
    "fq_nals q = (case r of None \<Rightarrow> [] | Some n \<Rightarrow> [n]) @ fq_nals q'"
    "length (ss_to source') = unat (ss_max_size source')"
    "ss_currently_awaiting source' \<Longrightarrow> ss_awaiting_frame source' \<and> fq_nals q' = []"
    by blast+
qed

lemma delivered_inv:
  assumes inv: "fq_valid (y_queue y)" "distinct (fq_active_sources (y_queue y))"
      "set (fq_active_sources (y_queue y)) = dom (y_sources y)" "s \<in> dom (y_sources y)"
      "subseq (y_sent y @ fq_nals (y_queue y)) (y_pushed y)"
    and others: "\<And>s' src. s' \<noteq> s \<Longrightarrow> y_sources y s' = Some src \<Longrightarrow> source_ok y s' src"
    and own: "length (ss_to source) = unat (ss_max_size source)" "s < y_next_id y"
    and step: "delivered s y (deliver_frame source (y_queue y)) = Inr y'"
  shows "sys_inv y'"
proof -
  obtain source' q' r where d: "deliver_frame source (y_queue y) = Inr (source', q', r)"
    using own(1) by (rule deliver_frame_cases) blast+
  have y': "y' = y\<lparr>y_sources := (y_sources y)(s \<mapsto> source'), y_queue := q',
      y_sent := y_sent y @ (case r of None \<Rightarrow> [] | Some n \<Rightarrow> [n])\<rparr>"
    using step by (simp add: delivered_def d)
  note effect = deliver_frame_effect [OF d own(1)]
  have "fq_valid q'" "fq_active_sources q' = fq_active_sources (y_queue y)"
    using effect(1) inv(1) by (auto simp: pop_nal_unit_fields intro: inv_intros)
  moreover have "source_ok y' s' src" if "y_sources y' s' = Some src" for s' src
  proof (cases "s' = s")
    case True
    with that effect(3,4) own(2) show ?thesis by (auto simp: y' source_ok_def)
  next
    case False
    with that have "source_ok y s' src" by (intro others) (simp_all add: y')
    with effect(2) show ?thesis by (auto simp: y' source_ok_def)
  qed
  moreover have "subseq (y_sent y' @ fq_nals q') (y_pushed y)"
    using inv(5) effect(2) by (simp add: y')
  ultimately show ?thesis
    using inv by (auto simp: sys_inv_def y')
qed

lemma not_awaiting_id: "\<not> ss_awaiting_frame src \<Longrightarrow> src\<lparr>ss_awaiting_frame := False\<rparr> = src"
  by (cases src) simp

text \<open>What the handler does: \<open>ss\<close> are the sources it visits.\<close>

definition notified ::
  "source_id list \<Rightarrow> (source_id \<rightharpoonup> RtspStreamSource) \<Rightarrow> source_id list
     \<Rightarrow> (source_id \<rightharpoonup> RtspStreamSource) \<Rightarrow> source_id list \<Rightarrow> bool" where
  "notified ss sources tasks sources' tasks' \<longleftrightarrow>
     dom sources' = dom sources \<and> set tasks \<subseteq> set tasks'
   \<and> (\<forall>s src'. sources' s = Some src' \<longrightarrow> (\<exists>src. sources s = Some src
        \<and> src' = (if s \<in> set ss then src\<lparr>ss_awaiting_frame := False\<rparr> else src)
        \<and> (s \<in> set ss \<and> ss_awaiting_frame src \<longrightarrow> s \<in> set tasks')))"

lemma notified_Cons:
  assumes "sources s = Some src" and "s \<notin> set ss"
    and n: "notified ss (sources(s \<mapsto> src\<lparr>ss_awaiting_frame := False\<rparr>))
      (if ss_awaiting_frame src then tasks @ [s] else tasks) sources' tasks'"
  shows "notified (s # ss) sources tasks sources' tasks'"
  unfolding notified_def
proof (intro conjI allI impI)
  show "dom sources' = dom sources" "set tasks \<subseteq> set tasks'"
    using n assms(1) by (auto simp: notified_def split: if_splits)
  fix s1 src1 assume s1: "sources' s1 = Some src1"
  then obtain src2 where src2: "(sources(s \<mapsto> src\<lparr>ss_awaiting_frame := False\<rparr>)) s1 = Some src2"
    "src1 = (if s1 \<in> set ss then src2\<lparr>ss_awaiting_frame := False\<rparr> else src2)"
    "s1 \<in> set ss \<and> ss_awaiting_frame src2 \<longrightarrow> s1 \<in> set tasks'"
    using n unfolding notified_def by blast
  have "ss_awaiting_frame src \<longrightarrow> s \<in> set tasks'"
    using n by (auto simp: notified_def split: if_splits)
  with src2 assms(1,2) show "\<exists>src. sources s1 = Some src
     \<and> src1 = (if s1 \<in> set (s # ss) then src\<lparr>ss_awaiting_frame := False\<rparr> else src)
     \<and> (s1 \<in> set (s # ss) \<and> ss_awaiting_frame src \<longrightarrow> s1 \<in> set tasks')"
    by (cases "s1 = s") auto
qed

lemma notify_all:
  "distinct ss \<Longrightarrow> set ss \<subseteq> dom sources \<Longrightarrow>
     \<exists>sources' tasks'. fold notify_by_id ss (Inr (sources, tasks)) = Inr (sources', tasks')
       \<and> notified ss sources tasks sources' tasks'"
proof (induction ss arbitrary: sources tasks)
  case Nil
  then show ?case by (simp add: notified_def)
next
  case (Cons s ss)
  then obtain src where src: "sources s = Some src" by auto
  have one: "notify_by_id s (Inr (sources, tasks)) =
      Inr (sources(s \<mapsto> src\<lparr>ss_awaiting_frame := False\<rparr>), if ss_awaiting_frame src then tasks @ [s] else tasks)"
    by (cases "ss_awaiting_frame src")
      (simp_all add: notify_by_id_def src notify_frame_available_def not_awaiting_id)
  have sub: "distinct ss" "set ss \<subseteq> dom (sources(s \<mapsto> src\<lparr>ss_awaiting_frame := False\<rparr>))"
    using Cons.prems by auto
  obtain sources' tasks' where
    "fold notify_by_id ss (Inr (sources(s \<mapsto> src\<lparr>ss_awaiting_frame := False\<rparr>),
        if ss_awaiting_frame src then tasks @ [s] else tasks)) = Inr (sources', tasks')"
    "notified ss (sources(s \<mapsto> src\<lparr>ss_awaiting_frame := False\<rparr>))
      (if ss_awaiting_frame src then tasks @ [s] else tasks) sources' tasks'"
    using Cons.IH [OF sub] by blast
  with notified_Cons [of sources s src, OF src] Cons.prems(1) one show ?case by auto
qed

text \<open>The actions, one by one.\<close>

lemma new_source_inv:
  assumes inv: "sys_inv y"
  shows "sys_inv (y\<lparr>y_sources := (y_sources y)(y_next_id y \<mapsto> new_source type codec),
      y_queue := register_source (y_next_id y) (y_queue y), y_next_id := y_next_id y + 1\<rparr>)" (is "sys_inv ?y")
proof -
  have "y_next_id y \<notin> dom (y_sources y)"
    using sys_invD(4) [OF inv] by (auto simp: source_ok_def)
  moreover have "source_ok ?y s src" if "y_sources ?y s = Some src" for s src
    using that sys_invD(4) [OF inv, of s src]
    by (auto simp: source_ok_def new_source_def split: if_splits)
  ultimately show ?thesis
    using inv by (auto simp: sys_inv_def register_source_sources)
qed

lemma close_source_inv:
  assumes inv: "sys_inv y"
  shows "sys_inv (y\<lparr>y_sources := (y_sources y)(s := None), y_queue := unregister_source s (y_queue y)\<rparr>)" (is "sys_inv ?y")
proof -
  have "source_ok ?y s1 src" if "y_sources ?y s1 = Some src" for s1 src
    using that sys_invD(4) [OF inv, of s1 src] by (auto simp: source_ok_def split: if_splits)
  with inv show ?thesis by (auto simp: sys_inv_def register_source_sources)
qed

lemma push_inv:
  assumes inv: "sys_inv y"
  shows "sys_inv (y\<lparr>y_queue := push_total now nals (y_queue y), y_pushed := y_pushed y @ nals, y_unsignalled := True\<rparr>)"
proof -
  have "subseq (y_sent y @ fq_nals (push_total now nals (y_queue y))) (y_sent y @ fq_nals (y_queue y) @ nals)"
    using fq_nals_push [OF sys_invD(1) [OF inv]] by (intro list_emb_append_mono) auto
  also have "subseq \<dots> (y_pushed y @ nals)"
    using list_emb_append_mono [OF sys_invD(5) [OF inv], of nals nals] by simp
  finally show ?thesis
    using inv by (auto simp: sys_inv_def source_ok_def push_total_fields intro: inv_intros)
qed

lemma notified_inv:
  assumes inv: "sys_inv y" and n: "notified (fq_active_sources (y_queue y)) (y_sources y) (y_tasks y) sources' tasks'"
  shows "sys_inv (y\<lparr>y_trigger := False, y_sources := sources', y_tasks := tasks'\<rparr>)" (is "sys_inv ?y")
proof -
  have "source_ok ?y s src'" if s: "sources' s = Some src'" for s src'
  proof -
    obtain src where src: "y_sources y s = Some src" "src' = src\<lparr>ss_awaiting_frame := False\<rparr>"
      "ss_awaiting_frame src \<longrightarrow> s \<in> set tasks'"
      using n s sys_invD(3) [OF inv] unfolding notified_def by (metis domI)
    with sys_invD(4) [OF inv src(1)] n show ?thesis by (auto simp: source_ok_def notified_def)
  qed
  with inv n show ?thesis by (simp add: sys_inv_def notified_def)
qed

lemma sys_inv_step:
  assumes inv: "sys_inv y" and step: "src_step x y = Some (Inr y')"
  shows "sys_inv y'"
proof (cases x)
  case (NewSource type codec)
  with step new_source_inv [OF inv] show ?thesis by auto
next
  case (GetNextFrame s buf)
  with step obtain source where s: "y_sources y s = Some source" "length buf < 2 ^ 32"
    and d: "delivered s y (deliver_frame (source\<lparr>ss_to := buf, ss_max_size := word_of_nat (length buf),
      ss_currently_awaiting := True, ss_awaiting_frame := True\<rparr>) (y_queue y)) = Inr y'"
    by (auto simp: doGetNextFrame_def split: option.splits if_splits)
  show ?thesis
    by (rule delivered_inv [OF sys_invD(1-3) [OF inv] _ sys_invD(5) [OF inv] _ _ _ d])
      (use s sys_invD(4) [OF inv] word_less_of_nat_len [of "length buf", where 'a = 32]
        in \<open>auto simp: source_ok_def\<close>)
next
  case (CloseSource s)
  with step close_source_inv [OF inv] show ?thesis by (auto split: option.splits)
next
  case (Push now nals)
  with step push_inv [OF inv] sys_invD(1) [OF inv] show ?thesis by (auto simp: push_access_unit_total)
next
  case HandleTrigger
  with step notify_all [of "fq_active_sources (y_queue y)" "y_sources y" "y_tasks y"] sys_invD(2,3) [OF inv]
  show ?thesis by (auto simp: notify_active_sources_def notified_inv [OF inv] split: if_splits)
next
  case RunTask
  with step obtain s tasks source where t: "y_tasks y = s # tasks" and s: "y_sources y s = Some source"
    and d: "delivered s (y\<lparr>y_tasks := tasks\<rparr>) (deliver_frame source (y_queue (y\<lparr>y_tasks := tasks\<rparr>))) = Inr y'"
    by (auto simp: Let_def split: list.splits option.splits)
  show ?thesis
    by (rule delivered_inv [OF _ _ _ _ _ _ _ _ d])
      (use s t sys_invD [OF inv] in \<open>auto simp: source_ok_def\<close>)
qed (use inv step in \<open>auto simp: sys_inv_def source_ok_def doStopGettingFrames_def split: option.splits if_splits\<close>)

lemma src_reachable_inv: "src_reachable n y \<Longrightarrow> sys_inv y"
proof (induction rule: src_reachable.induct)
  case src_init
  show ?case
    by (simp add: new_sys_def sys_inv_def fq_nals_def new_frame_queue_def fq_valid_def)
next
  case (src_next y x y')
  then show ?case using sys_inv_step by blast
qed

section \<open>Properties of the system\<close>

text \<open>
  No wakeup is lost between the distributor's worker and the event loop: in every interleaving
  of pushes, triggers, tasks, reads, stops and closes, once the pushes are signalled and the event
  loop has nothing left to do, a source that still waits for data finds the queue empty.
\<close>

theorem source_no_lost_wakeup:
  assumes "src_reachable n y"
    and "\<not> y_unsignalled y" and "\<not> y_trigger y" and "y_tasks y = []"
    and "y_sources y s = Some source" and "ss_currently_awaiting source"
  shows "fq_nals (y_queue y) = []"
  using sys_invD(4) [OF src_reachable_inv [OF assms(1)] assms(5)] assms(2-4,6)
  by (auto simp: source_ok_def)

text \<open>
  The NAL units sent through all sources together are an ordered selection of the pushed ones
  without repetition, and everything still queued comes after everything sent.
\<close>

theorem source_order:
  assumes "src_reachable n y"
  shows "subseq (y_sent y @ fq_nals (y_queue y)) (y_pushed y)"
  using src_reachable_inv [OF assms] by (rule sys_invD(5))

fun src_run :: "src_action list \<Rightarrow> rtsp_sys \<Rightarrow> rtsp_sys checked option" where
  "src_run [] y = Some (Inr y)"
| "src_run (x # xs) y =
     (case src_step x y of
        None \<Rightarrow> None
      | Some (Inl e) \<Rightarrow> Some (Inl e)
      | Some (Inr y') \<Rightarrow> src_run xs y')"

lemma src_run_reachable: "src_run xs y = Some (Inr y') \<Longrightarrow> src_reachable n y \<Longrightarrow> src_reachable n y'"
  by (induction xs arbitrary: y) (auto split: option.splits sum.splits intro: src_next)

definition wait_trace :: "src_action list" where
  "wait_trace =
     [NewSource VIDEO_MAIN H264, GetNextFrame 0 [0, 0, 0, 0], Push 0 [nal3], Signal, HandleTrigger, RunTask,
      GetNextFrame 0 [0, 0, 0, 0]]"

lemmas src_eval = new_sys_def new_frame_queue_def new_source_def register_source_def
  unregister_source_def doGetNextFrame_def deliver_frame_def delivered_def copy_out_def pop_nal_unit_def
  push_access_unit_def make_room.simps notify_active_sources_def notify_by_id_def notify_frame_available_def
  nal3_def Let_def

lemma wait_run:
  "\<exists>y. src_run wait_trace (new_sys 4) = Some (Inr y) \<and> \<not> y_unsignalled y \<and> \<not> y_trigger y
     \<and> y_tasks y = [] \<and> y_sent y = [nal3]
     \<and> (\<exists>source. y_sources y 0 = Some source \<and> ss_currently_awaiting source)"
  by (simp add: wait_trace_def src_eval)

theorem source_no_lost_wakeup_witness:
  "\<exists>y. src_run wait_trace (new_sys 4) = Some (Inr y) \<and> fq_nals (y_queue y) = []"
proof -
  obtain y source where y: "src_run wait_trace (new_sys 4) = Some (Inr y)" "\<not> y_unsignalled y"
    "\<not> y_trigger y" "y_tasks y = []" "y_sources y 0 = Some source" "ss_currently_awaiting source"
    using wait_run by blast
  from source_no_lost_wakeup [OF src_run_reachable [OF y(1) src_init] y(2-)] y(1) show ?thesis by blast
qed

theorem source_order_witness:
  "\<exists>y. src_run wait_trace (new_sys 4) = Some (Inr y) \<and> subseq ([nal3] @ fq_nals (y_queue y)) (y_pushed y)"
proof -
  obtain y where y: "src_run wait_trace (new_sys 4) = Some (Inr y)" "y_sent y = [nal3]"
    using wait_run by blast
  from source_order [OF src_run_reachable [OF y(1) src_init]] y show ?thesis by auto
qed

definition stale_trace :: "src_action list" where
  "stale_trace =
     [NewSource VIDEO_MAIN H264, GetNextFrame 0 [0, 0, 0, 0], Push 0 [nal3], Signal, HandleTrigger,
      CloseSource 0, RunTask]"

text \<open>
  A scheduled \<open>deliver_frame\<close> is not cancelled when its source is closed: if the event loop
  closes the source between the trigger handler and the delayed task, the task runs with a
  dangling pointer.
\<close>

theorem closed_source_task_runs:
  "src_run stale_trace (new_sys 4) = Some (Inl UseAfterFree)"
  by (simp add: stale_trace_def src_eval)

definition nal_p :: RtspNalUnit where
  "nal_p = \<lparr>nu_data = [0x02, 0x01], nu_timestamp = 40, nu_is_idr = False\<rparr>"

definition reconnect_trace :: "src_action list" where
  "reconnect_trace =
     [NewSource VIDEO_MAIN H265, Push 0 [nal_p], CloseSource 0,
      NewSource VIDEO_MAIN H265, GetNextFrame 1 [0, 0, 0, 0]]"

text \<open>
  Closing a source leaves the queue as it is, and a new source does not wait for a key frame:
  the first thing a new client is sent can be an old non-IDR NAL unit queued for its predecessor.
\<close>

theorem new_client_gets_stale_frame:
  "\<exists>y. src_run reconnect_trace (new_sys 5) = Some (Inr y) \<and> y_sent y = [nal_p] \<and> \<not> nu_is_idr nal_p"
  by (simp add: reconnect_trace_def src_eval nal_p_def)

end
