(* ===== verification/Media_Subsession.thy ===== *)
theory Media_Subsession
  imports Stream_Source
begin

text \<open>
  \<open>modules/rtsp/src/rtsp_server_media_subsession.cpp\<close> and \<open>rtsp_parameter_set_cache.cpp\<close>: the
  admission of clients, the creation of sources and sinks, and the SDP line with the parameter
  sets.  live555's \<open>base64Encode\<close> and \<open>RTPSink::rtpmapLine\<close> are parameters; the parameter-set cache
  is written by another thread, so every locked reading of it is a value of its own.
\<close>

section \<open>Parameter sets\<close>

record ParameterSetCache =
  ps_vps :: "u8 list"
  ps_sps :: "u8 list"
  ps_pps :: "u8 list"

definition empty_cache :: ParameterSetCache where
  "empty_cache = \<lparr>ps_vps = [], ps_sps = [], ps_pps = []\<rparr>"

definition has_sps_pps :: "ParameterSetCache \<Rightarrow> bool" where
  "has_sps_pps c \<longleftrightarrow> ps_sps c \<noteq> [] \<and> ps_pps c \<noteq> []"

definition has_vps_sps_pps :: "ParameterSetCache \<Rightarrow> bool" where
  "has_vps_sps_pps c \<longleftrightarrow> ps_vps c \<noteq> [] \<and> ps_sps c \<noteq> [] \<and> ps_pps c \<noteq> []"

section \<open>Subsession\<close>

record RtspServerMediaSubsession =
  sub_reuse_first_source :: bool
  sub_stream_type :: StreamType
  sub_codec_type :: CodecType
  sub_aux_sdp_line :: string
  sub_max_clients :: nat
  sub_active_client_sessions :: "u32 set"

definition new_subsession :: "StreamType \<Rightarrow> CodecType \<Rightarrow> nat \<Rightarrow> bool \<Rightarrow> RtspServerMediaSubsession" where
  "new_subsession type codec max_clients reuseFirstSource =
     \<lparr>sub_reuse_first_source = (if max_clients = 1 then False else reuseFirstSource),
      sub_stream_type = type, sub_codec_type = codec, sub_aux_sdp_line = [],
      sub_max_clients = (if max_clients = 0 then 1 else max_clients),
      sub_active_client_sessions = {}\<rparr>"

datatype FramedSource = H265DiscreteFramer source_id | H264DiscreteFramer source_id

datatype RTPSink = H265VideoRTPSink u8 | H264VideoRTPSink u8

text \<open>
  \<open>alloc\<close> is the source object that \<open>RtspStreamSource::createNew\<close> returns (\<open>None\<close> for null); its
  constructor registers it with the queue.  The result is the source handed to live555, the new
  subsession and queue, and the bit-rate estimate.
\<close>

definition createNewStreamSource ::
  "source_id option \<Rightarrow> u32 \<Rightarrow> RtspServerMediaSubsession \<Rightarrow> RtspFrameQueue \<Rightarrow> u32
     \<Rightarrow> FramedSource option \<times> RtspServerMediaSubsession \<times> RtspFrameQueue \<times> u32" where
  "createNewStreamSource alloc clientSessionId sub queue estBitrate =
     (let rejected = (clientSessionId \<noteq> 0 \<and> clientSessionId \<notin> sub_active_client_sessions sub
            \<and> sub_max_clients sub \<le> card (sub_active_client_sessions sub));
          admitted = (if clientSessionId \<noteq> 0
            then sub\<lparr>sub_active_client_sessions := insert clientSessionId (sub_active_client_sessions sub)\<rparr>
            else sub)
      in if rejected then (None, sub, queue, estBitrate)
         else case alloc of
             None \<Rightarrow>
               (None,
                if clientSessionId \<noteq> 0
                then admitted\<lparr>sub_active_client_sessions := sub_active_client_sessions admitted - {clientSessionId}\<rparr>
                else admitted, queue, estBitrate)
           | Some source \<Rightarrow>
               let queue = register_source source queue;
                   estBitrate = (if sub_codec_type sub = H265 then 4000 else 2000)
               in if sub_codec_type sub = H265
                  then (Some (H265DiscreteFramer source), admitted, queue, estBitrate)
                  else (Some (H264DiscreteFramer source), admitted, queue, estBitrate))"

definition createNewRTPSink :: "u8 \<Rightarrow> RtspServerMediaSubsession \<Rightarrow> RTPSink" where
  "createNewRTPSink payload_type sub =
     (if sub_codec_type sub = H265 then H265VideoRTPSink payload_type else H264VideoRTPSink payload_type)"

text \<open>The part of \<open>deleteStream\<close> before the call of the base class.\<close>

definition deleteStream :: "u32 \<Rightarrow> RtspServerMediaSubsession \<Rightarrow> RtspServerMediaSubsession" where
  "deleteStream clientSessionId sub =
     (if clientSessionId \<noteq> 0
      then sub\<lparr>sub_active_client_sessions := sub_active_client_sessions sub - {clientSessionId}\<rparr>
      else sub)"

section \<open>The SDP line\<close>

definition kParameterSetWaitAttempts :: nat where
  "kParameterSetWaitAttempts = 50"

definition kParameterSetWaitIntervalUs :: nat where
  "kParameterSetWaitIntervalUs = 10 * 1000"

definition params_ready :: "CodecType \<Rightarrow> ParameterSetCache \<Rightarrow> bool" where
  "params_ready codec c = (if codec = H265 then has_vps_sps_pps c else has_sps_pps c)"

text \<open>
  The wait loop with \<open>n\<close> attempts left: \<open>cache k\<close> is what the \<open>k\<close>-th locked reading sees.  The
  result is the index of the next reading and the microseconds slept.
\<close>

fun wait_params :: "(nat \<Rightarrow> ParameterSetCache) \<Rightarrow> CodecType \<Rightarrow> nat \<Rightarrow> nat \<Rightarrow> nat \<Rightarrow> nat \<times> nat" where
  "wait_params cache codec 0 k slept = (k, slept)"
| "wait_params cache codec (Suc n) k slept =
     (if params_ready codec (cache k) then (Suc k, slept)
      else wait_params cache codec n (Suc k) (slept + kParameterSetWaitIntervalUs))"

definition base64_encode :: "(u8 list \<Rightarrow> string) \<Rightarrow> u8 list \<Rightarrow> string" where
  "base64_encode base64Encode data = (if data = [] then '''' else base64Encode data)"

fun digits :: "nat \<Rightarrow> string" where
  "digits n = (if n < 10 then [char_of (48 + n)] else digits (n div 10) @ [char_of (48 + n mod 10)])"

declare digits.simps [simp del]

definition to_string :: "u8 \<Rightarrow> string" where
  "to_string w = digits (unat w)"

definition crlf :: string where
  "crlf = [CHR 0x0D, CHR 0x0A]"

definition fmtp_line :: "(u8 list \<Rightarrow> string) \<Rightarrow> CodecType \<Rightarrow> u8 \<Rightarrow> ParameterSetCache \<Rightarrow> string" where
  "fmtp_line base64Encode codec payload c =
     (if codec = H265 then
        ''a=fmtp:'' @ to_string payload
        @ '' sprop-vps='' @ base64_encode base64Encode (ps_vps c)
        @ '';sprop-sps='' @ base64_encode base64Encode (ps_sps c)
        @ '';sprop-pps='' @ base64_encode base64Encode (ps_pps c) @ crlf
      else
        ''a=fmtp:'' @ to_string payload
        @ '' sprop-parameter-sets='' @ base64_encode base64Encode (ps_sps c)
        @ '','' @ base64_encode base64Encode (ps_pps c) @ crlf)"

text \<open>
  \<open>has_cache\<close> is the test of \<open>param_cache_\<close>, \<open>rtpmap\<close> the result of \<open>rtpmapLine\<close> (\<open>None\<close> for
  null).  The result is the returned string (\<open>None\<close> for null), the microseconds slept and the new
  subsession.
\<close>

definition getAuxSDPLine ::
  "(u8 list \<Rightarrow> string) \<Rightarrow> string option \<Rightarrow> u8 \<Rightarrow> bool \<Rightarrow> (nat \<Rightarrow> ParameterSetCache)
     \<Rightarrow> RtspServerMediaSubsession \<Rightarrow> string option \<times> nat \<times> RtspServerMediaSubsession" where
  "getAuxSDPLine base64Encode rtpmap payload has_cache cache sub =
     (if \<not> has_cache then (None, 0, sub)
      else let (k, slept) = wait_params cache (sub_codec_type sub) kParameterSetWaitAttempts 0 0;
               c = cache k
       in if \<not> params_ready (sub_codec_type sub) c then (None, slept, sub)
          else let sub = (if sub_aux_sdp_line sub = [] then
                 (case rtpmap of
                    None \<Rightarrow> sub
                  | Some line \<Rightarrow> sub\<lparr>sub_aux_sdp_line :=
                      line @ fmtp_line base64Encode (sub_codec_type sub) payload c\<rparr>)
                 else sub)
            in (Some (sub_aux_sdp_line sub), slept, sub))"

section \<open>Admission\<close>

datatype sub_op = Create "source_id option" u32 | Delete u32

fun sub_step :: "sub_op \<Rightarrow> RtspServerMediaSubsession \<Rightarrow> RtspServerMediaSubsession" where
  "sub_step (Create alloc cid) sub = fst (snd (createNewStreamSource alloc cid sub (new_frame_queue 1) 0))"
| "sub_step (Delete cid) sub = deleteStream cid sub"

definition sub_inv :: "RtspServerMediaSubsession \<Rightarrow> bool" where
  "sub_inv sub \<longleftrightarrow> finite (sub_active_client_sessions sub) \<and> 0 \<notin> sub_active_client_sessions sub
   \<and> card (sub_active_client_sessions sub) \<le> sub_max_clients sub \<and> 0 < sub_max_clients sub"

lemma createNewStreamSource_active:
  "sub_active_client_sessions (fst (snd (createNewStreamSource alloc cid sub q est))) =
     (if cid = 0 \<or> (cid \<notin> sub_active_client_sessions sub
          \<and> sub_max_clients sub \<le> card (sub_active_client_sessions sub)) then sub_active_client_sessions sub
      else case alloc of None \<Rightarrow> sub_active_client_sessions sub - {cid}
        | Some _ \<Rightarrow> insert cid (sub_active_client_sessions sub))"
  "sub_max_clients (fst (snd (createNewStreamSource alloc cid sub q est))) = sub_max_clients sub"
  by (auto simp: createNewStreamSource_def Let_def split: option.splits)

lemma sub_step_inv [inv_intros]:
  assumes "sub_inv sub"
  shows "sub_inv (sub_step x sub)"
proof (cases x)
  case (Create alloc cid)
  with assms show ?thesis
    by (auto simp: sub_inv_def createNewStreamSource_active card_insert_if card_Diff_singleton_if
        split: option.splits)
next
  case (Delete cid)
  with assms card_Diff1_le [of "sub_active_client_sessions sub" cid] show ?thesis
    by (auto simp: sub_inv_def deleteStream_def)
qed

lemma sub_run_inv: "sub_inv sub \<Longrightarrow> sub_inv (fold sub_step xs sub) \<and>
    sub_max_clients (fold sub_step xs sub) = sub_max_clients sub"
proof (induction xs arbitrary: sub)
  case Nil
  then show ?case by simp
next
  case (Cons x xs)
  have "sub_max_clients (sub_step x sub) = sub_max_clients sub"
    by (cases x) (simp_all add: createNewStreamSource_active deleteStream_def)
  with Cons sub_step_inv [of sub x] show ?case by simp
qed

lemma new_subsession_inv: "sub_inv (new_subsession type codec n reuse)"
  by (simp add: sub_inv_def new_subsession_def)

section \<open>Properties\<close>

text \<open>
  C37: whatever sequence of creations (failing allocations included) and deletions live555
  performs, never more client sessions than \<open>max_clients\<close> (0 counts as 1) are admitted at once.
\<close>

theorem subsession_client_limit:
  "card (sub_active_client_sessions (fold sub_step xs (new_subsession type codec max_clients reuse)))
     \<le> max max_clients 1"
  using sub_run_inv [OF new_subsession_inv, of xs type codec max_clients reuse]
  by (auto simp: sub_inv_def new_subsession_def split: if_splits)

text \<open>
  A creation is refused exactly for a new, real client session when the limit is reached (or
  when no source can be allocated), a refused creation changes nothing, and an accepted one
  registers the new source with the queue and wraps it in the framer of the codec; after the
  deletion of an admitted session, the next client is accepted.
\<close>

theorem createNewStreamSource_admission:
  assumes "sub_inv sub"
  shows "(case createNewStreamSource (Some s) cid sub q est of
      (None, sub', q', est') \<Rightarrow>
        cid \<noteq> 0 \<and> cid \<notin> sub_active_client_sessions sub
        \<and> card (sub_active_client_sessions sub) = sub_max_clients sub \<and> (sub', q', est') = (sub, q, est)
    | (Some framer, sub', q', est') \<Rightarrow>
        framer = (if sub_codec_type sub = H265 then H265DiscreteFramer s else H264DiscreteFramer s)
        \<and> fq_active_sources q' = fq_active_sources q @ [s] \<and> fq_queue q' = fq_queue q
        \<and> (cid \<noteq> 0 \<longrightarrow> cid \<in> sub_active_client_sessions sub'))
    \<and> (gone \<in> sub_active_client_sessions sub \<longrightarrow>
        fst (createNewStreamSource (Some s) cid (deleteStream gone sub) q est) \<noteq> None)"
proof -
  have "card (sub_active_client_sessions sub - {gone}) < sub_max_clients sub"
    if "gone \<in> sub_active_client_sessions sub"
    using assms that card_Diff1_less [of "sub_active_client_sessions sub" gone]
    by (auto simp: sub_inv_def)
  moreover have "gone \<noteq> 0" if "gone \<in> sub_active_client_sessions sub"
    using assms that by (auto simp: sub_inv_def)
  ultimately show ?thesis
    using assms
    by (auto simp: createNewStreamSource_def Let_def sub_inv_def register_source_def deleteStream_def
        split: prod.splits option.splits)
qed

theorem createNewStreamSource_admission_witness:
  "fst (createNewStreamSource (Some 9) 2
      (deleteStream 1 ((new_subsession VIDEO_MAIN H265 1 True)\<lparr>sub_active_client_sessions := {1}\<rparr>))
      (new_frame_queue 5) 0) \<noteq> None"
  using createNewStreamSource_admission
    [where sub = "(new_subsession VIDEO_MAIN H265 1 True)\<lparr>sub_active_client_sessions := {1}\<rparr>"
      and s = 9 and cid = 2 and q = "new_frame_queue 5" and est = 0 and gone = 1]
  by (simp add: sub_inv_def new_subsession_def)

text \<open>
  With \<open>max_clients\<close> 0 the limit is 1, but the base class keeps \<open>reuseFirstSource\<close>, with which it
  serves further clients from the first stream and does not call \<open>createNewStreamSource\<close>.
\<close>

lemma zero_max_clients_keeps_reuse:
  "sub_max_clients (new_subsession type codec 0 True) = 1
   \<and> sub_reuse_first_source (new_subsession type codec 0 True)
   \<and> \<not> sub_reuse_first_source (new_subsession type codec 1 True)"
  by (simp add: new_subsession_def)

lemma wait_params_bound:
  "wait_params cache codec n k slept = (k', slept') \<Longrightarrow>
     k \<le> k' \<and> k' \<le> k + n \<and> slept' \<le> slept + n * kParameterSetWaitIntervalUs
   \<and> ((\<exists>i. k \<le> i \<and> i < k' \<and> params_ready codec (cache i)) \<or>
      k' = k + n \<and> slept' = slept + n * kParameterSetWaitIntervalUs)"
proof (induction n arbitrary: k slept)
  case 0
  then show ?case by simp
next
  case (Suc n)
  show ?case
  proof (cases "params_ready codec (cache k)")
    case True
    with Suc.prems show ?thesis by auto
  next
    case False
    with Suc show ?thesis by (fastforce dest!: Suc_leD)
  qed
qed

text \<open>
  C38: \<open>getAuxSDPLine\<close> sleeps at most half a second; if the parameter sets, once complete, stay
  complete (as the server keeps them), it returns null exactly when they are still incomplete at
  the reading after the last attempt, or there is no cache at all.
\<close>

theorem getAuxSDPLine_wait:
  assumes "\<And>i j. i \<le> j \<Longrightarrow> params_ready (sub_codec_type sub) (cache i) \<Longrightarrow>
      params_ready (sub_codec_type sub) (cache j)"
  shows "fst (snd (getAuxSDPLine b64 rtpmap payload has_cache cache sub)) \<le> 500000
    \<and> (fst (getAuxSDPLine b64 rtpmap payload has_cache cache sub) = None \<longleftrightarrow>
        \<not> has_cache \<or> \<not> params_ready (sub_codec_type sub) (cache 50))"
proof -
  obtain k slept where w: "wait_params cache (sub_codec_type sub) kParameterSetWaitAttempts 0 0 = (k, slept)"
    by fastforce
  from wait_params_bound [OF w] have bound: "slept \<le> 500000" "k \<le> 50"
    and early: "(\<exists>i < k. params_ready (sub_codec_type sub) (cache i)) \<or> k = 50"
    by (auto simp: kParameterSetWaitAttempts_def kParameterSetWaitIntervalUs_def)
  have "params_ready (sub_codec_type sub) (cache k) = params_ready (sub_codec_type sub) (cache 50)"
    using early bound(2) assms by (metis less_imp_le)
  with bound(1) show ?thesis
    by (simp add: getAuxSDPLine_def w Let_def)
qed

theorem getAuxSDPLine_wait_witness:
  "fst (getAuxSDPLine (\<lambda>_. ''x'') (Some ''m'') 96 True (\<lambda>_. empty_cache) (new_subsession VIDEO_SUB H264 1 True)) = None"
  using getAuxSDPLine_wait [of "new_subsession VIDEO_SUB H264 1 True" "\<lambda>_. empty_cache" "\<lambda>_. ''x''" "Some ''m''" 96 True]
  by (simp add: params_ready_def new_subsession_def empty_cache_def has_sps_pps_def)

text \<open>
  The SDP line is built once: the first successful call returns the rtpmap line followed by
  the \<open>fmtp\<close> line of the cached sets in the codec's format, and every later successful call returns
  the same string, even when the parameter sets have changed since.
\<close>

theorem getAuxSDPLine_value:
  assumes "getAuxSDPLine b64 (Some line) payload has_cache cache sub = (Some sdp, slept, sub')"
    and "line \<noteq> []"
  shows "sub_aux_sdp_line sub' = sdp \<and> sdp \<noteq> []
    \<and> (if sub_aux_sdp_line sub \<noteq> [] then sdp = sub_aux_sdp_line sub
       else \<exists>k \<le> 50. params_ready (sub_codec_type sub) (cache k)
            \<and> sdp = line @ fmtp_line b64 (sub_codec_type sub) payload (cache k))
    \<and> (fst (getAuxSDPLine b64' rtpmap' payload' has_cache' cache' sub') \<in> {None, Some sdp})"
proof -
  obtain k slept where w: "wait_params cache (sub_codec_type sub) kParameterSetWaitAttempts 0 0 = (k, slept)"
    by fastforce
  have "k \<le> 50" using wait_params_bound [OF w] by (simp add: kParameterSetWaitAttempts_def)
  moreover have "params_ready (sub_codec_type sub) (cache k)" "sub_aux_sdp_line sub' = sdp" "sdp \<noteq> []"
    "sdp = (if sub_aux_sdp_line sub \<noteq> [] then sub_aux_sdp_line sub
            else line @ fmtp_line b64 (sub_codec_type sub) payload (cache k))"
    using assms by (auto simp: getAuxSDPLine_def w Let_def split: if_splits)
  moreover have "fst (getAuxSDPLine b64' rtpmap' payload' has_cache' cache' sub') \<in> {None, Some sdp}"
    using calculation(3,4) by (auto simp: getAuxSDPLine_def Let_def split: prod.splits)
  ultimately show ?thesis by auto
qed

definition sdp_cache :: "nat \<Rightarrow> ParameterSetCache" where
  "sdp_cache k = \<lparr>ps_vps = [], ps_sps = [1], ps_pps = [2]\<rparr>"

theorem getAuxSDPLine_value_witness:
  "\<exists>sub'. getAuxSDPLine (\<lambda>_. ''Z'') (Some ''m'') 96 True sdp_cache (new_subsession VIDEO_SUB H264 1 True)
       = (Some (''ma=fmtp:96 sprop-parameter-sets=Z,Z'' @ crlf), 0, sub')
     \<and> fst (getAuxSDPLine (\<lambda>_. ''Y'') (Some ''m'') 96 True sdp_cache sub')
       \<in> {None, Some (''ma=fmtp:96 sprop-parameter-sets=Z,Z'' @ crlf)}"
proof -
  have "wait_params sdp_cache H264 50 0 0 = (1, 0)"
    by (simp add: numeral_eq_Suc params_ready_def has_sps_pps_def sdp_cache_def)
  moreover have "digits 96 = ''96''" by code_simp
  ultimately obtain sub' where sub': "getAuxSDPLine (\<lambda>_. ''Z'') (Some ''m'') 96 True sdp_cache
      (new_subsession VIDEO_SUB H264 1 True)
      = (Some (''ma=fmtp:96 sprop-parameter-sets=Z,Z'' @ crlf), 0, sub')"
    by (simp add: getAuxSDPLine_def kParameterSetWaitAttempts_def new_subsession_def params_ready_def
        has_sps_pps_def sdp_cache_def fmtp_line_def base64_encode_def to_string_def)
  have "fst (getAuxSDPLine (\<lambda>_. ''Y'') (Some ''m'') 96 True sdp_cache sub')
      \<in> {None, Some (''ma=fmtp:96 sprop-parameter-sets=Z,Z'' @ crlf)}"
    using getAuxSDPLine_value [OF sub', where b64' = "\<lambda>_. ''Y''" and rtpmap' = "Some ''m''" and payload' = 96
        and has_cache' = True and cache' = sdp_cache] by simp
  with sub' show ?thesis by blast
qed

end
