(* ===== verification/Nal_Parser.thy ===== *)
theory Nal_Parser
  imports Eye_Types
begin

text \<open>
  The Annex-B splitter of \<open>modules/rtsp/src/rtsp_nal_parser.cpp\<close>.  A pointer/length pair
  \<open>(data, len)\<close> is the list of the \<open>len\<close> bytes it denotes.  The definitions follow the code:
  a scan that collects the offsets behind the start codes and the lengths of the codes, and a
  second loop that cuts the payloads out by index.  The reference definition \<open>annexb_segments\<close>
  is structural; the two are proved equal, and the properties of the payloads are read off the
  reference.
\<close>

section \<open>NAL unit types\<close>

datatype H264NalType = NON_IDR | IDR | SPS | PPS | OTHER

datatype H265NalType = VPS | SPS | PPS | IDR_W_RADL | IDR_N_LP | OTHER

record ParsedNal =
  pn_data :: "u8 list"
  pn_timestamp :: u64
  pn_is_idr :: bool
  pn_is_vps :: bool
  pn_is_sps :: bool
  pn_is_pps :: bool

definition parse_h264_nal_type :: "u8 list \<Rightarrow> u32 \<Rightarrow> H264NalType" where
  "parse_h264_nal_type data len =
     (if len < 1 then H264NalType.OTHER
      else let nal_type = data ! 0 AND 0x1F
       in if nal_type = 1 then NON_IDR
          else if nal_type = 5 then IDR
          else if nal_type = 7 then H264NalType.SPS
          else if nal_type = 8 then H264NalType.PPS
          else H264NalType.OTHER)"

definition parse_h265_nal_type :: "u8 list \<Rightarrow> u32 \<Rightarrow> H265NalType" where
  "parse_h265_nal_type data len =
     (if len < 2 then H265NalType.OTHER
      else let nal_type = drop_bit 1 (data ! 0) AND 0x3F
       in if nal_type = 32 then VPS
          else if nal_type = 33 then H265NalType.SPS
          else if nal_type = 34 then H265NalType.PPS
          else if nal_type = 19 then IDR_W_RADL
          else if nal_type = 20 then IDR_N_LP
          else H265NalType.OTHER)"

text \<open>\<open>classify_nal\<close> writes the four flags of its out-parameter; \<open>frame_is_idr\<close> is unused there.\<close>

definition classify_nal :: "u8 list \<Rightarrow> u32 \<Rightarrow> CodecType \<Rightarrow> bool \<Rightarrow> ParsedNal \<Rightarrow> ParsedNal" where
  "classify_nal nal_data nal_len codec frame_is_idr out =
     (let out = out\<lparr>pn_is_idr := False, pn_is_vps := False, pn_is_sps := False, pn_is_pps := False\<rparr>
      in if codec = H264 then
           (case parse_h264_nal_type nal_data nal_len of
              IDR \<Rightarrow> out\<lparr>pn_is_idr := True\<rparr>
            | H264NalType.SPS \<Rightarrow> out\<lparr>pn_is_sps := True\<rparr>
            | H264NalType.PPS \<Rightarrow> out\<lparr>pn_is_pps := True\<rparr>
            | _ \<Rightarrow> out)
         else if codec = H265 then
           (case parse_h265_nal_type nal_data nal_len of
              IDR_W_RADL \<Rightarrow> out\<lparr>pn_is_idr := True\<rparr>
            | IDR_N_LP \<Rightarrow> out\<lparr>pn_is_idr := True\<rparr>
            | VPS \<Rightarrow> out\<lparr>pn_is_vps := True\<rparr>
            | H265NalType.SPS \<Rightarrow> out\<lparr>pn_is_sps := True\<rparr>
            | H265NalType.PPS \<Rightarrow> out\<lparr>pn_is_pps := True\<rparr>
            | H265NalType.OTHER \<Rightarrow> out)
         else out)"

section \<open>Start codes\<close>

text \<open>The argument is the byte range \<open>[p, end)\<close>.\<close>

definition start_code_len :: "u8 list \<Rightarrow> nat" where
  "start_code_len p =
     (if 3 \<le> length p \<and> p ! 0 = 0 \<and> p ! 1 = 0 \<and> p ! 2 = 1 then 3
      else if 4 \<le> length p \<and> p ! 0 = 0 \<and> p ! 1 = 0 \<and> p ! 2 = 0 \<and> p ! 3 = 1 then 4
      else 0)"

text \<open>The \<open>while (i < len)\<close> loop with its two vectors.\<close>

function scan_start_codes ::
  "u8 list \<Rightarrow> nat \<Rightarrow> nat list \<Rightarrow> nat list \<Rightarrow> nat list \<times> nat list" where
  "scan_start_codes data i nal_offsets nal_sc_lens =
     (if i < length data then
        let sc_len = start_code_len (drop i data)
        in if 0 < sc_len
           then scan_start_codes data (i + sc_len) (nal_offsets @ [i + sc_len]) (nal_sc_lens @ [sc_len])
           else scan_start_codes data (Suc i) nal_offsets nal_sc_lens
      else (nal_offsets, nal_sc_lens))"
  by pat_completeness auto
termination
  by (relation "measure (\<lambda>(data, i, _, _). length data - i)") auto

declare scan_start_codes.simps [simp del]

section \<open>Splitting\<close>

text \<open>A fresh \<open>ParsedNal\<close> for a payload: data, timestamp, then the classification.\<close>

definition make_nal :: "CodecType \<Rightarrow> u64 \<Rightarrow> bool \<Rightarrow> u8 list \<Rightarrow> ParsedNal" where
  "make_nal codec timestamp is_idr bytes =
     classify_nal bytes (word_of_nat (length bytes)) codec is_idr
       \<lparr>pn_data = bytes, pn_timestamp = timestamp, pn_is_idr = False, pn_is_vps = False,
        pn_is_sps = False, pn_is_pps = False\<rparr>"

text \<open>The end of the \<open>n\<close>-th payload: the next start code, or the end of the buffer.\<close>

definition nal_end :: "nat list \<Rightarrow> nat list \<Rightarrow> nat \<Rightarrow> nat \<Rightarrow> nat" where
  "nal_end nal_offsets nal_sc_lens len n =
     (if n + 1 < length nal_offsets then nal_offsets ! (n + 1) - nal_sc_lens ! (n + 1) else len)"

definition split_annex_b_nals ::
  "u8 list \<Rightarrow> CodecType \<Rightarrow> u64 \<Rightarrow> bool \<Rightarrow> ParsedNal list \<Rightarrow> ParsedNal list" where
  "split_annex_b_nals data codec timestamp is_idr out =
     (if length data = 0 then out
      else let (nal_offsets, nal_sc_lens) = scan_start_codes data 0 [] []
       in if nal_offsets = [] then out @ [make_nal codec timestamp is_idr data]
          else fold (\<lambda>n out.
                 let start = nal_offsets ! n; stop = nal_end nal_offsets nal_sc_lens (length data) n
                 in if stop \<le> start then out
                    else out @ [make_nal codec timestamp is_idr (take (stop - start) (drop start data))])
               [0..<length nal_offsets] out)"

section \<open>Reference definition\<close>

text \<open>
  The bytes before the first start code, and for every start code its length and the bytes up
  to the next one.
\<close>

function annexb_segments :: "u8 list \<Rightarrow> u8 list \<times> (nat \<times> u8 list) list" where
  "annexb_segments [] = ([], [])"
| "annexb_segments (b # bs) =
     (let sc = start_code_len (b # bs)
      in if 0 < sc
         then let (lead, segs) = annexb_segments (drop sc (b # bs)) in ([], (sc, lead) # segs)
         else let (lead, segs) = annexb_segments bs in (b # lead, segs))"
  by pat_completeness auto
termination
  by (relation "measure length") auto

declare annexb_segments.simps(2) [simp del]

definition start_code :: "nat \<Rightarrow> u8 list" where
  "start_code sc = (if sc = 3 then [0, 0, 1] else [0, 0, 0, 1])"

definition annexb_payloads :: "u8 list \<Rightarrow> u8 list list" where
  "annexb_payloads data =
     (case annexb_segments data of
        (lead, []) \<Rightarrow> if lead = [] then [] else [lead]
      | (_, segs) \<Rightarrow> filter (\<lambda>p. p \<noteq> []) (map snd segs))"

subsection \<open>Start codes, as list facts\<close>

lemma start_code_len_Nil [simp]: "start_code_len [] = 0"
  by (simp add: start_code_len_def)

lemma start_code_len_cases: "start_code_len p = 0 \<or> start_code_len p = 3 \<or> start_code_len p = 4"
  by (simp add: start_code_len_def)

lemma nth_prefix_simps:
  "(x # xs) ! 0 = x" "(x # y # xs) ! 1 = y" "(x # y # z # xs) ! 2 = z" "(x # y # z # w # xs) ! 3 = w"
  by (simp_all add: numeral_2_eq_2 numeral_3_eq_3)

lemma start_code_len_pos_prefix:
  assumes "0 < start_code_len p"
  shows "p = start_code (start_code_len p) @ drop (start_code_len p) p"
proof -
  have "length p \<ge> 3"
    using assms by (auto simp: start_code_len_def split: if_splits)
  then obtain a b c r where p: "p = a # b # c # r"
    by (metis Suc_le_length_iff numeral_3_eq_3)
  show ?thesis
    using assms
    by (cases r) (auto simp: p start_code_len_def start_code_def nth_prefix_simps
        numeral_3_eq_3 numeral_eq_Suc split: if_splits)
qed

lemma start_code_len_append:
  "0 < start_code_len p \<Longrightarrow> start_code_len (p @ q) = start_code_len p"
  by (auto simp: start_code_len_def nth_append split: if_splits)

lemma start_code_len_le: "start_code_len p \<le> length p"
  by (auto simp: start_code_len_def)

definition start_code_free :: "u8 list \<Rightarrow> bool" where
  "start_code_free p \<longleftrightarrow> (\<forall>k < length p. start_code_len (drop k p) = 0)"

lemma start_code_free_Nil [simp]: "start_code_free []"
  by (simp add: start_code_free_def)

lemma start_code_free_Cons:
  "start_code_free (b # bs) \<longleftrightarrow> start_code_len (b # bs) = 0 \<and> start_code_free bs"
  by (simp add: start_code_free_def All_less_Suc2)

subsection \<open>The segments\<close>

lemma annexb_segments_code:
  assumes "start_code_len data = sc" and "0 < sc"
  shows "annexb_segments data =
    (let (lead, segs) = annexb_segments (drop sc data) in ([], (sc, lead) # segs))"
  using assms by (cases data) (auto simp: annexb_segments.simps(2) Let_def)

lemma annexb_segments_byte:
  assumes "start_code_len (b # bs) = 0"
  shows "annexb_segments (b # bs) = (let (lead, segs) = annexb_segments bs in (b # lead, segs))"
  using assms by (simp add: annexb_segments.simps(2) Let_def)

text \<open>Nothing is lost or invented: the segments put the input together again.\<close>

lemma annexb_segments_join:
  "annexb_segments data = (lead, segs) \<Longrightarrow>
     data = lead @ concat (map (\<lambda>(sc, p). start_code sc @ p) segs)"
proof (induction data arbitrary: lead segs rule: annexb_segments.induct)
  case 1
  then show ?case by simp
next
  case (2 b bs)
  show ?case
  proof (cases "0 < start_code_len (b # bs)")
    case True
    obtain l ss where rec: "annexb_segments (drop (start_code_len (b # bs)) (b # bs)) = (l, ss)"
      by fastforce
    note IH = "2.IH"(1) [OF refl True rec]
    from "2.prems" True rec have "lead = []" and "segs = (start_code_len (b # bs), l) # ss"
      by (simp_all add: annexb_segments_code)
    with start_code_len_pos_prefix [OF True] IH show ?thesis
      by simp
  next
    case False
    obtain l ss where rec: "annexb_segments bs = (l, ss)" by fastforce
    note IH = "2.IH"(2) [OF refl False rec]
    from "2.prems" False rec have "lead = b # l" and "segs = ss"
      by (simp_all add: annexb_segments_byte)
    with IH show ?thesis by simp
  qed
qed

lemma annexb_segments_codes:
  "annexb_segments data = (lead, segs) \<Longrightarrow> (sc, p) \<in> set segs \<Longrightarrow> sc = 3 \<or> sc = 4"
proof (induction data arbitrary: lead segs rule: annexb_segments.induct)
  case 1
  then show ?case by simp
next
  case (2 b bs)
  then show ?case
    using start_code_len_cases [of "b # bs"]
    by (auto simp: annexb_segments.simps(2) Let_def split: if_splits prod.splits)
qed

lemma annexb_segments_free:
  "annexb_segments data = (lead, segs) \<Longrightarrow>
     start_code_free lead \<and> (\<forall>(sc, p) \<in> set segs. start_code_free p)"
proof (induction data arbitrary: lead segs rule: annexb_segments.induct)
  case 1
  then show ?case by simp
next
  case (2 b bs)
  show ?case
  proof (cases "0 < start_code_len (b # bs)")
    case True
    then show ?thesis
      using "2.prems" "2.IH"(1) [OF refl True] by (auto simp: annexb_segments_code split: prod.splits)
  next
    case False
    obtain l ss where rec: "annexb_segments bs = (l, ss)" by fastforce
    from "2.prems" False rec have seg: "lead = b # l" "segs = ss"
      by (simp_all add: annexb_segments_byte)
    have "start_code_len (b # l) = 0"
    proof (rule ccontr)
      assume "start_code_len (b # l) \<noteq> 0"
      then have "0 < start_code_len ((b # l) @ concat (map (\<lambda>(sc, p). start_code sc @ p) ss))"
        by (simp only: start_code_len_append)
      with annexb_segments_join [OF rec] False show False by simp
    qed
    with seg "2.IH"(2) [OF refl False rec] show ?thesis
      by (simp add: start_code_free_Cons)
  qed
qed

subsection \<open>The scan and the cutting loop agree with the segments\<close>

fun segment_offsets :: "nat \<Rightarrow> (nat \<times> u8 list) list \<Rightarrow> nat list" where
  "segment_offsets i [] = []"
| "segment_offsets i ((sc, p) # segs) = (i + sc) # segment_offsets (i + sc + length p) segs"

lemma length_segment_offsets [simp]: "length (segment_offsets i segs) = length segs"
  by (induction i segs rule: segment_offsets.induct) auto

lemma scan_start_codes_segments:
  "annexb_segments (drop i data) = (lead, segs) \<Longrightarrow>
     scan_start_codes data i offs lens = (offs @ segment_offsets (i + length lead) segs, lens @ map fst segs)"
proof (induction data i offs lens arbitrary: lead segs rule: scan_start_codes.induct)
  case (1 data i offs lens)
  show ?case
  proof (cases "i < length data")
    case False
    with "1.prems" show ?thesis by (simp add: scan_start_codes.simps)
  next
    case True
    define sc where "sc = start_code_len (drop i data)"
    show ?thesis
    proof (cases "0 < sc")
      case pos: True
      obtain l ss where rec: "annexb_segments (drop (i + sc) data) = (l, ss)" by fastforce
      have "lead = []" "segs = (sc, l) # ss"
        using "1.prems" annexb_segments_code [OF sc_def [symmetric] pos] rec
        by (auto simp: drop_drop add.commute)
      with "1.IH"(1) [OF True sc_def pos rec] True pos show ?thesis
        by (subst scan_start_codes.simps) (simp add: sc_def Let_def)
    next
      case zero: False
      obtain l ss where rec: "annexb_segments (drop (Suc i) data) = (l, ss)" by fastforce
      have "lead = data ! i # l" "segs = ss"
        using "1.prems" zero rec True
        by (auto simp: drop_nth_Cons [OF True] annexb_segments_byte sc_def)
      with "1.IH"(2) [OF True sc_def zero rec] True zero show ?thesis
        by (subst scan_start_codes.simps) (simp add: sc_def Let_def)
    qed
  qed
qed

abbreviation segment_bytes :: "(nat \<times> u8 list) list \<Rightarrow> u8 list" where
  "segment_bytes segs \<equiv> concat (map (\<lambda>(sc, p). start_code sc @ p) segs)"

definition code_lens :: "(nat \<times> u8 list) list \<Rightarrow> bool" where
  "code_lens segs \<longleftrightarrow> (\<forall>(sc, p) \<in> set segs. sc = 3 \<or> sc = 4)"

lemma code_lens_simps [simp]:
  "code_lens []" "code_lens ((sc, p) # segs) \<longleftrightarrow> (sc = 3 \<or> sc = 4) \<and> code_lens segs"
  by (auto simp: code_lens_def)

lemma length_start_code: "sc = 3 \<or> sc = 4 \<Longrightarrow> length (start_code sc) = sc"
  by (auto simp: start_code_def)

lemma nth_segment_offsets:
  "code_lens segs \<Longrightarrow> n < length segs \<Longrightarrow>
     segment_offsets i segs ! n = i + length (segment_bytes (take n segs)) + fst (segs ! n)"
proof (induction i segs arbitrary: n rule: segment_offsets.induct)
  case 1
  then show ?case by simp
next
  case (2 i sc p segs)
  then show ?case
    by (cases n) (simp_all add: length_start_code)
qed

lemma segment_bytes_split:
  assumes "n < length segs"
  shows "segment_bytes segs = segment_bytes (take n segs) @ start_code (fst (segs ! n))
     @ snd (segs ! n) @ segment_bytes (drop (Suc n) segs)"
proof -
  have "segs = take n segs @ segs ! n # drop (Suc n) segs"
    using assms by (rule id_take_nth_drop)
  then have "segment_bytes segs = segment_bytes (take n segs @ segs ! n # drop (Suc n) segs)"
    by simp
  then show ?thesis by (simp add: split_beta)
qed

lemma code_lens_nth: "code_lens segs \<Longrightarrow> n < length segs \<Longrightarrow> fst (segs ! n) = 3 \<or> fst (segs ! n) = 4"
  by (auto simp: code_lens_def split_beta)

text \<open>The \<open>n\<close>-th cut of the second loop is the \<open>n\<close>-th payload.\<close>

lemma nal_end_segments:
  assumes "code_lens segs" and "n < length segs" and "length data = i + length (segment_bytes segs)"
  shows "nal_end (segment_offsets i segs) (map fst segs) (length data) n
    = segment_offsets i segs ! n + length (snd (segs ! n))"
proof (cases "n + 1 < length segs")
  case True
  have "segment_bytes (take (n + 1) segs)
      = segment_bytes (take n segs) @ start_code (fst (segs ! n)) @ snd (segs ! n)"
    using assms(2) by (simp add: take_Suc_conv_app_nth split_beta)
  with True assms show ?thesis
    by (simp add: nal_end_def nth_segment_offsets length_start_code [OF code_lens_nth])
next
  case False
  then have "drop (Suc n) segs = []" using assms(2) by simp
  with False assms segment_bytes_split [OF assms(2)] show ?thesis
    by (simp add: nal_end_def nth_segment_offsets length_start_code [OF code_lens_nth])
qed

lemma cut_segments:
  assumes "code_lens segs" and "n < length segs" and data: "data = lead @ segment_bytes segs"
  shows "drop (segment_offsets (length lead) segs ! n) data
    = snd (segs ! n) @ segment_bytes (drop (Suc n) segs)"
  using assms(1,2)
  by (simp add: data nth_segment_offsets length_start_code [OF code_lens_nth]
      segment_bytes_split [OF assms(2)])

lemma cutting_loop:
  assumes "code_lens segs" and data: "data = lead @ segment_bytes segs"
    and offs: "offs = segment_offsets (length lead) segs" and lens: "lens = map fst segs"
  shows "fold (\<lambda>n out.
       let start = offs ! n; stop = nal_end offs lens (length data) n
       in if stop \<le> start then out else out @ [mk (take (stop - start) (drop start data))])
     [0..<length offs] out = out @ map mk (filter (\<lambda>p. p \<noteq> []) (map snd segs))"
proof -
  have stop: "nal_end offs lens (length data) n = offs ! n + length (snd (segs ! n))"
    if "n < length segs" for n
    using nal_end_segments [OF assms(1) that, of data "length lead"] by (simp add: data offs lens)
  have bytes: "drop (offs ! n) data = snd (segs ! n) @ segment_bytes (drop (Suc n) segs)"
    if "n < length segs" for n
    using cut_segments [OF assms(1) that data] by (simp add: offs)
  have len: "length offs = length segs" by (simp add: offs)
  have "fold (\<lambda>n out.
       let start = offs ! n; stop = nal_end offs lens (length data) n
       in if stop \<le> start then out else out @ [mk (take (stop - start) (drop start data))])
       [0..<length segs] out
     = fold (\<lambda>n out. if snd (segs ! n) = [] then out else out @ [mk (snd (segs ! n))])
         [0..<length segs] out"
    by (rule fold_cong) (auto simp: stop bytes Let_def)
  also have "\<dots> = out @ map (\<lambda>n. mk (snd (segs ! n)))
      (filter (\<lambda>n. \<not> snd (segs ! n) = []) [0..<length segs])"
    by (rule fold_append_if)
  also have "map (\<lambda>n. mk (snd (segs ! n))) (filter (\<lambda>n. \<not> snd (segs ! n) = []) [0..<length segs])
      = map mk (filter (\<lambda>p. p \<noteq> []) (map (\<lambda>n. snd (segs ! n)) [0..<length segs]))"
    by (simp add: filter_map o_def)
  also have "map (\<lambda>n. snd (segs ! n)) [0..<length segs] = map snd segs"
    by (rule nth_equalityI) auto
  finally show ?thesis by (simp add: len)
qed

text \<open>The splitter computes the payloads of the reference definition, in order.\<close>

lemma split_annex_b_nals_payloads:
  "split_annex_b_nals data codec ts idr out
     = out @ map (make_nal codec ts idr) (annexb_payloads data)"
proof (cases "data = []")
  case True
  then show ?thesis by (simp add: split_annex_b_nals_def annexb_payloads_def)
next
  case False
  obtain lead segs where seg: "annexb_segments data = (lead, segs)" by fastforce
  have scan: "scan_start_codes data 0 [] [] = (segment_offsets (length lead) segs, map fst segs)"
    using scan_start_codes_segments [of 0 data lead segs] seg by simp
  have codes: "code_lens segs"
    using annexb_segments_codes [OF seg] by (auto simp: code_lens_def)
  note join = annexb_segments_join [OF seg]
  show ?thesis
  proof (cases "segs = []")
    case True
    with False join seg scan show ?thesis
      by (simp add: split_annex_b_nals_def annexb_payloads_def)
  next
    case ne: False
    then have offs: "segment_offsets (length lead) segs \<noteq> []"
      by (metis length_0_conv length_segment_offsets)
    have "annexb_payloads data = filter (\<lambda>p. p \<noteq> []) (map snd segs)"
      using ne by (auto simp: annexb_payloads_def seg split: list.splits)
    with False offs scan show ?thesis
      by (simp only: split_annex_b_nals_def cutting_loop [OF codes join refl refl, unfolded Let_def]
          prod.case Let_def length_0_conv if_False)
  qed
qed

section \<open>Payloads\<close>

lemma annexb_payloads_free:
  assumes "p \<in> set (annexb_payloads data)"
  shows "p \<noteq> [] \<and> start_code_free p"
proof -
  obtain lead segs where seg: "annexb_segments data = (lead, segs)" by fastforce
  with assms annexb_segments_free [OF seg] show ?thesis
    by (cases segs) (auto simp: annexb_payloads_def split: if_splits)
qed

lemma start_code_len_start_code:
  "sc = 3 \<or> sc = 4 \<Longrightarrow> start_code_len (start_code sc @ p) = sc"
  by (auto simp: start_code_len_def start_code_def numeral_3_eq_3 numeral_eq_Suc)

text \<open>A start code cannot begin inside bytes that hold none and do not end in zero.\<close>

lemma no_code_across:
  assumes "start_code_len xs = 0" and "xs \<noteq> []" and "last xs \<noteq> 0"
  shows "start_code_len (xs @ r) = 0"
proof -
  consider a where "xs = [a]" | a b where "xs = [a, b]" | a b c where "xs = [a, b, c]"
    | "4 \<le> length xs"
  proof -
    have "length xs \<noteq> 0" using assms(2) by simp
    then have "length xs = 1 \<or> length xs = 2 \<or> length xs = 3 \<or> 4 \<le> length xs" by arith
    with that show thesis
      by (auto simp: length_Suc_conv numeral_eq_Suc)
  qed
  then show ?thesis
  proof cases
    case 4
    with assms(1) show ?thesis by (auto simp: start_code_len_def nth_append split: if_splits)
  qed (use assms in \<open>auto simp: start_code_len_def numeral_3_eq_3 numeral_eq_Suc\<close>)
qed

lemma annexb_segments_payload:
  "start_code_free p \<Longrightarrow> p = [] \<or> last p \<noteq> 0 \<Longrightarrow>
     annexb_segments (p @ r) = (let (lead, segs) = annexb_segments r in (p @ lead, segs))"
proof (induction p)
  case Nil
  then show ?case by simp
next
  case (Cons b p)
  then have "start_code_len (b # p) = 0" "start_code_free p"
    by (simp_all add: start_code_free_Cons)
  moreover have "start_code_len (b # p @ r) = 0"
    using no_code_across [of "b # p" r] Cons.prems calculation by simp
  ultimately show ?case
    using Cons.IH Cons.prems(2) by (simp add: annexb_segments_byte split: prod.splits if_splits)
qed

lemma annexb_segments_encoded:
  assumes "code_lens segs" and "\<And>sc p. (sc, p) \<in> set segs \<Longrightarrow> start_code_free p \<and> p \<noteq> [] \<and> last p \<noteq> 0"
  shows "annexb_segments (segment_bytes segs) = ([], segs)"
  using assms
proof (induction segs)
  case Nil
  then show ?case by simp
next
  case (Cons s segs)
  obtain sc p where s: "s = (sc, p)" by fastforce
  with Cons.prems have sc: "sc = 3 \<or> sc = 4" and p: "start_code_free p" "p = [] \<or> last p \<noteq> 0"
    by auto
  have "annexb_segments (segment_bytes segs) = ([], segs)"
    using Cons.prems by (intro Cons.IH) (auto simp: s)
  with p have "annexb_segments (p @ segment_bytes segs) = (p, segs)"
    by (simp add: annexb_segments_payload)
  moreover have "0 < sc" using sc by auto
  ultimately show ?case
    using annexb_segments_code [OF start_code_len_start_code [OF sc], of "p @ segment_bytes segs"]
    by (simp add: s length_start_code [OF sc])
qed

section \<open>Properties\<close>

lemma pn_data_make_nal [simp]: "pn_data (make_nal codec ts idr p) = p"
  by (simp add: make_nal_def classify_nal_def Let_def split: H264NalType.splits H265NalType.splits)

lemma pn_timestamp_make_nal [simp]: "pn_timestamp (make_nal codec ts idr p) = ts"
  by (simp add: make_nal_def classify_nal_def Let_def split: H264NalType.splits H265NalType.splits)

lemma split_annex_b_nals_data:
  "map pn_data (split_annex_b_nals data codec ts idr []) = annexb_payloads data"
  by (simp add: split_annex_b_nals_payloads o_def)



text \<open>
  No NAL unit that \<open>split_annex_b_nals\<close> produces is empty or contains an Annex-B start code
  at any position, whatever the input bytes are: the RTP payloads never carry a start code.
\<close>

theorem split_annex_b_payloads_free:
  assumes "nal \<in> set (split_annex_b_nals data codec ts idr [])"
  shows "pn_data nal \<noteq> [] \<and> start_code_free (pn_data nal)"
proof -
  from assms have "pn_data nal \<in> set (annexb_payloads data)"
    by (auto simp: split_annex_b_nals_payloads)
  then show ?thesis by (rule annexb_payloads_free)
qed

theorem split_annex_b_payloads_free_witness:
  "pn_data (make_nal H264 7 False [0x65, 0x88]) \<noteq> []
   \<and> start_code_free (pn_data (make_nal H264 7 False [0x65, 0x88]))"
proof (rule split_annex_b_payloads_free)
  show "make_nal H264 7 False [0x65, 0x88]
      \<in> set (split_annex_b_nals [0, 0, 0, 1, 0x67, 0, 0, 1, 0x65, 0x88] H264 7 False [])"
    by (simp add: split_annex_b_nals_def scan_start_codes.simps start_code_len_def nal_end_def
        Let_def upt_rec numeral_eq_Suc)
qed

text \<open>
  C23: round trip with the byte-stream format: a stream of NAL units, each prefixed by a three- or
  four-byte start code, each non-empty, without a start code inside and not ending in a zero byte
  (as the H.264 and H.265 syntax guarantees), is split back into exactly these units.
\<close>

theorem split_annex_b_roundtrip:
  assumes "code_lens segs"
    and "\<And>sc p. (sc, p) \<in> set segs \<Longrightarrow> start_code_free p \<and> p \<noteq> [] \<and> last p \<noteq> 0"
  shows "map pn_data (split_annex_b_nals (segment_bytes segs) codec ts idr []) = map snd segs"
proof -
  have "annexb_segments (segment_bytes segs) = ([], segs)"
    using assms by (rule annexb_segments_encoded)
  moreover have "filter (\<lambda>p. p \<noteq> []) (map snd segs) = map snd segs"
    using assms(2) by (force simp: filter_id_conv)
  ultimately show ?thesis
    by (auto simp: split_annex_b_nals_data annexb_payloads_def split: list.splits)
qed

theorem split_annex_b_roundtrip_witness:
  "map pn_data (split_annex_b_nals (segment_bytes [(4, [0x67, 0, 0x42]), (3, [0x65, 0x88])]) H264 9 True [])
     = [[0x67, 0, 0x42], [0x65, 0x88]]"
proof -
  have "code_lens [(4, [0x67, 0, 0x42]), (3, [0x65, 0x88])]" by simp
  moreover have "start_code_free p \<and> p \<noteq> [] \<and> last p \<noteq> 0"
    if "(sc, p) \<in> set [(4::nat, [0x67, 0, 0x42]), (3, [0x65, 0x88])]" for sc p
    using that by (auto simp: start_code_free_Cons start_code_len_def)
  ultimately show ?thesis
    using split_annex_b_roundtrip [of "[(4, [0x67, 0, 0x42]), (3, [0x65, 0x88])]" H264 9 True]
    by simp
qed

text \<open>
  The flags of a parsed NAL unit are exactly those of its header byte: the five-bit type of
  H.264 (5, 7, 8), the six-bit type of H.265 (19/20, 32, 33, 34), and no flag at all for MJPEG.
  The flag of the whole frame that the caller passes has no influence.
\<close>

theorem make_nal_flags:
  assumes "2 \<le> length p" and "length p < 2 ^ 32"
  shows "pn_is_idr (make_nal codec ts idr p) =
      (case codec of H264 \<Rightarrow> p ! 0 AND 0x1F = 5
         | H265 \<Rightarrow> drop_bit 1 (p ! 0) AND 0x3F \<in> {19, 20} | MJPEG \<Rightarrow> False)
    \<and> pn_is_vps (make_nal codec ts idr p) =
      (codec = H265 \<and> drop_bit 1 (p ! 0) AND 0x3F = 32)
    \<and> pn_is_sps (make_nal codec ts idr p) =
      (case codec of H264 \<Rightarrow> p ! 0 AND 0x1F = 7 | H265 \<Rightarrow> drop_bit 1 (p ! 0) AND 0x3F = 33
         | MJPEG \<Rightarrow> False)
    \<and> pn_is_pps (make_nal codec ts idr p) =
      (case codec of H264 \<Rightarrow> p ! 0 AND 0x1F = 8 | H265 \<Rightarrow> drop_bit 1 (p ! 0) AND 0x3F = 34
         | MJPEG \<Rightarrow> False)"
proof -
  have "unat (word_of_nat (length p) :: u32) = length p"
    using assms(2) by (intro word_less_of_nat_len) simp
  with assms(1) have "\<not> unat (word_of_nat (length p) :: u32) < 2" by (simp only:)
  then have len: "\<not> (word_of_nat (length p) :: u32) < 2" "\<not> (word_of_nat (length p) :: u32) < 1"
    "(word_of_nat (length p) :: u32) \<noteq> 0"
    by (auto simp: word_less_nat_alt)
  show ?thesis
    by (cases codec)
      (simp_all add: len make_nal_def classify_nal_def parse_h264_nal_type_def
        parse_h265_nal_type_def Let_def)
qed

theorem make_nal_flags_witness:
  "pn_is_idr (make_nal H265 0 False [0x26, 0x01]) = True
   \<and> pn_is_sps (make_nal H265 0 False [0x26, 0x01]) = False"
  using make_nal_flags [of "[0x26, 0x01]" H265 0 False] by simp

end
