(* ===== verification/Stream_Frame.thy ===== *)
theory Stream_Frame
  imports Eye_Types
begin

text \<open>
  \<open>modules/stream/src/stream_frame.cpp\<close> and \<open>include/stream_frame.h\<close>: the immutable frame that
  the distributor hands to its consumers.  The constructor stamps the frame with a strictly
  monotonic time and replaces the producer's pack pointers by pointers into its own copies;
  reads outside the producer's buffers and outside \<open>packs[16]\<close> are explicit.
\<close>

section \<open>Timestamps\<close>

text \<open>
  \<open>last_timestamp\<close> is the static variable, \<open>now\<close> the reading of the system clock, which may
  jump backwards.  The result is the timestamp; it is also the new \<open>last_timestamp\<close>.
\<close>

definition next_monotonic_timestamp_ms :: "u64 \<Rightarrow> u64 \<Rightarrow> u64" where
  "next_monotonic_timestamp_ms last_timestamp now =
     (if now \<le> last_timestamp then last_timestamp + 1 else now)"

fun timestamps :: "u64 \<Rightarrow> u64 list \<Rightarrow> u64 list" where
  "timestamps last_timestamp [] = []"
| "timestamps last_timestamp (now # nows) =
     (let ts = next_monotonic_timestamp_ms last_timestamp now in ts # timestamps ts nows)"

section \<open>Frames\<close>

record StreamFrame =
  sf_channel :: VencChannel
  sf_type :: StreamType
  sf_codec :: CodecType
  sf_timestamp :: u64
  sf_data :: FrameData
  sf_pack_data :: "u8 list list"

text \<open>
  The copy loop from index \<open>i\<close> on, with \<open>n\<close> iterations left.  A pack with data is copied
  (\<open>fp_len\<close> bytes are read); a null or empty pack gets a null pointer and keeps its length.
\<close>

fun copy_packs ::
  "nat \<Rightarrow> nat \<Rightarrow> FramePack list \<Rightarrow> u8 list list \<Rightarrow> (FramePack list \<times> u8 list list) checked" where
  "copy_packs i 0 packs pack_data = Inr (packs, pack_data)"
| "copy_packs i (Suc n) packs pack_data =
     (if length packs \<le> i then Inl OutOfBounds
      else let pk = packs ! i
       in case fp_data pk of
            Some bytes \<Rightarrow>
              if 0 < fp_len pk then
                if length bytes < unat (fp_len pk) then Inl OutOfBounds
                else let copy = take (unat (fp_len pk)) bytes
                  in copy_packs (Suc i) n (packs[i := pk\<lparr>fp_data := Some copy\<rparr>]) (pack_data @ [copy])
              else copy_packs (Suc i) n (packs[i := pk\<lparr>fp_data := None\<rparr>]) (pack_data @ [[]])
          | None \<Rightarrow> copy_packs (Suc i) n (packs[i := pk\<lparr>fp_data := None\<rparr>]) (pack_data @ [[]]))"

definition new_stream_frame ::
  "u64 \<Rightarrow> u64 \<Rightarrow> VencChannel \<Rightarrow> StreamType \<Rightarrow> CodecType \<Rightarrow> FrameData \<Rightarrow> StreamFrame checked" where
  "new_stream_frame last_timestamp now chn type codec data =
     (let ts = next_monotonic_timestamp_ms last_timestamp now
      in case copy_packs 0 (unat (fd_pack_count data)) (fd_packs data) [] of
           Inl e \<Rightarrow> Inl e
         | Inr (packs, pack_data) \<Rightarrow>
             Inr \<lparr>sf_channel = chn, sf_type = type, sf_codec = codec, sf_timestamp = ts,
                  sf_data = data\<lparr>fd_packs := packs\<rparr>, sf_pack_data = pack_data\<rparr>)"

definition is_idr :: "StreamFrame \<Rightarrow> bool" where
  "is_idr f =
     (if sf_codec f = MJPEG then True
      else let count = unat (fd_pack_count (sf_data f));
               count = (if MAX_PACKS < count then MAX_PACKS else count)
       in list_ex (\<lambda>i. fp_nalu_type (fd_packs (sf_data f) ! i) = IDR_SLICE) [0..<count])"

section \<open>What the copy is\<close>

text \<open>A pack whose announced length is covered by the bytes behind its pointer.\<close>

definition pack_readable :: "FramePack \<Rightarrow> bool" where
  "pack_readable pk \<longleftrightarrow>
     (case fp_data pk of None \<Rightarrow> True | Some bytes \<Rightarrow> unat (fp_len pk) \<le> length bytes)"

definition pack_bytes :: "FramePack \<Rightarrow> u8 list" where
  "pack_bytes pk = (case fp_data pk of None \<Rightarrow> [] | Some bytes \<Rightarrow> take (unat (fp_len pk)) bytes)"

definition copied_pack :: "FramePack \<Rightarrow> FramePack" where
  "copied_pack pk =
     pk\<lparr>fp_data := if fp_data pk = None \<or> fp_len pk = 0 then None else Some (pack_bytes pk)\<rparr>"

lemma copied_pack_simps [simp]:
  "fp_len (copied_pack pk) = fp_len pk" "fp_nalu_type (copied_pack pk) = fp_nalu_type pk"
  by (simp_all add: copied_pack_def)

lemma pack_bytes_copied [simp]: "pack_bytes (copied_pack pk) = pack_bytes pk"
  by (auto simp: copied_pack_def pack_bytes_def split: option.splits)

lemma copied_pack_readable: "pack_readable pk \<Longrightarrow> pack_readable (copied_pack pk)"
  by (auto simp: copied_pack_def pack_readable_def pack_bytes_def split: option.splits)

lemma copy_packs_step:
  assumes "i < length packs"
  shows "copy_packs i (Suc n) packs pd =
    (if pack_readable (packs ! i)
     then copy_packs (Suc i) n (packs[i := copied_pack (packs ! i)]) (pd @ [pack_bytes (packs ! i)])
     else Inl OutOfBounds)"
  using assms
  by (auto simp: Let_def pack_readable_def copied_pack_def pack_bytes_def word_gt_0
      split: option.splits)

lemma copy_packs_eq:
  "copy_packs i n packs pd =
     (if i + n \<le> length packs \<and> (\<forall>k < n. pack_readable (packs ! (i + k)))
      then Inr (take i packs @ map copied_pack (take n (drop i packs)) @ drop (i + n) packs,
                pd @ map pack_bytes (take n (drop i packs)))
      else Inl OutOfBounds)" if "i \<le> length packs \<or> n > 0"
  using that
proof (induction n arbitrary: i packs pd)
  case 0
  then show ?case by simp
next
  case (Suc n)
  show ?case
  proof (cases "i < length packs")
    case False
    then show ?thesis by simp
  next
    case True
    let ?packs = "packs[i := copied_pack (packs ! i)]"
    have all: "(\<forall>k < Suc n. pack_readable (packs ! (i + k))) \<longleftrightarrow>
        pack_readable (packs ! i) \<and> (\<forall>k < n. pack_readable (packs ! (Suc i + k)))"
      by (simp add: All_less_Suc2)
    have drop: "take (Suc n) (drop i packs) = packs ! i # take n (drop (Suc i) packs)"
      using True by (simp add: drop_nth_Cons)
    have IH: "copy_packs (Suc i) n ?packs (pd @ [pack_bytes (packs ! i)]) =
      (if Suc i + n \<le> length packs \<and> (\<forall>k < n. pack_readable (packs ! (Suc i + k)))
       then Inr (take (Suc i) ?packs @ map copied_pack (take n (drop (Suc i) packs)) @ drop (Suc i + n) packs,
                 (pd @ [pack_bytes (packs ! i)]) @ map pack_bytes (take n (drop (Suc i) packs)))
       else Inl OutOfBounds)"
      using True by (subst Suc.IH) (auto simp: Suc_leI)
    show ?thesis
      unfolding copy_packs_step [OF True] IH all drop
      using True by (simp add: take_Suc_conv_app_nth)
  qed
qed

lemma new_stream_frame_eq:
  assumes "length (fd_packs data) = MAX_PACKS"
  shows "new_stream_frame t0 now chn type codec data =
    (if unat (fd_pack_count data) \<le> MAX_PACKS
        \<and> list_all pack_readable (take (unat (fd_pack_count data)) (fd_packs data))
     then Inr \<lparr>sf_channel = chn, sf_type = type, sf_codec = codec,
        sf_timestamp = next_monotonic_timestamp_ms t0 now,
        sf_data = data\<lparr>fd_packs := map copied_pack (take (unat (fd_pack_count data)) (fd_packs data))
                         @ drop (unat (fd_pack_count data)) (fd_packs data)\<rparr>,
        sf_pack_data = map pack_bytes (take (unat (fd_pack_count data)) (fd_packs data))\<rparr>
     else Inl OutOfBounds)"
  using assms
  by (auto simp: new_stream_frame_def Let_def copy_packs_eq list_all_length)

text \<open>The packs a consumer sees: the first \<open>pack_count\<close> entries, with their bytes.\<close>

definition frame_packs :: "StreamFrame \<Rightarrow> FramePack list" where
  "frame_packs f = take (unat (fd_pack_count (sf_data f))) (fd_packs (sf_data f))"

section \<open>Properties\<close>

text \<open>
  Constructing a frame is defined exactly when the announced pack count fits \<open>packs[16]\<close> and
  every pack's announced length is covered by its buffer; otherwise it reads out of bounds (the
  constructor itself does not clamp the count, unlike \<open>is_idr\<close>).
\<close>

theorem new_stream_frame_defined_iff:
  assumes "length (fd_packs data) = MAX_PACKS"
  shows "defined (new_stream_frame t0 now chn type codec data) \<longleftrightarrow>
    unat (fd_pack_count data) \<le> MAX_PACKS
    \<and> list_all pack_readable (take (unat (fd_pack_count data)) (fd_packs data))"
  using assms by (simp add: new_stream_frame_eq)

definition pack_of :: "u8 list \<Rightarrow> FramePack" where
  "pack_of bytes = \<lparr>fp_data = Some bytes, fp_len = word_of_nat (length bytes), fp_nalu_type = P_SLICE\<rparr>"

definition null_pack :: FramePack where
  "null_pack = \<lparr>fp_data = None, fp_len = 0, fp_nalu_type = NaluType.OTHER\<rparr>"

theorem new_stream_frame_defined_iff_witness:
  "\<not> defined (new_stream_frame 0 5 CHN0 VIDEO_MAIN H264
      \<lparr>fd_packs = replicate 16 null_pack, fd_pack_count = 17, fd_seq = 1\<rparr>)"
  using new_stream_frame_defined_iff
    [of "\<lparr>fd_packs = replicate 16 null_pack, fd_pack_count = 17, fd_seq = 1\<rparr>" 0 5 CHN0 VIDEO_MAIN H264]
  by (simp add: MAX_PACKS_def)

text \<open>
  C32: the constructor makes a deep copy: the frame's packs hold the same bytes, lengths and types
  as the producer's, each non-empty pack points at the frame's own copy, the copies are exactly
  \<open>pack_data_\<close>, and the entries past \<open>pack_count\<close> and the other fields are unchanged.
\<close>

theorem new_stream_frame_deep_copy:
  assumes "length (fd_packs data) = MAX_PACKS"
    and "new_stream_frame t0 now chn type codec data = Inr f"
  shows "map pack_bytes (frame_packs f) = map pack_bytes (take (unat (fd_pack_count data)) (fd_packs data))
    \<and> map fp_len (fd_packs (sf_data f)) = map fp_len (fd_packs data)
    \<and> map fp_nalu_type (fd_packs (sf_data f)) = map fp_nalu_type (fd_packs data)
    \<and> sf_pack_data f = map pack_bytes (frame_packs f)
    \<and> (\<forall>pk \<in> set (frame_packs f). case fp_data pk of
          None \<Rightarrow> pack_bytes pk = [] | Some bytes \<Rightarrow> bytes \<in> set (sf_pack_data f) \<and> length bytes = unat (fp_len pk))
    \<and> fd_pack_count (sf_data f) = fd_pack_count data \<and> fd_seq (sf_data f) = fd_seq data
    \<and> (sf_channel f, sf_type f, sf_codec f) = (chn, type, codec)"
proof -
  let ?n = "unat (fd_pack_count data)"
  let ?ps = "take ?n (fd_packs data)"
  have n: "?n \<le> MAX_PACKS" and ok: "list_all pack_readable ?ps"
    and f: "f = \<lparr>sf_channel = chn, sf_type = type, sf_codec = codec,
        sf_timestamp = next_monotonic_timestamp_ms t0 now,
        sf_data = data\<lparr>fd_packs := map copied_pack ?ps @ drop ?n (fd_packs data)\<rparr>,
        sf_pack_data = map pack_bytes ?ps\<rparr>"
    using assms by (simp_all add: new_stream_frame_eq split: if_splits)
  have packs: "frame_packs f = map copied_pack ?ps"
    using n assms(1) by (simp add: frame_packs_def f)
  have field: "map g (fd_packs (sf_data f)) = map g (fd_packs data)"
    if "\<And>pk. g (copied_pack pk) = g pk" for g :: "FramePack \<Rightarrow> 'b"
    by (simp add: f o_def that flip: take_map drop_map)
  have "case fp_data pk of None \<Rightarrow> pack_bytes pk = []
      | Some bytes \<Rightarrow> bytes \<in> set (sf_pack_data f) \<and> length bytes = unat (fp_len pk)"
    if pk: "pk \<in> set (frame_packs f)" for pk
  proof -
    obtain pk0 where pk0: "pk0 \<in> set ?ps" and eq: "pk = copied_pack pk0"
      using pk by (auto simp: packs)
    have "pack_readable pk0" using ok pk0 by (auto simp: list_all_iff)
    moreover have "pack_bytes pk0 \<in> set (sf_pack_data f)"
      using pk0 by (auto simp: f)
    ultimately show ?thesis
      by (auto simp: eq copied_pack_def pack_bytes_def pack_readable_def split: option.splits if_splits)
  qed
  then show ?thesis by (auto simp: packs field) (simp_all add: f)
qed

theorem new_stream_frame_deep_copy_witness:
  "map fp_len (replicate 16 (pack_of [1, 2])) = replicate 16 2
   \<and> (case new_stream_frame 0 5 CHN0 VIDEO_MAIN H264
         \<lparr>fd_packs = replicate 16 (pack_of [1, 2]), fd_pack_count = 1, fd_seq = 3\<rparr> of
        Inl _ \<Rightarrow> False | Inr f \<Rightarrow> sf_pack_data f = [[1, 2]] \<and> fd_seq (sf_data f) = 3)"
proof -
  let ?d = "\<lparr>fd_packs = replicate 16 (pack_of [1, 2]), fd_pack_count = 1, fd_seq = 3\<rparr>"
  have len: "length (fd_packs ?d) = MAX_PACKS" by (simp add: MAX_PACKS_def)
  have "defined (new_stream_frame 0 5 CHN0 VIDEO_MAIN H264 ?d)"
    unfolding new_stream_frame_eq [OF len]
    by (simp add: MAX_PACKS_def pack_readable_def pack_of_def)
  then obtain f where f: "new_stream_frame 0 5 CHN0 VIDEO_MAIN H264 ?d = Inr f" by blast
  note copy = new_stream_frame_deep_copy [OF len f]
  from copy have "sf_pack_data f = map pack_bytes (take 1 (fd_packs ?d))" by simp
  moreover have "\<dots> = [[1, 2]]"
    by (simp add: pack_bytes_def pack_of_def)
  moreover have "fd_seq (sf_data f) = 3" using copy by simp
  ultimately have "case new_stream_frame 0 5 CHN0 VIDEO_MAIN H264 ?d of
      Inl _ \<Rightarrow> False | Inr f \<Rightarrow> sf_pack_data f = [[1, 2]] \<and> fd_seq (sf_data f) = 3"
    by (simp add: f)
  then show ?thesis by (simp add: pack_of_def)
qed

lemma timestamps_bounded:
  "unat t0 + length nows < 2 ^ 64 \<Longrightarrow> (\<forall>now \<in> set nows. unat now + length nows < 2 ^ 64) \<Longrightarrow>
     sorted_wrt (<) (t0 # timestamps t0 nows) \<and> list_all2 (\<le>) nows (timestamps t0 nows)"
proof (induction nows arbitrary: t0)
  case Nil
  then show ?case by simp
next
  case (Cons now nows)
  define ts where "ts = next_monotonic_timestamp_ms t0 now"
  have "unat ts \<le> max (unat t0 + 1) (unat now)" and lt: "t0 < ts" and le: "now \<le> ts"
  proof -
    have "unat (t0 + 1) = unat t0 + 1"
      using Cons.prems(1) by (simp add: unat_word_ariths)
    then show "unat ts \<le> max (unat t0 + 1) (unat now)" "t0 < ts" "now \<le> ts"
      by (auto simp: ts_def next_monotonic_timestamp_ms_def word_less_nat_alt word_le_nat_alt)
  qed
  then have "sorted_wrt (<) (ts # timestamps ts nows) \<and> list_all2 (\<le>) nows (timestamps ts nows)"
    using Cons.prems by (intro Cons.IH) auto
  then show ?case
    using lt le by (auto simp: ts_def [symmetric] Let_def)
qed

text \<open>
  C33: frame timestamps are strictly increasing and never behind the clock reading, even when the
  system clock stands still or jumps backwards, as long as the 64-bit millisecond counter is not
  exhausted.
\<close>

theorem timestamps_strictly_increasing:
  assumes "unat t0 + length nows < 2 ^ 64"
    and "\<And>now. now \<in> set nows \<Longrightarrow> unat now + length nows < 2 ^ 64"
  shows "sorted_wrt (<) (t0 # timestamps t0 nows) \<and> list_all2 (\<le>) nows (timestamps t0 nows)"
  using assms by (intro timestamps_bounded) auto

theorem timestamps_strictly_increasing_witness:
  "timestamps 0 [5, 5, 3, 9] = [5, 6, 7, 9] \<and> sorted_wrt (<) (0 # timestamps 0 [5, 5, 3, 9])"
  using timestamps_strictly_increasing [of 0 "[5, 5, 3, 9]"]
  by (simp add: next_monotonic_timestamp_ms_def)

text \<open>\<open>is_idr\<close> as a condition on the packs.\<close>

lemma is_idr_iff:
  assumes "length (fd_packs (sf_data f)) = MAX_PACKS"
  shows "is_idr f \<longleftrightarrow> sf_codec f = MJPEG \<or> (\<exists>pk \<in> set (frame_packs f). fp_nalu_type pk = IDR_SLICE)"
proof -
  define n where "n = min (unat (fd_pack_count (sf_data f))) MAX_PACKS"
  have "frame_packs f = map ((!) (fd_packs (sf_data f))) [0..<n]"
    using assms unfolding frame_packs_def n_def
    by (intro nth_equalityI) auto
  moreover have "n = (if MAX_PACKS < unat (fd_pack_count (sf_data f)) then MAX_PACKS
      else unat (fd_pack_count (sf_data f)))"
    by (simp add: n_def)
  ultimately show ?thesis
    by (auto simp: is_idr_def Let_def list_ex_iff)
qed

end
