(* ===== verification/Rtsp_Server.thy ===== *)
theory Rtsp_Server
  imports Media_Subsession Nal_Parser Stream_Frame
begin

text \<open>
  \<open>modules/rtsp/src/rtsp_server.cpp\<close>: the server singleton.  It owns the live555 objects and, per
  stream, a session with its subsession, a frame queue, a parameter-set cache and a codec, all in
  maps keyed by the stream type.  A pointer to a live555 object is the flag that it is not null;
  \<open>srv_live\<close> is the set of library objects created and not yet released.  The results of the
  library's constructors are arguments.
\<close>

section \<open>State\<close>

record RtspConfig =
  cf_port :: u16
  cf_frame_queue_size :: nat
  cf_reuse_first_source :: bool
  cf_max_clients :: nat

datatype lib_obj = LibScheduler | LibEnv | LibServer | LibSession StreamType

record RtspServer =
  srv_rtsp_server :: bool
  srv_env :: bool
  srv_scheduler :: bool
  srv_running :: bool
  srv_watch_variable :: nat
  srv_event_thread :: bool
  srv_frame_event :: bool
  srv_sessions :: "StreamType \<rightharpoonup> string \<times> RtspServerMediaSubsession"
  srv_frame_queues :: "StreamType \<rightharpoonup> RtspFrameQueue"
  srv_parameter_sets :: "StreamType \<rightharpoonup> ParameterSetCache"
  srv_stream_codecs :: "StreamType \<rightharpoonup> CodecType"
  srv_config :: RtspConfig
  srv_live :: "lib_obj set"

definition new_server :: RtspServer where
  "new_server =
     \<lparr>srv_rtsp_server = False, srv_env = False, srv_scheduler = False, srv_running = False,
      srv_watch_variable = 0, srv_event_thread = False, srv_frame_event = False,
      srv_sessions = Map.empty, srv_frame_queues = Map.empty, srv_parameter_sets = Map.empty,
      srv_stream_codecs = Map.empty,
      srv_config = \<lparr>cf_port = 8554, cf_frame_queue_size = 5, cf_reuse_first_source = True, cf_max_clients = 1\<rparr>,
      srv_live = {}\<rparr>"

section \<open>Start and stop\<close>

text \<open>Assigning \<open>event_thread_\<close> while it is joinable would end the process.\<close>

definition start :: "u16 \<Rightarrow> bool \<Rightarrow> bool \<Rightarrow> bool \<Rightarrow> RtspServer \<Rightarrow> (bool \<times> RtspServer) checked" where
  "start port scheduler_ok env_ok server_ok s =
     (if srv_running s then Inr (True, s)
      else let s = s\<lparr>srv_config := (srv_config s)\<lparr>cf_port := port\<rparr>\<rparr>;
               s = s\<lparr>srv_scheduler := scheduler_ok,
                     srv_live := srv_live s \<union> (if scheduler_ok then {LibScheduler} else {})\<rparr>
       in if \<not> srv_scheduler s then Inr (False, s)
          else let s = s\<lparr>srv_env := env_ok, srv_live := srv_live s \<union> (if env_ok then {LibEnv} else {})\<rparr>
           in if \<not> srv_env s
              then Inr (False, s\<lparr>srv_scheduler := False, srv_live := srv_live s - {LibScheduler}\<rparr>)
              else let s = s\<lparr>srv_rtsp_server := server_ok,
                             srv_live := srv_live s \<union> (if server_ok then {LibServer} else {})\<rparr>
               in if \<not> srv_rtsp_server s
                  then let s = s\<lparr>srv_env := False, srv_live := srv_live s - {LibEnv}\<rparr>
                    in Inr (False, s\<lparr>srv_scheduler := False, srv_live := srv_live s - {LibScheduler}\<rparr>)
                  else if srv_event_thread s then Inl Terminated
                  else Inr (True, s\<lparr>srv_running := True, srv_watch_variable := 0, srv_event_thread := True\<rparr>))"

definition stop :: "RtspServer \<Rightarrow> RtspServer" where
  "stop s =
     (if \<not> srv_running s then s
      else let s = s\<lparr>srv_watch_variable := 1, srv_running := False\<rparr>;
               s = s\<lparr>srv_event_thread := False\<rparr>;
               s = s\<lparr>srv_live := srv_live s - LibSession ` dom (srv_sessions s)\<rparr>;
               s = s\<lparr>srv_sessions := Map.empty, srv_frame_queues := Map.empty,
                     srv_parameter_sets := Map.empty, srv_stream_codecs := Map.empty\<rparr>;
               s = (if srv_rtsp_server s then s\<lparr>srv_rtsp_server := False, srv_live := srv_live s - {LibServer}\<rparr> else s);
               s = (if srv_env s then s\<lparr>srv_env := False, srv_live := srv_live s - {LibEnv}\<rparr> else s)
       in if srv_scheduler s then s\<lparr>srv_scheduler := False, srv_live := srv_live s - {LibScheduler}\<rparr> else s)"

section \<open>Streams\<close>

definition add_stream :: "StreamType \<Rightarrow> string \<Rightarrow> bool \<Rightarrow> RtspServer \<Rightarrow> bool \<times> RtspServer" where
  "add_stream type stream_name session_ok s =
     (if \<not> srv_rtsp_server s then (False, s)
      else if srv_sessions s type \<noteq> None then (False, s)
      else case (if type = VIDEO_MAIN then Some H265 else if type = VIDEO_SUB then Some H264 else None) of
          None \<Rightarrow> (False, s)
        | Some codec \<Rightarrow>
            let queue = new_frame_queue (cf_frame_queue_size (srv_config s));
                cache = empty_cache
            in if \<not> session_ok then (False, s)
               else let subsession = new_subsession type codec (cf_max_clients (srv_config s))
                          (cf_reuse_first_source (srv_config s))
                 in (True, s\<lparr>srv_sessions := (srv_sessions s)(type \<mapsto> (stream_name, subsession)),
                             srv_frame_queues := (srv_frame_queues s)(type \<mapsto> queue),
                             srv_parameter_sets := (srv_parameter_sets s)(type \<mapsto> cache),
                             srv_stream_codecs := (srv_stream_codecs s)(type \<mapsto> codec),
                             srv_live := srv_live s \<union> {LibSession type}\<rparr>))"

definition remove_stream :: "StreamType \<Rightarrow> RtspServer \<Rightarrow> RtspServer" where
  "remove_stream type s =
     (if srv_sessions s type = None then s
      else s\<lparr>srv_sessions := (srv_sessions s)(type := None),
             srv_frame_queues := (srv_frame_queues s)(type := None),
             srv_parameter_sets := (srv_parameter_sets s)(type := None),
             srv_stream_codecs := (srv_stream_codecs s)(type := None),
             srv_live := srv_live s - {LibSession type}\<rparr>)"

section \<open>Frames\<close>

definition update_cache :: "ParsedNal \<Rightarrow> ParameterSetCache \<Rightarrow> ParameterSetCache" where
  "update_cache nal c =
     (if pn_is_vps nal \<or> pn_is_sps nal \<or> pn_is_pps nal then
        let c = (if pn_is_vps nal then c\<lparr>ps_vps := pn_data nal\<rparr> else c);
            c = (if pn_is_sps nal then c\<lparr>ps_sps := pn_data nal\<rparr> else c)
        in (if pn_is_pps nal then c\<lparr>ps_pps := pn_data nal\<rparr> else c)
      else c)"

definition nal_unit_of :: "u64 \<Rightarrow> ParsedNal \<Rightarrow> RtspNalUnit" where
  "nal_unit_of ts nal = \<lparr>nu_data = pn_data nal, nu_timestamp = ts, nu_is_idr = pn_is_idr nal\<rparr>"

definition process_nal :: "u64 \<Rightarrow> ParsedNal \<Rightarrow> ParameterSetCache \<times> RtspNalUnit list \<Rightarrow> ParameterSetCache \<times> RtspNalUnit list" where
  "process_nal ts nal = (\<lambda>(cache, au). (update_cache nal cache, au @ [nal_unit_of ts nal]))"

text \<open>The loop over the packs, from index \<open>i\<close> with \<open>n\<close> left; reads outside the array or past the
  end of a pack's buffer are undefined.\<close>

fun process_packs ::
  "CodecType \<Rightarrow> u64 \<Rightarrow> bool \<Rightarrow> FramePack list \<Rightarrow> nat \<Rightarrow> nat
     \<Rightarrow> ParameterSetCache \<times> RtspNalUnit list \<Rightarrow> (ParameterSetCache \<times> RtspNalUnit list) checked" where
  "process_packs codec ts idr packs i 0 acc = Inr acc"
| "process_packs codec ts idr packs i (Suc n) acc =
     (if length packs \<le> i then Inl OutOfBounds
      else let pk = packs ! i
       in case fp_data pk of
            None \<Rightarrow> process_packs codec ts idr packs (Suc i) n acc
          | Some bytes \<Rightarrow>
              if fp_len pk = 0 then process_packs codec ts idr packs (Suc i) n acc
              else if length bytes < unat (fp_len pk) then Inl OutOfBounds
              else let nals = split_annex_b_nals (take (unat (fp_len pk)) bytes) codec ts idr []
                in process_packs codec ts idr packs (Suc i) n (fold (process_nal ts) nals acc))"

definition process_frame_nals :: "int \<Rightarrow> StreamFrame \<Rightarrow> RtspServer \<Rightarrow> RtspServer checked" where
  "process_frame_nals now frame s =
     (case srv_stream_codecs s (sf_type frame) of
        None \<Rightarrow> Inr s
      | Some codec \<Rightarrow>
     (case srv_frame_queues s (sf_type frame) of
        None \<Rightarrow> Inr s
      | Some queue \<Rightarrow>
     (case srv_parameter_sets s (sf_type frame) of
        None \<Rightarrow> Inr s
      | Some cache \<Rightarrow>
          let ts = (if 0 < sf_timestamp frame then sf_timestamp frame else 0)
          in case process_packs codec ts (is_idr frame) (fd_packs (sf_data frame)) 0
                    (unat (fd_pack_count (sf_data frame))) (cache, []) of
               Inl e \<Rightarrow> Inl e
             | Inr (cache, au) \<Rightarrow>
                 let s = s\<lparr>srv_parameter_sets := (srv_parameter_sets s)(sf_type frame \<mapsto> cache)\<rparr>
                 in if has_active_sources queue \<and> au \<noteq> [] then
                      (case push_access_unit now au queue of
                         Inl e \<Rightarrow> Inl e
                       | Inr queue \<Rightarrow>
                           Inr (s\<lparr>srv_frame_queues := (srv_frame_queues s)(sf_type frame \<mapsto> queue)\<rparr>))
                    else Inr s)))"

definition on_frame :: "int \<Rightarrow> StreamFrame \<Rightarrow> RtspServer \<Rightarrow> RtspServer checked" where
  "on_frame now frame s =
     (if \<not> srv_running s then Inr s
      else case process_frame_nals now frame s of
          Inl e \<Rightarrow> Inl e
        | Inr s \<Rightarrow> Inr (if srv_scheduler s then s\<lparr>srv_frame_event := True\<rparr> else s))"

text \<open>\<open>handle_frame_trigger\<close> on the event loop: every queue notifies its sources.\<close>

definition handle_frame_trigger :: "(source_id \<Rightarrow> 's \<Rightarrow> 's) \<Rightarrow> RtspServer \<Rightarrow> 's \<Rightarrow> 's" where
  "handle_frame_trigger notify s x =
     fold (notify_active_sources notify) (map_values (srv_frame_queues s)) x"

section \<open>Frame processing\<close>

lemma process_nals_fold:
  "fold (process_nal ts) nals (cache, au) = (fold update_cache nals cache, au @ map (nal_unit_of ts) nals)"
  by (induction nals arbitrary: cache au) (simp_all add: process_nal_def)

text \<open>The NAL units of a frame: those of its packs, in order.\<close>

definition frame_nals :: "CodecType \<Rightarrow> u64 \<Rightarrow> bool \<Rightarrow> FramePack list \<Rightarrow> ParsedNal list" where
  "frame_nals codec ts idr packs =
     concat (map (\<lambda>pk. map (make_nal codec ts idr) (annexb_payloads (pack_bytes pk))) packs)"

lemma annexb_payloads_Nil [simp]: "annexb_payloads [] = []"
  by (simp add: annexb_payloads_def)

lemma process_packs_eq:
  "i + n \<le> length packs \<Longrightarrow>
     process_packs codec ts idr packs i n (cache, au) =
       (if list_all pack_readable (take n (drop i packs))
        then let nals = frame_nals codec ts idr (take n (drop i packs))
          in Inr (fold update_cache nals cache, au @ map (nal_unit_of ts) nals)
        else Inl OutOfBounds)"
proof (induction n arbitrary: i cache au)
  case 0
  then show ?case by (simp add: frame_nals_def)
next
  case (Suc n)
  let ?pk = "packs ! i" and ?ps = "take n (drop (Suc i) packs)"
  let ?nals = "map (make_nal codec ts idr) (annexb_payloads (pack_bytes ?pk))"
  have split: "take (Suc n) (drop i packs) = ?pk # ?ps"
    using Suc.prems by (simp add: drop_nth_Cons)
  have "process_packs codec ts idr packs i (Suc n) (cache, au) =
    (if pack_readable ?pk
     then process_packs codec ts idr packs (Suc i) n (fold update_cache ?nals cache, au @ map (nal_unit_of ts) ?nals)
     else Inl OutOfBounds)"
    using Suc.prems
    by (auto simp: Let_def pack_readable_def pack_bytes_def split_annex_b_nals_payloads process_nals_fold
        split: option.splits)
  also have "process_packs codec ts idr packs (Suc i) n (fold update_cache ?nals cache, au @ map (nal_unit_of ts) ?nals)
    = (if list_all pack_readable ?ps
       then let nals = frame_nals codec ts idr ?ps
          in Inr (fold update_cache nals (fold update_cache ?nals cache),
                  (au @ map (nal_unit_of ts) ?nals) @ map (nal_unit_of ts) nals)
       else Inl OutOfBounds)"
    using Suc.prems by (intro Suc.IH) simp
  finally show ?case
    unfolding split by (simp add: frame_nals_def Let_def)
qed

text \<open>A frame as the constructor of \<open>StreamFrame\<close> leaves it.\<close>

definition wf_frame :: "StreamFrame \<Rightarrow> bool" where
  "wf_frame f \<longleftrightarrow>
     length (fd_packs (sf_data f)) = MAX_PACKS \<and> unat (fd_pack_count (sf_data f)) \<le> MAX_PACKS
   \<and> list_all pack_readable (frame_packs f)"

lemma new_stream_frame_wf:
  assumes "length (fd_packs data) = MAX_PACKS" and "new_stream_frame t0 now chn type codec data = Inr f"
  shows "wf_frame f"
proof -
  let ?n = "unat (fd_pack_count data)"
  from assms have n: "?n \<le> MAX_PACKS" and ok: "list_all pack_readable (take ?n (fd_packs data))"
    and f: "sf_data f = data\<lparr>fd_packs := map copied_pack (take ?n (fd_packs data)) @ drop ?n (fd_packs data)\<rparr>"
    by (auto simp: new_stream_frame_eq split: if_splits)
  then have "frame_packs f = map copied_pack (take ?n (fd_packs data))"
    using assms(1) by (simp add: frame_packs_def)
  with ok n assms(1) show ?thesis
    by (auto simp: wf_frame_def f list_all_iff intro: copied_pack_readable)
qed

lemma process_frame_packs:
  assumes "wf_frame f"
  shows "process_packs codec ts idr (fd_packs (sf_data f)) 0 (unat (fd_pack_count (sf_data f))) (cache, [])
    = Inr (fold update_cache (frame_nals codec ts idr (frame_packs f)) cache,
           map (nal_unit_of ts) (frame_nals codec ts idr (frame_packs f)))"
  using assms process_packs_eq [of 0 "unat (fd_pack_count (sf_data f))" "fd_packs (sf_data f)" codec ts idr cache "[]"]
  by (simp add: wf_frame_def frame_packs_def Let_def)

section \<open>Invariant\<close>

definition stream_codec :: "StreamType \<Rightarrow> CodecType option" where
  "stream_codec type = (if type = VIDEO_MAIN then Some H265 else if type = VIDEO_SUB then Some H264 else None)"

definition srv_inv :: "RtspServer \<Rightarrow> bool" where
  "srv_inv s \<longleftrightarrow>
     srv_rtsp_server s = srv_running s \<and> srv_env s = srv_running s \<and> srv_scheduler s = srv_running s
   \<and> srv_event_thread s = srv_running s
   \<and> dom (srv_frame_queues s) = dom (srv_sessions s) \<and> dom (srv_parameter_sets s) = dom (srv_sessions s)
   \<and> dom (srv_stream_codecs s) = dom (srv_sessions s)
   \<and> (\<not> srv_running s \<longrightarrow> srv_sessions s = Map.empty)
   \<and> srv_live s = (if srv_running s then {LibScheduler, LibEnv, LibServer} else {}) \<union> LibSession ` dom (srv_sessions s)
   \<and> (\<forall>type codec. srv_stream_codecs s type = Some codec \<longrightarrow> stream_codec type = Some codec)
   \<and> (\<forall>type q. srv_frame_queues s type = Some q \<longrightarrow> fq_valid q)"

definition upd_queue :: "StreamType \<Rightarrow> (RtspFrameQueue \<Rightarrow> RtspFrameQueue) \<Rightarrow> RtspServer \<Rightarrow> RtspServer" where
  "upd_queue type g s =
     s\<lparr>srv_frame_queues := (srv_frame_queues s)(type := map_option g (srv_frame_queues s type))\<rparr>"

text \<open>
  The operations on the server; \<open>Connect\<close>, \<open>Disconnect\<close> and \<open>ReadNal\<close> are what the sources of a
  stream do on its queue (register, unregister, \<open>pop_nal_unit\<close>).
\<close>

datatype srv_op =
    Start u16 bool bool bool
  | Stop
  | AddStream StreamType string bool
  | RemoveStream StreamType
  | OnFrame int StreamFrame
  | Connect StreamType source_id
  | Disconnect StreamType source_id
  | ReadNal StreamType

fun srv_step :: "srv_op \<Rightarrow> RtspServer \<Rightarrow> RtspServer checked" where
  "srv_step (Start port a b c) s = map_sum id snd (start port a b c s)"
| "srv_step Stop s = Inr (stop s)"
| "srv_step (AddStream type name ok) s = Inr (snd (add_stream type name ok s))"
| "srv_step (RemoveStream type) s = Inr (remove_stream type s)"
| "srv_step (OnFrame now f) s = on_frame now f s"
| "srv_step (Connect type i) s = Inr (upd_queue type (register_source i) s)"
| "srv_step (Disconnect type i) s = Inr (upd_queue type (unregister_source i) s)"
| "srv_step (ReadNal type) s = Inr (upd_queue type (\<lambda>q. snd (pop_nal_unit q)) s)"

fun srv_run :: "srv_op list \<Rightarrow> RtspServer \<Rightarrow> RtspServer checked" where
  "srv_run [] s = Inr s"
| "srv_run (x # xs) s = (case srv_step x s of Inl e \<Rightarrow> Inl e | Inr s' \<Rightarrow> srv_run xs s')"

lemma new_server_inv: "srv_inv new_server"
  by (simp add: srv_inv_def new_server_def)

lemma start_cases:
  assumes "srv_inv s"
  obtains (already) "srv_running s" "start port a b c s = Inr (True, s)"
  | (failed) "\<not> srv_running s" "\<not> (a \<and> b \<and> c)"
      "start port a b c s = Inr (False, s\<lparr>srv_config := (srv_config s)\<lparr>cf_port := port\<rparr>\<rparr>)"
  | (started) "\<not> srv_running s" "a \<and> b \<and> c"
      "start port a b c s = Inr (True, s\<lparr>srv_config := (srv_config s)\<lparr>cf_port := port\<rparr>,
         srv_scheduler := True, srv_env := True, srv_rtsp_server := True, srv_running := True,
         srv_watch_variable := 0, srv_event_thread := True, srv_live := {LibScheduler, LibEnv, LibServer}\<rparr>)"
proof (cases "srv_running s")
  case True
  then show thesis by (intro already) (simp_all add: start_def)
next
  case False
  with assms have off: "srv_rtsp_server s = False" "srv_env s = False" "srv_scheduler s = False"
    "srv_event_thread s = False" "srv_live s = {}"
    by (simp_all add: srv_inv_def)
  show thesis
  proof (cases "a \<and> b \<and> c")
    case True
    have "{LibScheduler} \<union> {LibEnv} \<union> {LibServer} = {LibScheduler, LibEnv, LibServer}" by auto
    with True False off show thesis by (intro started) (simp_all add: start_def insert_commute)
  next
    case nok: False
    have "s = s\<lparr>srv_rtsp_server := False, srv_env := False, srv_scheduler := False, srv_live := {}\<rparr>"
      using off by simp
    with nok False off show thesis
      by (intro failed; cases a; cases b; cases c) (simp_all add: start_def)
  qed
qed

lemma stop_eq:
  assumes "srv_inv s"
  shows "stop s = (if srv_running s then
     s\<lparr>srv_watch_variable := 1, srv_running := False, srv_event_thread := False,
       srv_sessions := Map.empty, srv_frame_queues := Map.empty, srv_parameter_sets := Map.empty,
       srv_stream_codecs := Map.empty, srv_rtsp_server := False, srv_env := False,
       srv_scheduler := False, srv_live := {}\<rparr> else s)"
proof (cases "srv_running s")
  case True
  with assms have "srv_live s = {LibScheduler, LibEnv, LibServer} \<union> LibSession ` dom (srv_sessions s)"
    "srv_rtsp_server s" "srv_env s" "srv_scheduler s"
    by (simp_all add: srv_inv_def)
  moreover from this(1) have "srv_live s - LibSession ` dom (srv_sessions s) - {LibServer} - {LibEnv} - {LibScheduler} = {}"
    by auto
  ultimately show ?thesis using True by (simp add: stop_def Let_def)
qed (simp add: stop_def)

lemma add_stream_cases:
  obtains (refused) "add_stream type name ok s = (False, s)"
  | (added) codec where "stream_codec type = Some codec" "srv_rtsp_server s" "type \<notin> dom (srv_sessions s)"
      "add_stream type name ok s = (True, s\<lparr>
         srv_sessions := (srv_sessions s)(type \<mapsto> (name, new_subsession type codec
           (cf_max_clients (srv_config s)) (cf_reuse_first_source (srv_config s)))),
         srv_frame_queues := (srv_frame_queues s)(type \<mapsto> new_frame_queue (cf_frame_queue_size (srv_config s))),
         srv_parameter_sets := (srv_parameter_sets s)(type \<mapsto> empty_cache),
         srv_stream_codecs := (srv_stream_codecs s)(type \<mapsto> codec),
         srv_live := srv_live s \<union> {LibSession type}\<rparr>)"
  by (cases type; cases "srv_rtsp_server s"; cases "srv_sessions s type"; cases ok)
    (auto simp: add_stream_def stream_codec_def Let_def)

lemma process_frame_nals_eq:
  assumes "wf_frame f" and "srv_stream_codecs s (sf_type f) = Some codec" and q: "srv_frame_queues s (sf_type f) = Some q"
    and "srv_parameter_sets s (sf_type f) = Some cache" and "fq_valid q"
    and nals: "nals = frame_nals codec (sf_timestamp f) (is_idr f) (frame_packs f)"
  shows "process_frame_nals now f s = Inr (s\<lparr>
     srv_parameter_sets := (srv_parameter_sets s)(sf_type f \<mapsto> fold update_cache nals cache),
     srv_frame_queues := (srv_frame_queues s)(sf_type f \<mapsto>
       (if has_active_sources q then push_total now (map (nal_unit_of (sf_timestamp f)) nals) q else q))\<rparr>)"
proof -
  have ts: "(if 0 < sf_timestamp f then sf_timestamp f else 0) = sf_timestamp f"
    by (simp add: word_gt_0)
  have same: "s\<lparr>srv_parameter_sets := p\<rparr>
    = s\<lparr>srv_parameter_sets := p, srv_frame_queues := (srv_frame_queues s)(sf_type f \<mapsto> q)\<rparr>" for p
    using q by (simp add: map_upd_triv)
  have empty: "push_total now [] q = q" by (simp add: push_total_def push_access_unit_def)
  show ?thesis
    using assms(2-5) same
    by (cases "nals = []")
      (simp_all add: process_frame_nals_def ts process_frame_packs [OF assms(1)] Let_def push_access_unit_total empty
        flip: nals)
qed

lemma on_frame_cases:
  assumes "srv_inv s" and "wf_frame f"
  obtains (ignored) "\<not> srv_running s \<or> sf_type f \<notin> dom (srv_sessions s)"
      "on_frame now f s = Inr (if srv_running s then s\<lparr>srv_frame_event := True\<rparr> else s)"
  | (processed) codec q cache q' cache' where "srv_running s"
      "srv_stream_codecs s (sf_type f) = Some codec" "srv_frame_queues s (sf_type f) = Some q"
      "srv_parameter_sets s (sf_type f) = Some cache"
      "cache' = fold update_cache (frame_nals codec (sf_timestamp f) (is_idr f) (frame_packs f)) cache"
      "q' = (if has_active_sources q
             then push_total now (map (nal_unit_of (sf_timestamp f))
                    (frame_nals codec (sf_timestamp f) (is_idr f) (frame_packs f))) q else q)"
      "fq_valid q"
      "on_frame now f s = Inr (s\<lparr>srv_frame_event := True,
         srv_parameter_sets := (srv_parameter_sets s)(sf_type f \<mapsto> cache'),
         srv_frame_queues := (srv_frame_queues s)(sf_type f \<mapsto> q')\<rparr>)"
proof (cases "srv_running s \<and> sf_type f \<in> dom (srv_sessions s)")
  case False
  show thesis
  proof (rule ignored)
    show "\<not> srv_running s \<or> sf_type f \<notin> dom (srv_sessions s)" using False by blast
    have "srv_stream_codecs s (sf_type f) = None" if "srv_running s"
      using that assms(1) False unfolding srv_inv_def by (metis domIff)
    then show "on_frame now f s = Inr (if srv_running s then s\<lparr>srv_frame_event := True\<rparr> else s)"
      using assms(1) by (auto simp: on_frame_def process_frame_nals_def srv_inv_def)
  qed
next
  case True
  with assms(1) obtain codec q cache where maps: "srv_stream_codecs s (sf_type f) = Some codec"
    "srv_frame_queues s (sf_type f) = Some q" "srv_parameter_sets s (sf_type f) = Some cache"
    "fq_valid q" and "srv_scheduler s"
    unfolding srv_inv_def by (metis domD)
  with True process_frame_nals_eq [OF assms(2) maps refl] show thesis
    by (intro processed [OF _ maps(1-3) refl refl maps(4)]) (simp_all add: on_frame_def)
qed

section \<open>Runs\<close>

text \<open>The frames given to the server are those of the \<open>StreamFrame\<close> constructor.\<close>

fun op_ok :: "srv_op \<Rightarrow> bool" where
  "op_ok (OnFrame now f) = wf_frame f"
| "op_ok _ = True"

text \<open>No queued NAL unit is empty or holds a start code.\<close>

definition queue_clean :: "RtspFrameQueue \<Rightarrow> bool" where
  "queue_clean q \<longleftrightarrow> (\<forall>au \<in> set (fq_queue q). \<forall>nal \<in> set au. nu_data nal \<noteq> [] \<and> start_code_free (nu_data nal))"

definition srv_clean :: "RtspServer \<Rightarrow> bool" where
  "srv_clean s \<longleftrightarrow> (\<forall>type q. srv_frame_queues s type = Some q \<longrightarrow> queue_clean q)"

lemma frame_nals_clean:
  "nal \<in> set (frame_nals codec ts idr packs) \<Longrightarrow> pn_data nal \<noteq> [] \<and> start_code_free (pn_data nal)"
  using annexb_payloads_free by (auto simp: frame_nals_def)

lemma queue_clean_push:
  assumes "fq_valid q" and "queue_clean q"
  shows "queue_clean (push_total now (map (nal_unit_of ts) (frame_nals codec ts idr packs)) q)"
proof -
  have "set (tl (fq_queue q)) \<subseteq> set (fq_queue q)" by (rule set_tl_subset)
  then show ?thesis
    using assms(2) frame_nals_clean
    by (auto simp: queue_clean_def push_total_fields [OF assms(1)] nal_unit_of_def)
qed

lemma queue_clean_pop:
  assumes "fq_valid q" and "queue_clean q"
  shows "queue_clean (snd (pop_nal_unit q))"
proof (cases "fq_queue q")
  case Nil
  with assms show ?thesis by (simp add: queue_clean_def pop_nal_unit_def)
next
  case (Cons au aus)
  moreover have "set (tl au) \<subseteq> set au" by (rule set_tl_subset)
  moreover have "au \<noteq> []" using assms(1) Cons by (auto simp: fq_valid_def)
  ultimately show ?thesis using assms(2) by (auto simp: queue_clean_def pop_nal_unit_def)
qed

lemma queue_clean_register [simp]:
  "queue_clean (register_source i q) = queue_clean q" "queue_clean (unregister_source i q) = queue_clean q"
  by (simp_all add: queue_clean_def register_source_def unregister_source_def)

lemma upd_queue_fields [simp]:
  "srv_rtsp_server (upd_queue t g s) = srv_rtsp_server s" "srv_env (upd_queue t g s) = srv_env s"
  "srv_scheduler (upd_queue t g s) = srv_scheduler s" "srv_running (upd_queue t g s) = srv_running s"
  "srv_event_thread (upd_queue t g s) = srv_event_thread s" "srv_sessions (upd_queue t g s) = srv_sessions s"
  "srv_parameter_sets (upd_queue t g s) = srv_parameter_sets s"
  "srv_stream_codecs (upd_queue t g s) = srv_stream_codecs s" "srv_live (upd_queue t g s) = srv_live s"
  by (simp_all add: upd_queue_def)

lemma upd_queue_inv:
  assumes "srv_inv s" and "srv_clean s" and "\<And>q. fq_valid q \<Longrightarrow> fq_valid (g q)"
    and "\<And>q. fq_valid q \<Longrightarrow> queue_clean q \<Longrightarrow> queue_clean (g q)"
  shows "srv_inv (upd_queue type g s) \<and> srv_clean (upd_queue type g s)"
proof -
  have "dom (srv_frame_queues (upd_queue type g s)) = dom (srv_frame_queues s)"
    by (auto simp: upd_queue_def split: if_splits)
  moreover have "fq_valid q \<and> queue_clean q"
    if "srv_frame_queues (upd_queue type g s) t = Some q" for t q
    using that assms by (auto simp: upd_queue_def srv_inv_def srv_clean_def split: if_splits)
  ultimately show ?thesis
    using assms(1) unfolding srv_inv_def srv_clean_def by simp
qed

lemma on_frame_inv:
  assumes "srv_inv s" and "srv_clean s" and "wf_frame f"
  shows "\<exists>s'. on_frame now f s = Inr s' \<and> srv_inv s' \<and> srv_clean s'"
  using assms(1,3)
proof (cases rule: on_frame_cases [of s f now])
  case ignored
  with assms(1,2) show ?thesis by (auto simp: srv_inv_def srv_clean_def)
next
  case (processed codec q cache q' cache')
  let ?s = "s\<lparr>srv_frame_event := True, srv_parameter_sets := (srv_parameter_sets s)(sf_type f \<mapsto> cache'),
         srv_frame_queues := (srv_frame_queues s)(sf_type f \<mapsto> q')\<rparr>"
  have "queue_clean q" using assms(2) processed(3) by (simp add: srv_clean_def)
  then have q': "fq_valid q'" "queue_clean q'"
    using processed(6,7) by (auto intro: push_total_valid queue_clean_push)
  have "insert (sf_type f) (dom (srv_frame_queues s)) = dom (srv_frame_queues s)"
    "insert (sf_type f) (dom (srv_parameter_sets s)) = dom (srv_parameter_sets s)"
    "dom (srv_frame_queues s) = dom (srv_sessions s)" "dom (srv_parameter_sets s) = dom (srv_sessions s)"
    using processed(3,4) assms(1) by (auto simp: srv_inv_def)
  then have doms: "insert (sf_type f) (dom (srv_sessions s)) = dom (srv_sessions s)" by auto
  have "srv_inv ?s"
    using assms(1) q'(1) unfolding srv_inv_def by (simp add: doms)
  moreover have "srv_clean ?s"
    using assms(2) q'(2) by (simp add: srv_clean_def)
  ultimately show ?thesis using processed(8) by blast
qed

lemma start_inv:
  assumes inv: "srv_inv s" "srv_clean s"
  shows "\<exists>r. start port a b c s = Inr r \<and> srv_inv (snd r) \<and> srv_clean (snd r)"
  using inv(1)
proof (cases rule: start_cases [of s port a b c])
  case started
  then have "srv_sessions s = Map.empty" using inv(1) by (simp add: srv_inv_def)
  with started inv show ?thesis by (simp add: srv_inv_def srv_clean_def)
qed (use inv in \<open>simp_all add: srv_inv_def srv_clean_def\<close>)

lemma add_stream_inv:
  assumes inv: "srv_inv s" "srv_clean s"
  shows "srv_inv (snd (add_stream type name ok s)) \<and> srv_clean (snd (add_stream type name ok s))"
proof (cases rule: add_stream_cases [of type name ok s])
  case (added codec)
  have "queue_clean (new_frame_queue n)" for n by (simp add: queue_clean_def new_frame_queue_def)
  with added inv show ?thesis by (auto simp: srv_inv_def srv_clean_def intro: inv_intros)
qed (use inv in simp)

lemma remove_stream_inv:
  assumes inv: "srv_inv s" "srv_clean s"
  shows "srv_inv (remove_stream type s) \<and> srv_clean (remove_stream type s)"
proof -
  have "LibSession ` (D - {type}) = LibSession ` D - {LibSession type}" for D by auto
  with inv show ?thesis by (auto simp: remove_stream_def srv_inv_def srv_clean_def)
qed

lemma srv_step_inv:
  assumes inv: "srv_inv s" "srv_clean s" and "op_ok x"
  shows "\<exists>s'. srv_step x s = Inr s' \<and> srv_inv s' \<and> srv_clean s'"
proof (cases x)
  case (Start port a b c)
  with start_inv [OF inv, of port a b c] show ?thesis by auto
next
  case Stop
  with inv show ?thesis by (simp add: stop_eq srv_inv_def srv_clean_def)
next
  case (OnFrame now f)
  with on_frame_inv [OF inv] assms(3) show ?thesis by simp
next
  case (Connect type i)
  with upd_queue_inv [OF inv, of "register_source i"] show ?thesis by simp
next
  case (Disconnect type i)
  with upd_queue_inv [OF inv, of "unregister_source i"] show ?thesis by simp
next
  case (ReadNal type)
  with upd_queue_inv [OF inv, of "\<lambda>q. snd (pop_nal_unit q)" type]
  show ?thesis by (simp add: pop_nal_unit_valid queue_clean_pop)
qed (simp_all add: add_stream_inv remove_stream_inv inv)

lemma srv_run_inv:
  "srv_inv s \<Longrightarrow> srv_clean s \<Longrightarrow> (\<And>x. x \<in> set xs \<Longrightarrow> op_ok x) \<Longrightarrow>
     \<exists>s'. srv_run xs s = Inr s' \<and> srv_inv s' \<and> srv_clean s'"
proof (induction xs arbitrary: s)
  case Nil
  then show ?case by simp
next
  case (Cons x xs)
  then obtain s1 where "srv_step x s = Inr s1" "srv_inv s1" "srv_clean s1"
    using srv_step_inv [of s x] by auto
  with Cons show ?case by simp
qed

lemma new_server_clean: "srv_clean new_server"
  by (simp add: srv_clean_def new_server_def)

section \<open>Parameter sets\<close>

lemma update_cache_sets:
  "ps_vps (fold update_cache nals c) = last (ps_vps c # map pn_data (filter pn_is_vps nals))"
  "ps_sps (fold update_cache nals c) = last (ps_sps c # map pn_data (filter pn_is_sps nals))"
  "ps_pps (fold update_cache nals c) = last (ps_pps c # map pn_data (filter pn_is_pps nals))"
  by (induction nals arbitrary: c) (simp_all add: update_cache_def Let_def)

section \<open>Properties\<close>






definition demo_frame :: StreamFrame where
  "demo_frame =
     \<lparr>sf_channel = CHN0, sf_type = VIDEO_MAIN, sf_codec = H265, sf_timestamp = 7,
      sf_data = \<lparr>fd_packs = pack_of [0, 0, 1, 0x26, 0x01] # replicate 15 null_pack, fd_pack_count = 1, fd_seq = 0\<rparr>,
      sf_pack_data = [[0, 0, 1, 0x26, 0x01]]\<rparr>"

lemma demo_frame_packs: "frame_packs demo_frame = [pack_of [0, 0, 1, 0x26, 0x01]]"
  by (simp add: frame_packs_def demo_frame_def)

lemma demo_frame_wf: "wf_frame demo_frame"
proof -
  have "length (fd_packs (sf_data demo_frame)) = MAX_PACKS" "unat (fd_pack_count (sf_data demo_frame)) \<le> MAX_PACKS"
    by (simp_all add: demo_frame_def MAX_PACKS_def)
  then show ?thesis
    by (simp add: wf_frame_def demo_frame_packs pack_readable_def pack_of_def)
qed

definition demo_server :: RtspServer where
  "demo_server = new_server\<lparr>srv_rtsp_server := True, srv_env := True, srv_scheduler := True, srv_running := True,
     srv_event_thread := True,
     srv_sessions := [VIDEO_MAIN \<mapsto> (''main'', new_subsession VIDEO_MAIN H265 1 True)],
     srv_frame_queues := [VIDEO_MAIN \<mapsto> register_source 0 (new_frame_queue 5)],
     srv_parameter_sets := [VIDEO_MAIN \<mapsto> empty_cache], srv_stream_codecs := [VIDEO_MAIN \<mapsto> H265],
     srv_live := {LibScheduler, LibEnv, LibServer, LibSession VIDEO_MAIN}\<rparr>"

lemma demo_server_inv: "srv_inv demo_server"
  by (auto simp: srv_inv_def demo_server_def stream_codec_def new_frame_queue_valid)


text \<open>
  C13: across the whole path from the encoder's packs to the queues, whatever bytes the packs hold
  and whatever the operations are, no queued NAL unit is empty or contains a start code.
\<close>

theorem server_queues_clean:
  assumes "\<And>x. x \<in> set xs \<Longrightarrow> op_ok x" and "srv_run xs new_server = Inr s"
    and "srv_frame_queues s type = Some q" and "nal \<in> set (fq_nals q)"
  shows "nu_data nal \<noteq> [] \<and> start_code_free (nu_data nal)"
proof -
  obtain s' where "srv_run xs new_server = Inr s'" "srv_clean s'"
    using srv_run_inv [OF new_server_inv new_server_clean assms(1)] by blast
  with assms(2-4) show ?thesis by (auto simp: srv_clean_def queue_clean_def fq_nals_def)
qed

lemma demo_server_run:
  "srv_run [Start 8554 True True True, AddStream VIDEO_MAIN ''main'' True, Connect VIDEO_MAIN 0] new_server
     = Inr demo_server"
  by (simp add: start_def new_server_def add_stream_def upd_queue_def demo_server_def insert_commute)

lemma demo_payloads: "annexb_payloads (pack_bytes (pack_of [0, 0, 1, 0x26, 0x01])) = [[0x26, 0x01]]"
  by (simp add: annexb_payloads_def annexb_segments.simps start_code_len_def pack_of_def pack_bytes_def)

lemma srv_run_append:
  "srv_run (xs @ ys) s = (case srv_run xs s of Inl e \<Rightarrow> Inl e | Inr s' \<Rightarrow> srv_run ys s')"
  by (induction xs arbitrary: s) (auto split: sum.splits)

theorem server_queues_clean_witness:
  "\<exists>s q nal. srv_run ([Start 8554 True True True, AddStream VIDEO_MAIN ''main'' True, Connect VIDEO_MAIN 0]
        @ [OnFrame 0 demo_frame]) new_server = Inr s
     \<and> srv_frame_queues s VIDEO_MAIN = Some q \<and> nal \<in> set (fq_nals q)
     \<and> nu_data nal \<noteq> [] \<and> start_code_free (nu_data nal)"
proof -
  let ?xs = "[Start 8554 True True True, AddStream VIDEO_MAIN ''main'' True, Connect VIDEO_MAIN 0]
        @ [OnFrame 0 demo_frame]"
  let ?nals = "frame_nals H265 7 (is_idr demo_frame) (frame_packs demo_frame)"
  let ?q = "register_source 0 (new_frame_queue 5)"
  have type: "sf_type demo_frame = VIDEO_MAIN" "sf_timestamp demo_frame = 7"
    by (simp_all add: demo_frame_def)
  have maps: "srv_running demo_server" "srv_stream_codecs demo_server VIDEO_MAIN = Some H265"
    "srv_frame_queues demo_server VIDEO_MAIN = Some ?q"
    "VIDEO_MAIN \<in> dom (srv_sessions demo_server)"
    by (simp_all add: demo_server_def)
  obtain s where s: "on_frame 0 demo_frame demo_server = Inr s"
    "srv_frame_queues s VIDEO_MAIN = Some (push_total 0 (map (nal_unit_of 7) ?nals) ?q)"
    using demo_server_inv demo_frame_wf
    by (cases rule: on_frame_cases [of demo_server demo_frame 0])
      (use maps in \<open>auto simp: type has_active_sources_def register_source_def\<close>)
  have nals: "?nals = [make_nal H265 7 (is_idr demo_frame) [0x26, 0x01]]"
    by (simp add: frame_nals_def demo_frame_packs demo_payloads)
  have "nal_unit_of 7 (hd ?nals) \<in> set (fq_nals (push_total 0 (map (nal_unit_of 7) ?nals) ?q))"
    by (simp add: nals fq_nals_def push_total_fields new_frame_queue_valid)
  moreover have ok: "\<And>x. x \<in> set ?xs \<Longrightarrow> op_ok x" by (auto simp: demo_frame_wf)
  moreover have run: "srv_run ?xs new_server = Inr s"
    unfolding srv_run_append demo_server_run by (simp add: s(1))
  ultimately show ?thesis
    using server_queues_clean [OF ok run s(2)] s(2) by blast
qed

text \<open>
  After a frame the cache holds, for each kind of parameter set, the last one of that kind in
  the frame, or what it held before; complete caches stay complete.
\<close>

theorem server_parameter_sets:
  assumes "nals = frame_nals codec ts idr packs" and "c' = fold update_cache nals c"
  shows "ps_vps c' = last (ps_vps c # map pn_data (filter pn_is_vps nals))
    \<and> ps_sps c' = last (ps_sps c # map pn_data (filter pn_is_sps nals))
    \<and> ps_pps c' = last (ps_pps c # map pn_data (filter pn_is_pps nals))
    \<and> (params_ready codec' c \<longrightarrow> params_ready codec' c')"
proof -
  have "pn_data nal \<noteq> []" if "nal \<in> set nals" for nal
    using that frame_nals_clean unfolding assms(1) by blast
  then have keep: "last (x # map pn_data (filter P nals)) \<noteq> []" if "x \<noteq> []" for x P
    using that last_in_set [of "filter P nals"] by (auto simp: last_map)
  show ?thesis
    using keep unfolding assms(2) update_cache_sets
    by (auto simp: params_ready_def has_vps_sps_pps_def has_sps_pps_def update_cache_sets)
qed

theorem server_parameter_sets_witness:
  "ps_vps (fold update_cache (frame_nals H265 7 True [pack_of [0, 0, 1, 0x26, 0x01]]) empty_cache)
     = last ([] # map pn_data (filter pn_is_vps (frame_nals H265 7 True [pack_of [0, 0, 1, 0x26, 0x01]])))"
  using server_parameter_sets [OF refl refl, of H265 7 True "[pack_of [0, 0, 1, 0x26, 0x01]]" empty_cache H265]
  by (simp add: empty_cache_def)

end
