(* ===== verification/Rtsp_Spec.thy ===== *)
theory Rtsp_Spec
  imports Rtsp_Server
begin

text \<open>
  What the server promises, without how it keeps it: it is running or not, and it has a set of
  streams, each with its session, codec, parameter sets, connected sources and a bounded backlog of
  access units.  The implementation of \<open>rtsp_server.cpp\<close> spreads a stream over four maps that must
  be kept in step, reads clocks, and can fail in undefined behaviour; the specification has one map
  and total functions.  \<open>abs_srv\<close> relates the two, and every operation of the server implements
  its abstract counterpart.
\<close>

section \<open>Specification\<close>

record spec_stream =
  st_session :: "string \<times> RtspServerMediaSubsession"
  st_codec :: CodecType
  st_cache :: ParameterSetCache
  st_sources :: "source_id list"
  st_bound :: nat
  st_backlog :: "RtspNalUnit list list"

record spec_server =
  sp_running :: bool
  sp_config :: RtspConfig
  sp_streams :: "StreamType \<rightharpoonup> spec_stream"

definition spec_init :: spec_server where
  "spec_init = \<lparr>sp_running = False, sp_config = srv_config new_server, sp_streams = Map.empty\<rparr>"

definition spec_new_stream :: "RtspConfig \<Rightarrow> StreamType \<Rightarrow> string \<Rightarrow> CodecType \<Rightarrow> spec_stream" where
  "spec_new_stream cf type name codec =
     \<lparr>st_session = (name, new_subsession type codec (cf_max_clients cf) (cf_reuse_first_source cf)),
      st_codec = codec, st_cache = empty_cache, st_sources = [],
      st_bound = max 1 (cf_frame_queue_size cf), st_backlog = []\<rparr>"

text \<open>A frame refreshes the parameter sets; its NAL units join the backlog if somebody watches, and
  the oldest access unit gives way when the backlog is full.\<close>

definition spec_deliver :: "StreamFrame \<Rightarrow> spec_stream \<Rightarrow> spec_stream" where
  "spec_deliver f st =
     (let nals = frame_nals (st_codec st) (sf_timestamp f) (is_idr f) (frame_packs f);
          au = map (nal_unit_of (sf_timestamp f)) nals;
          backlog = st_backlog st
      in st\<lparr>st_cache := fold update_cache nals (st_cache st),
            st_backlog :=
              (if st_sources st = [] \<or> nals = [] then backlog
               else (if length backlog < st_bound st then backlog else tl backlog) @ [au])\<rparr>)"

definition spec_read :: "spec_stream \<Rightarrow> spec_stream" where
  "spec_read st =
     st\<lparr>st_backlog :=
       (case st_backlog st of [] \<Rightarrow> [] | au # aus \<Rightarrow> if tl au = [] then aus else tl au # aus)\<rparr>"

definition on_stream :: "StreamType \<Rightarrow> (spec_stream \<Rightarrow> spec_stream) \<Rightarrow> spec_server \<Rightarrow> spec_server" where
  "on_stream type g \<sigma> =
     \<sigma>\<lparr>sp_streams := (sp_streams \<sigma>)(type := map_option g (sp_streams \<sigma> type))\<rparr>"

fun spec_step :: "srv_op \<Rightarrow> spec_server \<Rightarrow> spec_server" where
  "spec_step (Start port a b c) \<sigma> =
     (if sp_running \<sigma> then \<sigma>
      else \<sigma>\<lparr>sp_running := a \<and> b \<and> c, sp_config := (sp_config \<sigma>)\<lparr>cf_port := port\<rparr>\<rparr>)"
| "spec_step Stop \<sigma> = \<sigma>\<lparr>sp_running := False, sp_streams := Map.empty\<rparr>"
| "spec_step (AddStream type name ok) \<sigma> =
     (if sp_running \<sigma> \<and> ok \<and> sp_streams \<sigma> type = None then
        (case stream_codec type of
           None \<Rightarrow> \<sigma>
         | Some codec \<Rightarrow>
             \<sigma>\<lparr>sp_streams := (sp_streams \<sigma>)(type \<mapsto> spec_new_stream (sp_config \<sigma>) type name codec)\<rparr>)
      else \<sigma>)"
| "spec_step (RemoveStream type) \<sigma> = \<sigma>\<lparr>sp_streams := (sp_streams \<sigma>)(type := None)\<rparr>"
| "spec_step (OnFrame now f) \<sigma> = on_stream (sf_type f) (spec_deliver f) \<sigma>"
| "spec_step (Connect type i) \<sigma> = on_stream type (\<lambda>st. st\<lparr>st_sources := st_sources st @ [i]\<rparr>) \<sigma>"
| "spec_step (Disconnect type i) \<sigma> = on_stream type (\<lambda>st. st\<lparr>st_sources := remove1 i (st_sources st)\<rparr>) \<sigma>"
| "spec_step (ReadNal type) \<sigma> = on_stream type spec_read \<sigma>"

section \<open>Abstraction\<close>

text \<open>The stream of one key, put together from the four maps.\<close>

definition abs_stream :: "RtspServer \<Rightarrow> StreamType \<Rightarrow> spec_stream option" where
  "abs_stream s type =
     (case (srv_sessions s type, srv_stream_codecs s type, srv_parameter_sets s type, srv_frame_queues s type) of
        (Some session, Some codec, Some cache, Some q) \<Rightarrow>
          Some \<lparr>st_session = session, st_codec = codec, st_cache = cache,
                st_sources = fq_active_sources q, st_bound = fq_max_queue_size q, st_backlog = fq_queue q\<rparr>
      | _ \<Rightarrow> None)"

definition abs_srv :: "RtspServer \<Rightarrow> spec_server" where
  "abs_srv s = \<lparr>sp_running = srv_running s, sp_config = srv_config s, sp_streams = abs_stream s\<rparr>"

lemma abs_srv_init: "abs_srv new_server = spec_init"
  by (simp add: abs_srv_def spec_init_def new_server_def abs_stream_def fun_eq_iff)

text \<open>In a consistent server the maps agree: a key has all four entries or none.\<close>

lemma srv_maps_cases:
  assumes "srv_inv s"
  obtains (absent) "srv_sessions s t = None" "srv_stream_codecs s t = None" "srv_parameter_sets s t = None"
      "srv_frame_queues s t = None"
  | (present) session codec cache q where "srv_sessions s t = Some session" "srv_stream_codecs s t = Some codec"
      "srv_parameter_sets s t = Some cache" "srv_frame_queues s t = Some q" "fq_valid q" "srv_running s"
proof -
  have doms: "t \<in> dom (srv_frame_queues s) \<longleftrightarrow> t \<in> dom (srv_sessions s)"
    "t \<in> dom (srv_parameter_sets s) \<longleftrightarrow> t \<in> dom (srv_sessions s)"
    "t \<in> dom (srv_stream_codecs s) \<longleftrightarrow> t \<in> dom (srv_sessions s)"
    using assms unfolding srv_inv_def by simp_all
  show thesis
  proof (cases "srv_sessions s t")
    case None
    with doms absent show thesis by (auto simp: domIff)
  next
    case (Some session)
    with assms have "srv_running s" unfolding srv_inv_def by fastforce
    moreover from assms have "fq_valid q" if "srv_frame_queues s t = Some q" for q
      using that unfolding srv_inv_def by blast
    moreover obtain codec cache q where "srv_stream_codecs s t = Some codec" "srv_parameter_sets s t = Some cache"
      "srv_frame_queues s t = Some q"
      using Some doms by (auto simp: domIff)
    ultimately show thesis using Some present by blast
  qed
qed

lemma abs_stream_None:
  assumes "srv_inv s"
  shows "abs_stream s t = None \<longleftrightarrow> srv_sessions s t = None"
  using assms by (cases rule: srv_maps_cases [of s t]) (simp_all add: abs_stream_def)

text \<open>\<open>abs_stream\<close> reads the four maps only at its key.\<close>

lemma abs_stream_cong:
  "srv_sessions s t = srv_sessions s' t \<Longrightarrow> srv_stream_codecs s t = srv_stream_codecs s' t \<Longrightarrow>
   srv_parameter_sets s t = srv_parameter_sets s' t \<Longrightarrow> srv_frame_queues s t = srv_frame_queues s' t \<Longrightarrow>
   abs_stream s t = abs_stream s' t"
  by (simp add: abs_stream_def)

section \<open>Each operation implements its specification\<close>

lemma abs_start:
  assumes "srv_inv s" and "srv_step (Start port a b c) s = Inr s'"
  shows "abs_srv s' = spec_step (Start port a b c) (abs_srv s)"
  using assms(1)
proof (cases rule: start_cases [of s port a b c])
  case failed
  with assms(2) show ?thesis by (auto simp: abs_srv_def intro!: ext abs_stream_cong)
next
  case started
  with assms(2) show ?thesis by (auto simp: abs_srv_def intro!: ext abs_stream_cong)
qed (use assms(2) in \<open>simp add: abs_srv_def\<close>)

lemma abs_stop:
  assumes "srv_inv s"
  shows "abs_srv (stop s) = spec_step Stop (abs_srv s)"
proof (cases "srv_running s")
  case True
  then show ?thesis by (simp add: stop_eq [OF assms] abs_srv_def abs_stream_def fun_eq_iff)
next
  case False
  with assms have "abs_stream s = Map.empty"
    by (auto simp: fun_eq_iff abs_stream_None) (simp add: srv_inv_def)
  with False show ?thesis by (simp add: stop_def abs_srv_def)
qed

lemma abs_add_stream:
  assumes "srv_inv s"
  shows "abs_srv (snd (add_stream type name ok s)) = spec_step (AddStream type name ok) (abs_srv s)"
proof (cases "srv_running s \<and> ok \<and> srv_sessions s type = None \<and> stream_codec type \<noteq> None")
  case True
  then obtain codec where codec: "stream_codec type = Some codec" by blast
  from True assms have "srv_rtsp_server s" by (simp add: srv_inv_def)
  with True codec
  have add: "snd (add_stream type name ok s) = s\<lparr>
      srv_sessions := (srv_sessions s)(type \<mapsto> (name, new_subsession type codec
        (cf_max_clients (srv_config s)) (cf_reuse_first_source (srv_config s)))),
      srv_frame_queues := (srv_frame_queues s)(type \<mapsto> new_frame_queue (cf_frame_queue_size (srv_config s))),
      srv_parameter_sets := (srv_parameter_sets s)(type \<mapsto> empty_cache),
      srv_stream_codecs := (srv_stream_codecs s)(type \<mapsto> codec),
      srv_live := srv_live s \<union> {LibSession type}\<rparr>"
    by (simp add: add_stream_def stream_codec_def Let_def)
  have "abs_stream (snd (add_stream type name ok s)) =
      (abs_stream s)(type \<mapsto> spec_new_stream (srv_config s) type name codec)"
    by (auto simp: add fun_eq_iff abs_stream_def spec_new_stream_def new_frame_queue_def)
  moreover have "srv_running (snd (add_stream type name ok s)) = srv_running s"
    "srv_config (snd (add_stream type name ok s)) = srv_config s"
    by (simp_all add: add)
  ultimately show ?thesis
    using True codec assms by (simp add: abs_srv_def abs_stream_None)
next
  case False
  moreover have "srv_rtsp_server s = srv_running s" using assms by (simp add: srv_inv_def)
  ultimately have "add_stream type name ok s = (False, s)"
    by (auto simp: add_stream_def stream_codec_def Let_def)
  with False assms show ?thesis
    by (auto simp: abs_srv_def abs_stream_None split: option.splits)
qed

lemma abs_remove_stream:
  assumes "srv_inv s"
  shows "abs_srv (remove_stream type s) = spec_step (RemoveStream type) (abs_srv s)"
  using assms
proof (cases rule: srv_maps_cases [of s type])
  case absent
  then have "(abs_stream s)(type := None) = abs_stream s" by (auto simp: abs_stream_def fun_eq_iff)
  with absent show ?thesis by (simp add: abs_srv_def remove_stream_def)
qed (auto simp: abs_srv_def remove_stream_def abs_stream_def fun_eq_iff)

text \<open>What the sources do on the queue of their stream.\<close>

lemma abs_upd_queue:
  assumes "srv_inv s"
    and "\<And>st q. fq_valid q \<Longrightarrow> g (st\<lparr>st_sources := fq_active_sources q, st_bound := fq_max_queue_size q,
          st_backlog := fq_queue q\<rparr>)
       = st\<lparr>st_sources := fq_active_sources (h q), st_bound := fq_max_queue_size (h q),
            st_backlog := fq_queue (h q)\<rparr>"
  shows "abs_srv (upd_queue type h s) = on_stream type g (abs_srv s)"
  using assms(1)
proof (cases rule: srv_maps_cases [of s type])
  case absent
  then show ?thesis by (simp add: abs_srv_def on_stream_def upd_queue_def abs_stream_def fun_eq_iff)
next
  case (present session codec cache q)
  have "abs_stream (upd_queue type h s) t = map_option g (abs_stream s t)" if "t = type" for t
    using present assms(2) [OF present(5), of "\<lparr>st_session = session, st_codec = codec, st_cache = cache,
        st_sources = [], st_bound = 0, st_backlog = []\<rparr>"] that
    by (simp add: abs_stream_def upd_queue_def)
  moreover have "abs_stream (upd_queue type h s) t = abs_stream s t" if "t \<noteq> type" for t
    using that by (intro abs_stream_cong) (simp_all add: upd_queue_def)
  ultimately show ?thesis by (auto simp: abs_srv_def on_stream_def fun_eq_iff upd_queue_def)
qed

lemma abs_on_frame:
  assumes "srv_inv s" and "wf_frame f" and "on_frame now f s = Inr s'"
  shows "abs_srv s' = spec_step (OnFrame now f) (abs_srv s)"
  using assms(1,2)
proof (cases rule: on_frame_cases [of s f now])
  case ignored
  then have "srv_sessions s (sf_type f) = None" using assms(1) by (auto simp: srv_inv_def)
  then have "abs_stream s (sf_type f) = None" by (simp add: abs_stream_None [OF assms(1)])
  then have "on_stream (sf_type f) (spec_deliver f) (abs_srv s) = abs_srv s"
    by (simp add: on_stream_def abs_srv_def fun_eq_iff)
  moreover have "abs_srv s' = abs_srv s"
    using ignored(2) assms(3) by (auto simp: abs_srv_def intro!: ext abs_stream_cong split: if_splits)
  ultimately show ?thesis by simp
next
  case (processed codec q cache q' cache')
  obtain session where session: "srv_sessions s (sf_type f) = Some session"
    using assms(1) processed(2) by (cases rule: srv_maps_cases [of s "sf_type f"]) auto
  have "abs_stream s' (sf_type f) = map_option (spec_deliver f) (abs_stream s (sf_type f))"
    using processed assms(3) session
    by (auto simp: abs_stream_def spec_deliver_def Let_def has_active_sources_def push_total_fields)
  moreover have "abs_stream s' t = abs_stream s t" if "t \<noteq> sf_type f" for t
    using that processed(8) assms(3) by (intro abs_stream_cong) auto
  ultimately show ?thesis
    using processed(8) assms(3) by (auto simp: abs_srv_def on_stream_def fun_eq_iff)
qed

lemma srv_step_refines:
  assumes "srv_inv s" and "srv_step x s = Inr s'" and "op_ok x"
  shows "abs_srv s' = spec_step x (abs_srv s)"
proof (cases x)
  case (ReadNal type)
  have read: "spec_read (st\<lparr>st_sources := fq_active_sources q, st_bound := fq_max_queue_size q,
          st_backlog := fq_queue q\<rparr>)
       = st\<lparr>st_sources := fq_active_sources (snd (pop_nal_unit q)),
            st_bound := fq_max_queue_size (snd (pop_nal_unit q)),
            st_backlog := fq_queue (snd (pop_nal_unit q))\<rparr>" if "fq_valid q" for st q
  proof (cases "fq_queue q")
    case (Cons au aus)
    with that have "au \<noteq> []" by (auto simp: fq_valid_def)
    with Cons show ?thesis by (simp add: spec_read_def pop_nal_unit_def)
  qed (simp add: spec_read_def pop_nal_unit_def)
  show ?thesis
    using ReadNal assms(2) abs_upd_queue [OF assms(1), of spec_read "\<lambda>q. snd (pop_nal_unit q)" type, OF read]
    by auto
next
  case (Connect type i)
  then show ?thesis
    using assms(2) abs_upd_queue [OF assms(1), of "\<lambda>st. st\<lparr>st_sources := st_sources st @ [i]\<rparr>" "register_source i" type]
    by (auto simp: register_source_def)
next
  case (Disconnect type i)
  then show ?thesis
    using assms(2) abs_upd_queue [OF assms(1), of "\<lambda>st. st\<lparr>st_sources := remove1 i (st_sources st)\<rparr>"
        "unregister_source i" type]
    by (auto simp: unregister_source_def)
qed (use assms in \<open>auto simp: abs_stop abs_add_stream abs_remove_stream intro: abs_start abs_on_frame
       simp del: spec_step.simps\<close>)

text \<open>A simulation of single steps is one of runs.\<close>

lemma srv_run_refines:
  "srv_inv s \<Longrightarrow> srv_clean s \<Longrightarrow> (\<And>x. x \<in> set xs \<Longrightarrow> op_ok x) \<Longrightarrow>
     \<exists>s'. srv_run xs s = Inr s' \<and> srv_inv s' \<and> abs_srv s' = fold spec_step xs (abs_srv s)"
proof (induction xs arbitrary: s)
  case (Cons x xs)
  then obtain s1 where s1: "srv_step x s = Inr s1" "srv_inv s1" "srv_clean s1"
    using srv_step_inv [of s x] by auto
  with Cons.prems have "abs_srv s1 = spec_step x (abs_srv s)" by (intro srv_step_refines) simp_all
  moreover have "\<exists>s'. srv_run xs s1 = Inr s' \<and> srv_inv s' \<and> abs_srv s' = fold spec_step xs (abs_srv s1)"
    using Cons.prems(3) by (intro Cons.IH s1) simp
  ultimately show ?case using s1(1) by simp
qed simp

lemmas new_server_run_refines = srv_run_refines [OF new_server_inv new_server_clean, unfolded abs_srv_init]

section \<open>Where a backlog comes from\<close>

text \<open>
  A backlog made from a list of frames: one access unit per frame, of which the first NAL units may
  have been sent.
\<close>

definition access_unit :: "CodecType \<Rightarrow> StreamFrame \<Rightarrow> RtspNalUnit list" where
  "access_unit codec f =
     map (nal_unit_of (sf_timestamp f)) (frame_nals codec (sf_timestamp f) (is_idr f) (frame_packs f))"

definition backlog_from :: "StreamFrame list \<Rightarrow> spec_stream \<Rightarrow> bool" where
  "backlog_from fs st \<longleftrightarrow> list_all2 (\<lambda>au f. suffix au (access_unit (st_codec st) f)) (st_backlog st) fs"

lemma access_unit_data:
  "map nu_data (access_unit codec f) = concat (map annexb_payloads (map pack_bytes (frame_packs f)))"
  by (simp add: access_unit_def frame_nals_def nal_unit_of_def map_concat o_def)

lemma backlog_from_deliver:
  assumes "backlog_from fs st"
  obtains fs' where "subseq fs' (fs @ [f])" "backlog_from fs' (spec_deliver f st)"
proof (cases "st_sources st = [] \<or> frame_nals (st_codec st) (sf_timestamp f) (is_idr f) (frame_packs f) = []")
  case True
  then have "backlog_from fs (spec_deliver f st)"
    using assms by (auto simp: backlog_from_def spec_deliver_def Let_def)
  moreover have "subseq fs (fs @ [f])" by (rule list_emb_prefix) simp
  ultimately show thesis by (rule that [rotated])
next
  case False
  let ?fs = "if length (st_backlog st) < st_bound st then fs else tl fs"
  have "list_all2 R (tl xs) (tl ys)" if "list_all2 R xs ys" for R :: "'x \<Rightarrow> 'y \<Rightarrow> bool" and xs ys
    using that by (cases xs; cases ys) auto
  with False assms have "backlog_from (?fs @ [f]) (spec_deliver f st)"
    by (auto simp: backlog_from_def spec_deliver_def Let_def access_unit_def intro!: list_all2_appendI)
  then show thesis by (rule that [rotated]) (auto intro: list_emb_append_mono)
qed

lemma backlog_from_read:
  assumes "backlog_from fs st"
  obtains fs' where "subseq fs' fs" "backlog_from fs' (spec_read st)"
proof (cases "st_backlog st")
  case Nil
  with assms that [of fs] show thesis by (simp add: backlog_from_def spec_read_def)
next
  case (Cons au aus)
  with assms obtain f fs1 where fs: "fs = f # fs1" "suffix au (access_unit (st_codec st) f)"
    "list_all2 (\<lambda>au f. suffix au (access_unit (st_codec st) f)) aus fs1"
    by (auto simp: backlog_from_def list_all2_Cons1)
  show thesis
  proof (cases "tl au = []")
    case True
    have "subseq fs1 fs" using fs(1) by (simp add: list_emb_Cons)
    with True Cons fs that [of fs1] show thesis by (simp add: backlog_from_def spec_read_def)
  next
    case False
    have "suffix (tl au) (access_unit (st_codec st) f)"
      using fs(2) by (metis suffix_order.trans suffix_tl)
    with False Cons fs that [of fs] show thesis by (simp add: backlog_from_def spec_read_def)
  qed
qed

text \<open>Operations other than frames only take from a backlog.\<close>

lemma backlog_from_step:
  assumes "sp_streams (spec_step x \<sigma>) type = Some st'" and "\<And>now f. x \<noteq> OnFrame now f"
    and "\<And>st. sp_streams \<sigma> type = Some st \<Longrightarrow> backlog_from fs st"
  obtains fs' where "subseq fs' fs" "backlog_from fs' st'"
proof (cases x)
  case (AddStream type' name ok)
  with assms that show thesis
    by (cases "st_backlog st' = []") (fastforce simp: backlog_from_def spec_new_stream_def split: if_splits option.splits)+
next
  case (ReadNal type')
  show thesis
  proof (cases "type' = type")
    case True
    with ReadNal assms(1) obtain st where st: "sp_streams \<sigma> type = Some st" "st' = spec_read st"
      by (auto simp: on_stream_def)
    with assms(3) that show thesis by (metis backlog_from_read)
  next
    case False
    with ReadNal assms that [of fs] show thesis by (simp add: on_stream_def)
  qed
qed (use assms that [of fs] in \<open>auto simp: on_stream_def backlog_from_def split: if_splits\<close>)

section \<open>Streams are independent\<close>

text \<open>The stream an operation is about; \<open>start\<close> and \<open>stop\<close> are about all of them.\<close>

fun op_stream :: "srv_op \<Rightarrow> StreamType option" where
  "op_stream (Start port a b c) = None"
| "op_stream Stop = None"
| "op_stream (AddStream type name ok) = Some type"
| "op_stream (RemoveStream type) = Some type"
| "op_stream (OnFrame now f) = Some (sf_type f)"
| "op_stream (Connect type i) = Some type"
| "op_stream (Disconnect type i) = Some type"
| "op_stream (ReadNal type) = Some type"

definition concerns :: "StreamType \<Rightarrow> srv_op \<Rightarrow> bool" where
  "concerns type x \<longleftrightarrow> op_stream x \<in> {None, Some type}"

text \<open>Two servers that look the same to the clients of one stream.\<close>

definition same_at :: "StreamType \<Rightarrow> spec_server \<Rightarrow> spec_server \<Rightarrow> bool" where
  "same_at type \<sigma> \<tau> \<longleftrightarrow>
     sp_running \<sigma> = sp_running \<tau> \<and> sp_config \<sigma> = sp_config \<tau> \<and> sp_streams \<sigma> type = sp_streams \<tau> type"

lemma spec_step_other:
  "\<not> concerns type x \<Longrightarrow> same_at type (spec_step x \<sigma>) \<sigma>"
  by (cases x) (auto simp: concerns_def same_at_def on_stream_def split: option.splits)

lemma spec_step_cong:
  assumes "concerns type x" and "same_at type \<sigma> \<tau>"
  shows "same_at type (spec_step x \<sigma>) (spec_step x \<tau>)"
  using assms by (cases x) (auto simp: concerns_def same_at_def on_stream_def split: option.splits)

lemma same_at_trans: "same_at type \<rho> \<sigma> \<Longrightarrow> same_at type \<sigma> \<tau> \<Longrightarrow> same_at type \<rho> \<tau>"
  by (simp add: same_at_def)

lemma spec_run_purge:
  "same_at type \<sigma> \<tau> \<Longrightarrow>
     same_at type (fold spec_step xs \<sigma>) (fold spec_step (filter (concerns type) xs) \<tau>)"
proof (induction xs arbitrary: \<sigma> \<tau>)
  case (Cons x xs)
  then show ?case
    by (auto intro: Cons.IH spec_step_cong same_at_trans [OF spec_step_other])
qed simp

lemma spec_run_schedule:
  assumes "\<And>type. filter (concerns type) xs = filter (concerns type) ys"
  shows "fold spec_step xs \<sigma> = fold spec_step ys \<sigma>"
proof -
  have "same_at type (fold spec_step xs \<sigma>) (fold spec_step ys \<sigma>)" for type
  proof -
    have "same_at type \<sigma> \<sigma>" by (simp add: same_at_def)
    then show ?thesis
      using spec_run_purge [of type \<sigma> \<sigma> xs] spec_run_purge [of type \<sigma> \<sigma> ys] assms [of type]
      by (simp add: same_at_def)
  qed
  then show ?thesis by (auto simp: same_at_def fun_eq_iff)
qed

section \<open>Properties\<close>



text \<open>
  C9: streams do not interfere: what a stream's clients can see (its session, codec, parameter
  sets, sources and queue) after any sequence of operations is what they would see had the
  operations on every other stream never happened.
\<close>

theorem server_streams_isolated:
  assumes "\<And>x. x \<in> set xs \<Longrightarrow> op_ok x"
  shows "\<exists>s s'. srv_run xs new_server = Inr s \<and> srv_run (filter (concerns type) xs) new_server = Inr s'
    \<and> abs_stream s type = abs_stream s' type"
proof -
  obtain s where s: "srv_run xs new_server = Inr s" "abs_srv s = fold spec_step xs spec_init"
    using new_server_run_refines [OF assms] by blast
  obtain s' where s': "srv_run (filter (concerns type) xs) new_server = Inr s'"
    "abs_srv s' = fold spec_step (filter (concerns type) xs) spec_init"
    using new_server_run_refines [of "filter (concerns type) xs"] assms by auto
  have "same_at type (abs_srv s) (abs_srv s')"
    unfolding s(2) s'(2) by (rule spec_run_purge) (simp add: same_at_def)
  with s(1) s'(1) show ?thesis by (auto simp: same_at_def abs_srv_def)
qed

definition two_streams :: "srv_op list" where
  "two_streams = [Start 8554 True True True, AddStream VIDEO_MAIN ''main'' True,
     AddStream VIDEO_SUB ''sub'' True, Connect VIDEO_MAIN 0, OnFrame 0 demo_frame, RemoveStream VIDEO_SUB]"

lemma two_streams_ok: "x \<in> set two_streams \<Longrightarrow> op_ok x"
  by (auto simp: two_streams_def demo_frame_wf)

lemma two_streams_main:
  "filter (concerns VIDEO_MAIN) two_streams = [Start 8554 True True True, AddStream VIDEO_MAIN ''main'' True,
     Connect VIDEO_MAIN 0, OnFrame 0 demo_frame]"
  by (simp add: two_streams_def concerns_def) (simp add: demo_frame_def)

theorem server_streams_isolated_witness:
  "\<exists>s s'. srv_run two_streams new_server = Inr s
     \<and> srv_run [Start 8554 True True True, AddStream VIDEO_MAIN ''main'' True, Connect VIDEO_MAIN 0,
          OnFrame 0 demo_frame] new_server = Inr s'
     \<and> abs_stream s VIDEO_MAIN = abs_stream s' VIDEO_MAIN"
  using server_streams_isolated [of two_streams VIDEO_MAIN, OF two_streams_ok]
  unfolding two_streams_main by blast

text \<open>
  C10: the result does not depend on how the threads of the streams are scheduled: two interleavings
  that keep the order of the operations of each stream (and of starts and stops) leave servers that
  no client can tell apart.
\<close>

theorem server_schedule_independent:
  assumes "\<And>x. x \<in> set xs \<Longrightarrow> op_ok x" and "\<And>y. y \<in> set ys \<Longrightarrow> op_ok y"
    and "\<And>type. filter (concerns type) xs = filter (concerns type) ys"
  shows "\<exists>s s'. srv_run xs new_server = Inr s \<and> srv_run ys new_server = Inr s' \<and> abs_srv s = abs_srv s'"
  using new_server_run_refines [OF assms(1)] new_server_run_refines [OF assms(2)]
    spec_run_schedule [OF assms(3), of spec_init] by metis

definition two_streams_later :: "srv_op list" where
  "two_streams_later = [Start 8554 True True True, AddStream VIDEO_SUB ''sub'' True, RemoveStream VIDEO_SUB,
     AddStream VIDEO_MAIN ''main'' True, Connect VIDEO_MAIN 0, OnFrame 0 demo_frame]"

theorem server_schedule_independent_witness:
  "\<exists>s s'. srv_run two_streams new_server = Inr s \<and> srv_run two_streams_later new_server = Inr s'
     \<and> abs_srv s = abs_srv s'"
proof (rule server_schedule_independent [OF two_streams_ok])
  show "op_ok y" if "y \<in> set two_streams_later" for y
    using that by (auto simp: two_streams_later_def demo_frame_wf)
  have "sf_type demo_frame = VIDEO_MAIN" by (simp add: demo_frame_def)
  then show "filter (concerns type) two_streams = filter (concerns type) two_streams_later" for type
    by (cases type) (simp_all add: two_streams_def two_streams_later_def concerns_def)
qed

end
