(* ===== verification/Stream_Distributor.thy ===== *)
theory Stream_Distributor
  imports Bounded_Buffer Stream_Frame
begin

text \<open>
  \<open>modules/stream/src/stream_distributor.cpp\<close>: one distributor per encoder channel hands every
  frame to the bounded queue of every registered consumer; one worker thread per consumer calls
  the consumer's callback.  The atomic actions of the threads (critical sections of the mutexes,
  the single atomic loads and stores, the condition-variable operations) are the cases of
  \<open>dist_step\<close>; every interleaving of them is a run.  The frame type is a parameter: the
  distributor only moves \<open>shared_ptr\<close>s around.

  A slot is an object behind a \<open>shared_ptr\<close>: \<open>d_heap\<close> holds every slot ever created at its
  address and \<open>d_slots\<close> the addresses in the vector \<open>slots_\<close>.  The fields \<open>sl_pushed\<close>,
  \<open>sl_taken\<close>, \<open>sl_cleared\<close> and \<open>sl_failed\<close> are history for the properties; no operation
  reads them.
\<close>

section \<open>State\<close>

record ConsumerConfig =
  cfg_max_queue_size :: nat
  cfg_thread_priority :: int

text \<open>
  The places of a worker between its atomic actions.  From \<open>WLocked\<close> to \<open>WBlock\<close> and from
  \<open>WCheck\<close> to \<open>WPop\<close> it holds the slot's mutex.
\<close>

datatype 'f worker =
    WLoop       \<comment> \<open>before the test of the \<open>while\<close>\<close>
  | WLock       \<comment> \<open>about to lock the slot's mutex\<close>
  | WLocked     \<comment> \<open>mutex held, about to evaluate the predicate of \<open>cv.wait\<close>\<close>
  | WBlock      \<comment> \<open>predicate was false, about to block\<close>
  | WWait       \<comment> \<open>blocked on the condition variable, mutex released\<close>
  | WCheck      \<comment> \<open>\<open>wait\<close> returned, about to test \<open>running\<close>\<close>
  | WPop        \<comment> \<open>about to read and pop the front of the queue\<close>
  | WBusy 'f    \<comment> \<open>in the callback\<close>
  | WDone       \<comment> \<open>the thread function returned\<close>
  | WCrash      \<comment> \<open>\<open>front\<close> of an empty queue: undefined\<close>

record 'f ConsumerSlot =
  sl_consumer_id :: u32
  sl_queue :: "'f list"
  sl_max_queue_size :: nat
  sl_worker :: "'f worker"
  sl_config :: ConsumerConfig
  sl_running :: bool
  sl_dropped :: u64
  sl_consumed :: u64
  sl_pushed :: "'f list"
  sl_taken :: "'f list"
  sl_cleared :: nat
  sl_failed :: nat

text \<open>
  A thread inside \<open>push\<close>: the addresses of its snapshot still to serve, and possibly one slot it
  has pushed to and not yet notified.
\<close>

datatype 'f pusher = Pushing 'f "nat list" | Notifying 'f nat "nat list"

text \<open>
  A thread that shuts workers down: in \<open>remove_consumer\<close> (one slot, the flag is set: the queue
  is cleared after the join) or in the destructor (all slots).
\<close>

datatype shutdown =
    ShStore nat "nat list" bool
  | ShNotify nat "nat list" bool
  | ShJoin nat "nat list" bool
  | ShClear nat

record 'f dist =
  d_channel :: VencChannel
  d_heap :: "'f ConsumerSlot list"
  d_slots :: "nat list"
  d_next_consumer_id :: u32
  d_push :: "nat \<rightharpoonup> 'f pusher"
  d_shut :: "nat \<rightharpoonup> shutdown"

definition new_distributor :: "VencChannel \<Rightarrow> 'f dist" where
  "new_distributor chn =
     \<lparr>d_channel = chn, d_heap = [], d_slots = [], d_next_consumer_id = 0,
      d_push = Map.empty, d_shut = Map.empty\<rparr>"

section \<open>Operations on one slot\<close>

definition slot_push :: "'f \<Rightarrow> 'f ConsumerSlot \<Rightarrow> 'f ConsumerSlot" where
  "slot_push frame s =
     (let s = (if sl_max_queue_size s \<le> length (sl_queue s)
               then s\<lparr>sl_queue := tl (sl_queue s), sl_dropped := sl_dropped s + 1\<rparr>
               else s)
      in s\<lparr>sl_queue := sl_queue s @ [frame], sl_pushed := sl_pushed s @ [frame]\<rparr>)"

text \<open>\<open>notify_one\<close> and \<open>notify_all\<close>: a slot's condition variable has one waiter at most.\<close>

definition slot_notify :: "'f ConsumerSlot \<Rightarrow> 'f ConsumerSlot" where
  "slot_notify s = (if sl_worker s = WWait then s\<lparr>sl_worker := WLock\<rparr> else s)"

definition slot_clear :: "'f ConsumerSlot \<Rightarrow> 'f ConsumerSlot" where
  "slot_clear s = s\<lparr>sl_queue := [], sl_cleared := sl_cleared s + length (sl_queue s)\<rparr>"

text \<open>
  One action of \<open>worker_func\<close>; \<open>None\<close> when the thread cannot act by itself (it is blocked, in
  the callback, or has ended).
\<close>

definition worker_func :: "'f ConsumerSlot \<Rightarrow> 'f ConsumerSlot option" where
  "worker_func s =
     (case sl_worker s of
        WLoop \<Rightarrow> Some (s\<lparr>sl_worker := if sl_running s then WLock else WDone\<rparr>)
      | WLock \<Rightarrow> Some (s\<lparr>sl_worker := WLocked\<rparr>)
      | WLocked \<Rightarrow> Some (s\<lparr>sl_worker := if sl_queue s \<noteq> [] \<or> \<not> sl_running s then WCheck else WBlock\<rparr>)
      | WBlock \<Rightarrow> Some (s\<lparr>sl_worker := WWait\<rparr>)
      | WCheck \<Rightarrow> Some (s\<lparr>sl_worker := if \<not> sl_running s then WDone else WPop\<rparr>)
      | WPop \<Rightarrow>
          (case sl_queue s of
             [] \<Rightarrow> Some (s\<lparr>sl_worker := WCrash\<rparr>)
           | f # q \<Rightarrow> Some (s\<lparr>sl_queue := q, sl_worker := WBusy f, sl_taken := sl_taken s @ [f]\<rparr>))
      | _ \<Rightarrow> None)"

text \<open>The callback returns, or throws a \<open>std::exception\<close> that is caught and logged.\<close>

definition callback_end :: "bool \<Rightarrow> 'f ConsumerSlot \<Rightarrow> 'f ConsumerSlot option" where
  "callback_end threw s =
     (case sl_worker s of
        WBusy f \<Rightarrow>
          Some (if threw then s\<lparr>sl_worker := WLoop, sl_failed := sl_failed s + 1\<rparr>
                else s\<lparr>sl_worker := WLoop, sl_consumed := sl_consumed s + 1\<rparr>)
      | _ \<Rightarrow> None)"

text \<open>The mutex of a slot is free for the other threads.\<close>

definition mutex_free :: "'f ConsumerSlot \<Rightarrow> bool" where
  "mutex_free s \<longleftrightarrow> sl_worker s \<notin> {WLocked, WBlock, WCheck, WPop}"

section \<open>Operations on the distributor\<close>

definition upd_slot :: "nat \<Rightarrow> ('f ConsumerSlot \<Rightarrow> 'f ConsumerSlot) \<Rightarrow> 'f dist \<Rightarrow> 'f dist" where
  "upd_slot a g d = d\<lparr>d_heap := (d_heap d)[a := g (d_heap d ! a)]\<rparr>"

definition add_consumer :: "ConsumerConfig \<Rightarrow> 'f dist \<Rightarrow> u32 \<times> 'f dist" where
  "add_consumer config d =
     (let cid = d_next_consumer_id d;
          max = cfg_max_queue_size config;
          max = (if max = 0 then 1 else max);
          slot = \<lparr>sl_consumer_id = cid, sl_queue = [], sl_max_queue_size = max, sl_worker = WLoop,
                  sl_config = config, sl_running = True, sl_dropped = 0, sl_consumed = 0,
                  sl_pushed = [], sl_taken = [], sl_cleared = 0, sl_failed = 0\<rparr>
      in (cid, d\<lparr>d_next_consumer_id := cid + 1, d_heap := d_heap d @ [slot],
                 d_slots := d_slots d @ [length (d_heap d)]\<rparr>))"

text \<open>The first critical section of \<open>remove_consumer\<close>: an unknown id returns at once.\<close>

definition remove_consumer :: "nat \<Rightarrow> u32 \<Rightarrow> 'f dist \<Rightarrow> 'f dist" where
  "remove_consumer t cid d =
     (case find (\<lambda>a. sl_consumer_id (d_heap d ! a) = cid) (d_slots d) of
        None \<Rightarrow> d
      | Some a \<Rightarrow> d\<lparr>d_slots := remove1 a (d_slots d), d_shut := (d_shut d)(t \<mapsto> ShStore a [] True)\<rparr>)"

definition shut_next :: "nat list \<Rightarrow> shutdown option" where
  "shut_next as = (case as of [] \<Rightarrow> None | a # as \<Rightarrow> Some (ShStore a as False))"

definition destroy :: "nat \<Rightarrow> 'f dist \<Rightarrow> 'f dist" where
  "destroy t d = d\<lparr>d_slots := [], d_shut := (d_shut d)(t := shut_next (d_slots d))\<rparr>"

text \<open>
  The rest of a shutdown: store \<open>running\<close>, \<open>notify_all\<close>, \<open>join\<close> (enabled once the worker has
  ended), and for \<open>remove_consumer\<close> the clearing of the queue under its mutex.
\<close>

definition shut_step :: "nat \<Rightarrow> 'f dist \<Rightarrow> 'f dist option" where
  "shut_step t d =
     (case d_shut d t of
        None \<Rightarrow> None
      | Some (ShStore a as c) \<Rightarrow>
          Some ((upd_slot a (\<lambda>s. s\<lparr>sl_running := False\<rparr>) d)\<lparr>d_shut := (d_shut d)(t \<mapsto> ShNotify a as c)\<rparr>)
      | Some (ShNotify a as c) \<Rightarrow>
          Some ((upd_slot a slot_notify d)\<lparr>d_shut := (d_shut d)(t \<mapsto> ShJoin a as c)\<rparr>)
      | Some (ShJoin a as c) \<Rightarrow>
          if sl_worker (d_heap d ! a) = WDone
          then Some (d\<lparr>d_shut := (d_shut d)(t := if c then Some (ShClear a) else shut_next as)\<rparr>)
          else None
      | Some (ShClear a) \<Rightarrow>
          if mutex_free (d_heap d ! a)
          then Some ((upd_slot a slot_clear d)\<lparr>d_shut := (d_shut d)(t := None)\<rparr>)
          else None)"

definition push_begin :: "nat \<Rightarrow> 'f \<Rightarrow> 'f dist \<Rightarrow> 'f dist" where
  "push_begin t frame d = d\<lparr>d_push := (d_push d)(t \<mapsto> Pushing frame (d_slots d))\<rparr>"

definition push_step :: "nat \<Rightarrow> 'f dist \<Rightarrow> 'f dist option" where
  "push_step t d =
     (case d_push d t of
        None \<Rightarrow> None
      | Some (Pushing frame []) \<Rightarrow> Some (d\<lparr>d_push := (d_push d)(t := None)\<rparr>)
      | Some (Pushing frame (a # as)) \<Rightarrow>
          if mutex_free (d_heap d ! a)
          then Some ((upd_slot a (slot_push frame) d)\<lparr>d_push := (d_push d)(t \<mapsto> Notifying frame a as)\<rparr>)
          else None
      | Some (Notifying frame a as) \<Rightarrow>
          Some ((upd_slot a slot_notify d)\<lparr>d_push := (d_push d)(t \<mapsto> Pushing frame as)\<rparr>))"

section \<open>Interleavings\<close>

text \<open>\<open>SpuriousWakeup\<close> is the liberty that the standard gives \<open>condition_variable::wait\<close>.\<close>

datatype 'f action =
    AddConsumer ConsumerConfig
  | RemoveConsumer nat u32
  | Destroy nat
  | ShutStep nat
  | PushBegin nat 'f
  | PushStep nat
  | WorkerStep nat
  | CallbackEnd nat bool
  | SpuriousWakeup nat

fun dist_step :: "'f action \<Rightarrow> 'f dist \<Rightarrow> 'f dist option" where
  "dist_step (AddConsumer config) d = Some (snd (add_consumer config d))"
| "dist_step (RemoveConsumer t cid) d =
     (if d_shut d t = None then Some (remove_consumer t cid d) else None)"
| "dist_step (Destroy t) d = (if d_shut d t = None then Some (destroy t d) else None)"
| "dist_step (ShutStep t) d = shut_step t d"
| "dist_step (PushBegin t f) d = (if d_push d t = None then Some (push_begin t f d) else None)"
| "dist_step (PushStep t) d = push_step t d"
| "dist_step (WorkerStep a) d =
     (if a < length (d_heap d)
      then map_option (\<lambda>s. upd_slot a (\<lambda>_. s) d) (worker_func (d_heap d ! a)) else None)"
| "dist_step (CallbackEnd a threw) d =
     (if a < length (d_heap d)
      then map_option (\<lambda>s. upd_slot a (\<lambda>_. s) d) (callback_end threw (d_heap d ! a)) else None)"
| "dist_step (SpuriousWakeup a) d =
     (if a < length (d_heap d) \<and> sl_worker (d_heap d ! a) = WWait
      then Some (upd_slot a slot_notify d) else None)"

fun dist_run :: "'f action list \<Rightarrow> 'f dist \<Rightarrow> 'f dist option" where
  "dist_run [] d = Some d"
| "dist_run (x # xs) d = (case dist_step x d of None \<Rightarrow> None | Some d' \<Rightarrow> dist_run xs d')"

inductive dist_reachable :: "'f dist \<Rightarrow> bool" where
  dist_init: "dist_reachable (new_distributor chn)"
| dist_next: "dist_reachable d \<Longrightarrow> dist_step x d = Some d' \<Longrightarrow> dist_reachable d'"

lemma dist_run_reachable: "dist_run xs d = Some d' \<Longrightarrow> dist_reachable d \<Longrightarrow> dist_reachable d'"
  by (induction xs arbitrary: d) (auto split: option.splits intro: dist_next)

section \<open>Invariant of a slot\<close>

fun worker_inv :: "'f worker \<Rightarrow> 'f list \<Rightarrow> bool \<Rightarrow> bool" where
  "worker_inv WBlock q running = (q = [])"
| "worker_inv WCheck q running = (q \<noteq> [] \<or> \<not> running)"
| "worker_inv WPop q running = (q \<noteq> [])"
| "worker_inv WCrash q running = False"
| "worker_inv _ q running = True"

definition slot_bounded :: "'f ConsumerSlot \<Rightarrow> bool" where
  "slot_bounded s \<longleftrightarrow> 0 < sl_max_queue_size s \<and> length (sl_queue s) \<le> sl_max_queue_size s"

text \<open>
  The queue holds the newest pushed frames, and what the worker took is an ordered selection of
  the older ones; the counters account for every frame.
\<close>

definition slot_history :: "'f ConsumerSlot \<Rightarrow> bool" where
  "slot_history s \<longleftrightarrow>
     (\<exists>old. sl_pushed s = old @ sl_queue s \<and> subseq (sl_taken s) old)"

definition busy :: "'f ConsumerSlot \<Rightarrow> nat" where
  "busy s = (case sl_worker s of WBusy _ \<Rightarrow> 1 | _ \<Rightarrow> 0)"

definition slot_counts :: "'f ConsumerSlot \<Rightarrow> bool" where
  "slot_counts s \<longleftrightarrow>
     (word_of_nat (length (sl_pushed s)) :: u64)
       = sl_dropped s + word_of_nat (length (sl_taken s) + length (sl_queue s) + sl_cleared s)
   \<and> (word_of_nat (length (sl_taken s)) :: u64) = sl_consumed s + word_of_nat (sl_failed s + busy s)"

definition slot_inv :: "'f ConsumerSlot \<Rightarrow> bool" where
  "slot_inv s \<longleftrightarrow>
     slot_bounded s \<and> slot_history s \<and> slot_counts s \<and> worker_inv (sl_worker s) (sl_queue s) (sl_running s)"

lemmas slot_inv_defs = slot_inv_def slot_bounded_def slot_history_def slot_counts_def

lemma worker_inv_mutex_free:
  "worker_inv w q r \<Longrightarrow> w \<notin> {WLocked, WBlock, WCheck, WPop} \<Longrightarrow> worker_inv w q' r'"
  by (cases w) auto

lemma slot_push_fields [simp]:
  "sl_worker (slot_push f s) = sl_worker s" "sl_running (slot_push f s) = sl_running s"
  "sl_max_queue_size (slot_push f s) = sl_max_queue_size s" "sl_taken (slot_push f s) = sl_taken s"
  "sl_consumer_id (slot_push f s) = sl_consumer_id s" "sl_pushed (slot_push f s) = sl_pushed s @ [f]"
  "sl_queue (slot_push f s) \<noteq> []"
  by (simp_all add: slot_push_def Let_def)

lemma slot_push_queue [queue_simps]:
  "sl_queue (slot_push f s) =
     (if length (sl_queue s) < sl_max_queue_size s then sl_queue s else tl (sl_queue s)) @ [f]"
  by (simp add: slot_push_def Let_def)

interpretation slot: drop_oldest slot_push sl_queue sl_max_queue_size slot_bounded "\<lambda>_. True"
  by unfold_locales (auto simp: slot_bounded_def queue_simps)

lemma slot_push_history:
  assumes "slot_history s" and "slot_bounded s"
  shows "slot_history (slot_push f s)"
proof -
  from assms(1) obtain old where old: "sl_pushed s = old @ sl_queue s" "subseq (sl_taken s) old"
    by (auto simp: slot_history_def)
  show ?thesis
  proof (cases "length (sl_queue s) < sl_max_queue_size s")
    case True
    with old show ?thesis by (simp add: slot_history_def queue_simps)
  next
    case False
    with assms(2) obtain g q where q: "sl_queue s = g # q"
      by (cases "sl_queue s") (auto simp: slot_bounded_def)
    have "subseq (sl_taken s) (old @ [g])" using old(2) by (rule list_emb_prefix)
    with old(1) q False show ?thesis
      unfolding slot_history_def by (intro exI [of _ "old @ [g]"]) (simp add: queue_simps)
  qed
qed

lemma slot_push_counts:
  assumes "slot_counts s" and "slot_bounded s"
  shows "slot_counts (slot_push f s)"
proof (cases "length (sl_queue s) < sl_max_queue_size s")
  case True
  with assms(1) show ?thesis by (simp add: slot_counts_def slot_push_def busy_def)
next
  case False
  with assms(2) obtain g q where q: "sl_queue s = g # q"
    by (cases "sl_queue s") (auto simp: slot_bounded_def)
  with assms(1) False show ?thesis
    by (simp add: slot_counts_def slot_push_def busy_def)
qed

lemma slot_push_inv [inv_intros]:
  assumes "slot_inv s" and "mutex_free s"
  shows "slot_inv (slot_push f s)"
proof -
  have "worker_inv (sl_worker s) (sl_queue (slot_push f s)) (sl_running s)"
    by (rule worker_inv_mutex_free [of _ "sl_queue s" "sl_running s"])
      (use assms in \<open>simp_all add: mutex_free_def slot_inv_def\<close>)
  with assms(1) show ?thesis
    by (simp add: slot_inv_def slot_push_history slot_push_counts slot.keeps_valid)
qed

text \<open>The three parts see only some fields; a busy worker counts as one.\<close>

lemma slot_parts_cong:
  "slot_history (s\<lparr>sl_worker := w\<rparr>) = slot_history s" "slot_bounded (s\<lparr>sl_worker := w\<rparr>) = slot_bounded s"
  "slot_history (s\<lparr>sl_running := r\<rparr>) = slot_history s" "slot_bounded (s\<lparr>sl_running := r\<rparr>) = slot_bounded s"
  "slot_counts (s\<lparr>sl_running := r\<rparr>) = slot_counts s"
  by (simp_all add: slot_history_def slot_bounded_def slot_counts_def busy_def)

lemma slot_counts_worker:
  "busy (s\<lparr>sl_worker := w\<rparr>) = busy s \<Longrightarrow> slot_counts (s\<lparr>sl_worker := w\<rparr>) = slot_counts s"
  by (simp add: slot_counts_def)

lemma slot_notify_inv [inv_intros]: "slot_inv s \<Longrightarrow> slot_inv (slot_notify s)"
  by (simp add: slot_notify_def slot_inv_def slot_parts_cong slot_counts_worker busy_def)

lemma slot_clear_inv [inv_intros]:
  assumes "slot_inv s" and "mutex_free s"
  shows "slot_inv (slot_clear s)"
proof -
  have "worker_inv (sl_worker s) [] (sl_running s)"
    by (rule worker_inv_mutex_free [of _ "sl_queue s" "sl_running s"])
      (use assms in \<open>simp_all add: mutex_free_def slot_inv_def\<close>)
  moreover from assms(1) obtain old where "sl_pushed s = old @ sl_queue s" "subseq (sl_taken s) old"
    by (auto simp: slot_inv_def slot_history_def)
  then have "slot_history (slot_clear s)"
    by (auto simp: slot_history_def slot_clear_def intro: list_emb_prefix)
  moreover have "slot_counts (slot_clear s)"
    using assms(1) by (simp add: slot_counts_def slot_inv_def slot_clear_def busy_def)
  ultimately show ?thesis
    using assms(1) by (simp add: slot_inv_def slot_bounded_def slot_clear_def)
qed

lemma slot_stop_inv [inv_intros]: "slot_inv s \<Longrightarrow> slot_inv (s\<lparr>sl_running := False\<rparr>)"
  by (cases "sl_worker s") (simp_all add: slot_inv_def slot_parts_cong)

lemma slot_pop_inv:
  assumes "slot_inv s" and "sl_worker s = WPop" and q: "sl_queue s = f # q"
  shows "slot_inv (s\<lparr>sl_queue := q, sl_worker := WBusy f, sl_taken := sl_taken s @ [f]\<rparr>)" (is "slot_inv ?s")
proof -
  from assms(1) obtain old where "sl_pushed s = old @ sl_queue s" "subseq (sl_taken s) old"
    by (auto simp: slot_inv_def slot_history_def)
  then have "slot_history ?s"
    unfolding slot_history_def by (intro exI [of _ "old @ [f]"]) (simp add: q subseq_snoc_mono)
  moreover have "slot_counts ?s" "slot_bounded ?s"
    using assms by (simp_all add: slot_inv_def slot_counts_def slot_bounded_def busy_def)
  ultimately show ?thesis by (simp add: slot_inv_def)
qed

lemma worker_func_inv [inv_intros]:
  assumes "slot_inv s" and "worker_func s = Some s'"
  shows "slot_inv s'"
proof (cases "sl_worker s")
  case WPop
  with assms(1) obtain f q where q: "sl_queue s = f # q"
    by (cases "sl_queue s") (auto simp: slot_inv_def)
  with assms WPop slot_pop_inv [OF assms(1) WPop q] show ?thesis
    by (simp add: worker_func_def)
next
  case WLoop
  with assms show ?thesis
    by (auto simp: worker_func_def slot_inv_def slot_parts_cong slot_counts_worker busy_def)
next
  case WLocked
  with assms show ?thesis
    by (auto simp: worker_func_def slot_inv_def slot_parts_cong slot_counts_worker busy_def)
next
  case WCheck
  with assms show ?thesis
    by (auto simp: worker_func_def slot_inv_def slot_parts_cong slot_counts_worker busy_def)
qed (use assms in \<open>auto simp: worker_func_def slot_inv_def slot_parts_cong slot_counts_worker busy_def\<close>)

lemma callback_end_inv [inv_intros]:
  assumes "slot_inv s" and "callback_end threw s = Some s'"
  shows "slot_inv s'"
proof -
  obtain f where f: "sl_worker s = WBusy f"
    using assms(2) by (cases "sl_worker s") (auto simp: callback_end_def)
  have s': "s' = (if threw then s\<lparr>sl_worker := WLoop, sl_failed := sl_failed s + 1\<rparr>
      else s\<lparr>sl_worker := WLoop, sl_consumed := sl_consumed s + 1\<rparr>)"
    using assms(2) by (simp add: callback_end_def f)
  have "slot_history s'" "slot_bounded s'"
    using assms(1) by (auto simp: s' slot_inv_def slot_history_def slot_bounded_def)
  moreover have "slot_counts s'"
    using assms(1) by (auto simp: s' slot_inv_def slot_counts_def busy_def f)
  ultimately show ?thesis by (simp add: slot_inv_def s')
qed

section \<open>Invariant of the distributor\<close>

fun pusher_addrs :: "'f pusher \<Rightarrow> nat list" where
  "pusher_addrs (Pushing f as) = as"
| "pusher_addrs (Notifying f a as) = a # as"

fun pusher_frame :: "'f pusher \<Rightarrow> 'f" where
  "pusher_frame (Pushing f as) = f"
| "pusher_frame (Notifying f a as) = f"

fun shut_addrs :: "shutdown \<Rightarrow> nat list" where
  "shut_addrs (ShStore a as c) = a # as"
| "shut_addrs (ShNotify a as c) = a # as"
| "shut_addrs (ShJoin a as c) = a # as"
| "shut_addrs (ShClear a) = [a]"

text \<open>Every address in use is one of a created slot, and a slot being shut down is unregistered.\<close>

definition addrs_ok :: "'f dist \<Rightarrow> bool" where
  "addrs_ok d \<longleftrightarrow>
     distinct (d_slots d) \<and> set (d_slots d) \<subseteq> {..<length (d_heap d)}
   \<and> (\<forall>t p. d_push d t = Some p \<longrightarrow> set (pusher_addrs p) \<subseteq> {..<length (d_heap d)})
   \<and> (\<forall>t h. d_shut d t = Some h \<longrightarrow>
        set (shut_addrs h) \<subseteq> {..<length (d_heap d)} - set (d_slots d))"

definition ids_ok :: "'f dist \<Rightarrow> bool" where
  "ids_ok d \<longleftrightarrow>
     d_next_consumer_id d = word_of_nat (length (d_heap d))
   \<and> (\<forall>a < length (d_heap d). sl_consumer_id (d_heap d ! a) = word_of_nat a)"

definition slots_ok :: "'f dist \<Rightarrow> bool" where
  "slots_ok d \<longleftrightarrow> (\<forall>a < length (d_heap d). slot_inv (d_heap d ! a))"

text \<open>A blocked worker with a non-empty queue has a notification on its way.\<close>

definition woken :: "'f dist \<Rightarrow> bool" where
  "woken d \<longleftrightarrow>
     (\<forall>a < length (d_heap d).
        sl_worker (d_heap d ! a) = WWait \<and> sl_queue (d_heap d ! a) \<noteq> [] \<longrightarrow>
        (\<exists>t f as. d_push d t = Some (Notifying f a as)))"

definition joined_ok :: "'f dist \<Rightarrow> bool" where
  "joined_ok d \<longleftrightarrow> (\<forall>t a. d_shut d t = Some (ShClear a) \<longrightarrow> sl_worker (d_heap d ! a) = WDone)"

definition dist_inv :: "'f dist \<Rightarrow> bool" where
  "dist_inv d \<longleftrightarrow> addrs_ok d \<and> ids_ok d \<and> slots_ok d \<and> woken d \<and> joined_ok d"

lemma upd_slot_fields [simp]:
  "length (d_heap (upd_slot a g d)) = length (d_heap d)" "d_slots (upd_slot a g d) = d_slots d"
  "d_push (upd_slot a g d) = d_push d" "d_shut (upd_slot a g d) = d_shut d"
  "d_next_consumer_id (upd_slot a g d) = d_next_consumer_id d"
  by (simp_all add: upd_slot_def)

lemma upd_slot_nth:
  "a < length (d_heap d) \<Longrightarrow>
     d_heap (upd_slot a g d) ! b = (if a = b then g (d_heap d ! a) else d_heap d ! b)"
  by (simp add: upd_slot_def nth_list_update)

lemma slot_op_fields [simp]:
  "sl_consumer_id (slot_notify s) = sl_consumer_id s" "sl_queue (slot_notify s) = sl_queue s"
  "sl_running (slot_notify s) = sl_running s"
  "sl_worker (slot_notify s) = (if sl_worker s = WWait then WLock else sl_worker s)"
  "sl_consumer_id (slot_clear s) = sl_consumer_id s" "sl_queue (slot_clear s) = []"
  "sl_worker (slot_clear s) = sl_worker s" "sl_running (slot_clear s) = sl_running s"
  by (auto simp: slot_notify_def slot_clear_def)

lemma worker_func_fields:
  assumes "worker_func s = Some s'"
  shows "sl_consumer_id s' = sl_consumer_id s" and "sl_worker s \<noteq> WDone"
    and "sl_worker s' = WWait \<Longrightarrow> sl_worker s = WBlock \<and> sl_queue s' = sl_queue s"
    and "sl_running s' = sl_running s"
  using assms by (auto simp: worker_func_def split: worker.splits list.splits if_splits)

lemma callback_end_fields:
  assumes "callback_end threw s = Some s'"
  shows "sl_consumer_id s' = sl_consumer_id s" and "sl_worker s \<noteq> WDone" and "sl_worker s' = WLoop"
    and "sl_running s' = sl_running s"
  using assms by (auto simp: callback_end_def split: worker.splits if_splits)

lemma shut_next_addrs: "shut_next as = Some h \<Longrightarrow> set (shut_addrs h) = set as \<and> (\<forall>a. h \<noteq> ShClear a)"
  by (cases as) (auto simp: shut_next_def)

subsection \<open>The actions, one by one\<close>

lemma dist_step_cases:
  assumes "dist_step x d = Some d'"
  obtains
    (add) config where "x = AddConsumer config" "d' = snd (add_consumer config d)"
  | (remove) t cid where "d_shut d t = None" "d' = remove_consumer t cid d"
  | (destroy) t where "d_shut d t = None" "d' = destroy t d"
  | (store) t a as c where "d_shut d t = Some (ShStore a as c)"
      "d' = (upd_slot a (\<lambda>s. s\<lparr>sl_running := False\<rparr>) d)\<lparr>d_shut := (d_shut d)(t \<mapsto> ShNotify a as c)\<rparr>"
  | (notify) t a as c where "d_shut d t = Some (ShNotify a as c)"
      "d' = (upd_slot a slot_notify d)\<lparr>d_shut := (d_shut d)(t \<mapsto> ShJoin a as c)\<rparr>"
  | (join) t a as c where "d_shut d t = Some (ShJoin a as c)" "sl_worker (d_heap d ! a) = WDone"
      "d' = d\<lparr>d_shut := (d_shut d)(t := if c then Some (ShClear a) else shut_next as)\<rparr>"
  | (clear) t a where "d_shut d t = Some (ShClear a)" "mutex_free (d_heap d ! a)"
      "d' = (upd_slot a slot_clear d)\<lparr>d_shut := (d_shut d)(t := None)\<rparr>"
  | (snap) t f where "x = PushBegin t f" "d_push d t = None" "d' = push_begin t f d"
  | (finish) t f where "d_push d t = Some (Pushing f [])" "d' = d\<lparr>d_push := (d_push d)(t := None)\<rparr>"
  | (push) t f a as where "d_push d t = Some (Pushing f (a # as))" "mutex_free (d_heap d ! a)"
      "d' = (upd_slot a (slot_push f) d)\<lparr>d_push := (d_push d)(t \<mapsto> Notifying f a as)\<rparr>"
  | (wake) t f a as where "x = PushStep t" "d_push d t = Some (Notifying f a as)"
      "d' = (upd_slot a slot_notify d)\<lparr>d_push := (d_push d)(t \<mapsto> Pushing f as)\<rparr>"
  | (work) a s' where "x = WorkerStep a" "a < length (d_heap d)" "worker_func (d_heap d ! a) = Some s'"
      "d' = upd_slot a (\<lambda>_. s') d"
  | (return) a threw s' where "x = CallbackEnd a threw" "a < length (d_heap d)"
      "callback_end threw (d_heap d ! a) = Some s'" "d' = upd_slot a (\<lambda>_. s') d"
  | (spurious) a where "x = SpuriousWakeup a" "a < length (d_heap d)" "d' = upd_slot a slot_notify d"
proof (cases x)
  case (AddConsumer config)
  with assms that(1) show thesis by simp
next
  case (RemoveConsumer t cid)
  with assms show thesis by (intro that(2) [of t cid]) (auto split: if_splits)
next
  case (Destroy t)
  with assms that(3) show thesis by (simp split: if_splits)
next
  case (ShutStep t)
  with assms that(4-7) show thesis
    by (simp add: shut_step_def split: option.splits shutdown.splits if_splits)
next
  case (PushBegin t f)
  with assms that(8) show thesis by (simp split: if_splits)
next
  case (PushStep t)
  with assms that(9-11) show thesis
    by (simp add: push_step_def split: option.splits pusher.splits list.splits if_splits)
next
  case (WorkerStep a)
  with assms that(12) show thesis by (auto split: if_splits)
next
  case (CallbackEnd a threw)
  with assms that(13) show thesis by (auto split: if_splits)
next
  case (SpuriousWakeup a)
  with assms that(14) show thesis by (auto split: if_splits)
qed

lemma remove_consumer_cases:
  obtains (unknown) "remove_consumer t cid d = d"
  | (found) a where "a \<in> set (d_slots d)" "sl_consumer_id (d_heap d ! a) = cid"
      "remove_consumer t cid d =
         d\<lparr>d_slots := remove1 a (d_slots d), d_shut := (d_shut d)(t \<mapsto> ShStore a [] True)\<rparr>"
proof (cases "find (\<lambda>a. sl_consumer_id (d_heap d ! a) = cid) (d_slots d)")
  case None
  then show thesis by (intro unknown) (simp add: remove_consumer_def)
next
  case (Some a)
  then have "a \<in> set (d_slots d)" "sl_consumer_id (d_heap d ! a) = cid"
    by (auto simp: find_Some_iff)
  with Some show thesis by (intro found) (simp_all add: remove_consumer_def)
qed

text \<open>The addresses a pusher or a shutdown refers to, by its state.\<close>

lemma pusher_addr_bound:
  "addrs_ok d \<Longrightarrow> d_push d t = Some p \<Longrightarrow> a \<in> set (pusher_addrs p) \<Longrightarrow> a < length (d_heap d)"
  by (auto simp: addrs_ok_def)

lemma shut_addr_bound:
  "addrs_ok d \<Longrightarrow> d_shut d t = Some h \<Longrightarrow> a \<in> set (shut_addrs h) \<Longrightarrow>
     a < length (d_heap d) \<and> a \<notin> set (d_slots d)"
  by (metis (no_types) addrs_ok_def Diff_iff lessThan_iff subsetD)

text \<open>Where a pusher, a shutdown and a registered address come from.\<close>

lemma push_origin:
  assumes "dist_step x d = Some d'" and "d_push d' t = Some p"
  shows "(\<exists>p0. d_push d t = Some p0 \<and> pusher_frame p = pusher_frame p0 \<and> set (pusher_addrs p) \<subseteq> set (pusher_addrs p0))
    \<or> (\<exists>f. x = PushBegin t f \<and> p = Pushing f (d_slots d))"
  using assms(1)
  by (cases rule: dist_step_cases; use assms(2) in
      \<open>auto simp: add_consumer_def remove_consumer_def destroy_def push_begin_def Let_def
         split: if_splits option.splits\<close>)

lemma shut_origin:
  assumes "dist_step x d = Some d'" and "d_shut d' t = Some h"
  shows "(\<exists>h0. d_shut d t = Some h0 \<and> set (shut_addrs h) \<subseteq> set (shut_addrs h0))
    \<or> d_shut d t = None \<and> set (shut_addrs h) \<subseteq> set (d_slots d) \<and> (distinct (d_slots d) \<longrightarrow> set (shut_addrs h) \<inter> set (d_slots d') = {})"
  using assms(1)
proof (cases rule: dist_step_cases)
  case (remove t' cid)
  then show ?thesis
    using assms(2) by (cases rule: remove_consumer_cases [of t' cid d]) (auto split: if_splits)
qed (use assms(2) in \<open>auto simp: add_consumer_def destroy_def push_begin_def Let_def
       split: if_splits dest: shut_next_addrs\<close>)

lemma slots_origin:
  assumes "dist_step x d = Some d'" and "distinct (d_slots d)" and "set (d_slots d) \<subseteq> {..<length (d_heap d)}"
  shows "distinct (d_slots d')" and "set (d_slots d') \<subseteq> set (d_slots d) \<union> {length (d_heap d)..<length (d_heap d')}"
    and "length (d_heap d) \<le> length (d_heap d')"
  using assms(1)
  by (cases rule: dist_step_cases; use assms(2,3) in
      \<open>auto simp: add_consumer_def remove_consumer_def destroy_def push_begin_def Let_def
         dest: notin_set_remove1 split: option.splits\<close>)+

lemma addrs_ok_step:
  assumes ok: "addrs_ok d" and step: "dist_step x d = Some d'"
  shows "addrs_ok d'"
proof -
  have slots: "distinct (d_slots d)" "set (d_slots d) \<subseteq> {..<length (d_heap d)}"
    using ok by (simp_all add: addrs_ok_def)
  note new = slots_origin [OF step slots]
  have "a < length (d_heap d')" if "d_push d' t = Some p" "a \<in> set (pusher_addrs p)" for t p a
    using push_origin [OF step that(1)] that(2) slots(2) new(3) pusher_addr_bound [OF ok, of t _ a] by fastforce
  moreover have "a < length (d_heap d') \<and> a \<notin> set (d_slots d')" if "d_shut d' t = Some h" "a \<in> set (shut_addrs h)" for t h a
    using shut_origin [OF step that(1)] that(2) slots new(2,3) shut_addr_bound [OF ok, of t _ a] by fastforce
  moreover have "set (d_slots d') \<subseteq> {..<length (d_heap d')}" using new slots by fastforce
  ultimately show ?thesis using new(1) by (auto simp: addrs_ok_def)
qed

text \<open>What an action of any thread may do to one slot.\<close>

inductive slot_step :: "'f ConsumerSlot \<Rightarrow> 'f ConsumerSlot \<Rightarrow> bool" where
  slot_same: "slot_step s s"
| slot_stop: "slot_step s (s\<lparr>sl_running := False\<rparr>)"
| slot_notified: "slot_step s (slot_notify s)"
| slot_cleared: "mutex_free s \<Longrightarrow> slot_step s (slot_clear s)"
| slot_pushed: "mutex_free s \<Longrightarrow> slot_step s (slot_push f s)"
| slot_worked: "worker_func s = Some s' \<Longrightarrow> slot_step s s'"
| slot_returned: "callback_end threw s = Some s' \<Longrightarrow> slot_step s s'"

lemma slot_step_inv [inv_intros]: "slot_step s s' \<Longrightarrow> slot_inv s \<Longrightarrow> slot_inv s'"
  by (induction rule: slot_step.induct) (auto intro: inv_intros)

lemma slot_step_id: "slot_step s s' \<Longrightarrow> sl_consumer_id s' = sl_consumer_id s"
  by (induction rule: slot_step.induct) (auto dest: worker_func_fields callback_end_fields)

lemma slot_step_done: "slot_step s s' \<Longrightarrow> sl_worker s = WDone \<Longrightarrow> sl_worker s' = WDone"
  by (induction rule: slot_step.induct) (auto dest: worker_func_fields callback_end_fields)

lemma slot_step_stopped: "slot_step s s' \<Longrightarrow> \<not> sl_running s \<Longrightarrow> \<not> sl_running s'"
  by (induction rule: slot_step.induct) (auto dest: worker_func_fields callback_end_fields)

definition fresh_slot :: "ConsumerConfig \<Rightarrow> u32 \<Rightarrow> 'f ConsumerSlot" where
  "fresh_slot config cid =
     \<lparr>sl_consumer_id = cid, sl_queue = [],
      sl_max_queue_size = (if cfg_max_queue_size config = 0 then 1 else cfg_max_queue_size config),
      sl_worker = WLoop, sl_config = config, sl_running = True, sl_dropped = 0, sl_consumed = 0,
      sl_pushed = [], sl_taken = [], sl_cleared = 0, sl_failed = 0\<rparr>"

lemma fresh_slot_inv: "slot_inv (fresh_slot config cid)"
  by (simp add: fresh_slot_def slot_inv_defs busy_def)

lemma upd_slot_step:
  "a < length (d_heap d) \<Longrightarrow> slot_step (d_heap d ! a) (g (d_heap d ! a)) \<Longrightarrow>
     slot_step (d_heap d ! b) (d_heap (upd_slot a g d) ! b)"
  by (auto simp: upd_slot_nth slot_same)

lemma heap_step_slot:
  assumes ok: "addrs_ok d" and step: "dist_step x d = Some d'" and old: "\<And>config. x \<noteq> AddConsumer config"
  shows "slot_step (d_heap d ! b) (d_heap d' ! b)"
  using step
proof (cases rule: dist_step_cases)
  case (store t a as c)
  with shut_addr_bound [OF ok store(1), of a] show ?thesis by (simp add: upd_slot_step slot_stop)
next
  case (notify t a as c)
  with shut_addr_bound [OF ok notify(1), of a] show ?thesis by (simp add: upd_slot_step slot_notified)
next
  case (clear t a)
  with shut_addr_bound [OF ok clear(1), of a] show ?thesis by (simp add: upd_slot_step slot_cleared)
next
  case (push t f a as)
  with pusher_addr_bound [OF ok push(1), of a] show ?thesis by (simp add: upd_slot_step slot_pushed)
next
  case (wake t f a as)
  with pusher_addr_bound [OF ok wake(2), of a] show ?thesis by (simp add: upd_slot_step slot_notified)
next
  case (work a s')
  then show ?thesis by (auto intro: upd_slot_step slot_worked)
next
  case (return a threw s')
  then show ?thesis by (auto intro: upd_slot_step slot_returned)
next
  case (spurious a)
  then show ?thesis by (auto intro: upd_slot_step slot_notified)
qed (use old in \<open>auto simp: remove_consumer_def destroy_def push_begin_def slot_same split: option.splits\<close>)

lemma heap_step:
  assumes ok: "addrs_ok d" and step: "dist_step x d = Some d'"
  obtains (old) "length (d_heap d') = length (d_heap d)" "d_next_consumer_id d' = d_next_consumer_id d"
      "\<And>a. slot_step (d_heap d ! a) (d_heap d' ! a)"
  | (new) config where "d_heap d' = d_heap d @ [fresh_slot config (d_next_consumer_id d)]"
      "d_next_consumer_id d' = d_next_consumer_id d + 1" "d_push d' = d_push d" "d_shut d' = d_shut d"
proof (cases "\<exists>config. x = AddConsumer config")
  case True
  then obtain config where "x = AddConsumer config" by blast
  with step show thesis by (intro new [of config]) (auto simp: add_consumer_def Let_def fresh_slot_def)
next
  case False
  have "length (d_heap d') = length (d_heap d) \<and> d_next_consumer_id d' = d_next_consumer_id d"
    using step by (cases rule: dist_step_cases; use False in \<open>auto simp: remove_consumer_def destroy_def push_begin_def
      split: option.splits\<close>)
  moreover have "slot_step (d_heap d ! a) (d_heap d' ! a)" for a
    by (rule heap_step_slot [OF ok step]) (use False in blast)
  ultimately show thesis by (intro old) simp_all
qed

lemma ids_ok_step:
  assumes "ids_ok d" and "addrs_ok d" and "dist_step x d = Some d'"
  shows "ids_ok d'"
  using assms(2,3)
proof (cases rule: heap_step)
  case old
  with assms(1) slot_step_id [OF old(3)] show ?thesis by (simp add: ids_ok_def)
next
  case (new config)
  with assms(1) show ?thesis
    by (simp add: ids_ok_def nth_append less_Suc_eq_le fresh_slot_def)
qed

lemma slots_ok_step:
  assumes "slots_ok d" and "addrs_ok d" and "dist_step x d = Some d'"
  shows "slots_ok d'"
  using assms(2,3)
proof (cases rule: heap_step)
  case old
  with assms(1) slot_step_inv [OF old(3)] show ?thesis by (simp add: slots_ok_def)
next
  case (new config)
  with assms(1) show ?thesis
    by (simp add: slots_ok_def nth_append less_Suc_eq_le fresh_slot_inv)
qed

lemma shut_clear_origin:
  assumes "dist_step x d = Some d'" and "d_shut d' t = Some (ShClear a)"
  shows "d_shut d t = Some (ShClear a) \<or> sl_worker (d_heap d ! a) = WDone"
  using assms(1)
proof (cases rule: dist_step_cases)
  case (remove t cid)
  with assms(2) show ?thesis
    by (auto simp: remove_consumer_def split: option.splits if_splits)
next
  case (join t' a' as c)
  with assms(2) show ?thesis by (auto split: if_splits dest: shut_next_addrs)
qed (use assms(2) in \<open>auto simp: add_consumer_def destroy_def push_begin_def Let_def
      split: if_splits dest: shut_next_addrs\<close>)

lemma joined_ok_step:
  assumes "joined_ok d" and "addrs_ok d" and step: "dist_step x d = Some d'"
  shows "joined_ok d'"
  unfolding joined_ok_def
proof (intro allI impI)
  fix t a assume shut: "d_shut d' t = Some (ShClear a)"
  with step have or: "d_shut d t = Some (ShClear a) \<or> sl_worker (d_heap d ! a) = WDone"
    by (rule shut_clear_origin)
  with assms(1) have "done": "sl_worker (d_heap d ! a) = WDone" by (auto simp: joined_ok_def)
  show "sl_worker (d_heap d' ! a) = WDone"
    using assms(2) step
  proof (cases rule: heap_step)
    case old
    with "done" show ?thesis by (auto intro: slot_step_done)
  next
    case (new config)
    with shut have "d_shut d t = Some (ShClear a)" by simp
    then have "a < length (d_heap d)" using shut_addr_bound [OF assms(2), of t "ShClear a" a] by simp
    with new "done" show ?thesis by (simp add: nth_append)
  qed
qed

text \<open>No lost wakeup: only a push makes the queue of a blocked worker non-empty.\<close>

lemma waiting_origin:
  assumes step: "dist_step x d = Some d'" and ok: "addrs_ok d" and "a < length (d_heap d)"
    and "slot_inv (d_heap d ! a)" and "sl_worker (d_heap d' ! a) = WWait" and "sl_queue (d_heap d' ! a) \<noteq> []"
  shows "sl_worker (d_heap d ! a) = WWait \<and> (sl_queue (d_heap d ! a) \<noteq> [] \<or> (\<exists>t f as. d_push d' t = Some (Notifying f a as)))"
  using step
proof (cases rule: dist_step_cases)
  case (work b s')
  with assms(3-6) worker_func_fields(3) [OF work(3)] show ?thesis
    by (auto simp: upd_slot_nth slot_inv_def split: if_splits)
next
  case (return b threw s')
  with assms(3-6) callback_end_fields(3) [OF return(3)] show ?thesis
    by (auto simp: upd_slot_nth split: if_splits)
qed (use assms(3,5,6) pusher_addr_bound [OF ok] shut_addr_bound [OF ok] in
     \<open>auto simp: upd_slot_nth add_consumer_def remove_consumer_def destroy_def push_begin_def Let_def nth_append
        split: if_splits option.splits\<close>)

lemma notifying_kept:
  assumes "dist_step x d = Some d'" and "d_push d t = Some (Notifying f a as)"
  shows "d_push d' t = Some (Notifying f a as) \<or> d_heap d' = d_heap (upd_slot a slot_notify d)"
  using assms(1)
  by (cases rule: dist_step_cases; use assms(2) in
      \<open>auto simp: add_consumer_def remove_consumer_def destroy_def push_begin_def Let_def upd_slot_def
         split: option.splits\<close>)

lemma woken_step:
  assumes "woken d" and "slots_ok d" and ok: "addrs_ok d" and step: "dist_step x d = Some d'"
  shows "woken d'"
  unfolding woken_def
proof (intro allI impI)
  fix a assume a: "a < length (d_heap d')" "sl_worker (d_heap d' ! a) = WWait \<and> sl_queue (d_heap d' ! a) \<noteq> []"
  have old: "a < length (d_heap d)"
    using ok step by (cases rule: heap_step) (use a in \<open>auto simp: nth_append fresh_slot_def less_Suc_eq split: if_splits\<close>)
  with a assms(2) waiting_origin [OF step ok old] consider
      "\<exists>t f as. d_push d' t = Some (Notifying f a as)"
    | "sl_worker (d_heap d ! a) = WWait" "sl_queue (d_heap d ! a) \<noteq> []"
    unfolding slots_ok_def by blast
  then show "\<exists>t f as. d_push d' t = Some (Notifying f a as)"
  proof cases
    case 2
    with assms(1) old obtain t f as where "d_push d t = Some (Notifying f a as)" by (auto simp: woken_def)
    from notifying_kept [OF step this] a(2) old show ?thesis
      by (auto simp: upd_slot_nth slot_notify_def split: if_splits)
  qed
qed

lemma dist_reachable_inv: "dist_reachable d \<Longrightarrow> dist_inv d"
proof (induction rule: dist_reachable.induct)
  case (dist_init chn)
  show ?case
    by (simp add: dist_inv_def new_distributor_def addrs_ok_def ids_ok_def slots_ok_def woken_def
        joined_ok_def)
next
  case (dist_next d x d')
  then show ?case
    unfolding dist_inv_def
    by (auto intro: addrs_ok_step ids_ok_step slots_ok_step woken_step joined_ok_step)
qed

lemma dist_reachable_slot:
  "dist_reachable d \<Longrightarrow> a < length (d_heap d) \<Longrightarrow> slot_inv (d_heap d ! a)"
  using dist_reachable_inv [of d] by (simp add: dist_inv_def slots_ok_def)

section \<open>Properties\<close>

text \<open>
  C12: in every interleaving, a consumer's queue never exceeds its limit, holds exactly the newest
  frames pushed to it (nothing in between is missing), what the worker took from it are older
  frames in push order without repetition, and the worker never reads the front of an empty queue.
\<close>

theorem distributor_queue:
  assumes "dist_reachable d" and "a < length (d_heap d)" and "s = d_heap d ! a"
  shows "length (sl_queue s) \<le> sl_max_queue_size s
    \<and> (\<exists>old. sl_pushed s = old @ sl_queue s \<and> subseq (sl_taken s) old)
    \<and> sl_worker s \<noteq> WCrash"
  using dist_reachable_slot [OF assms(1,2)] by (auto simp: assms(3) slot_inv_defs)

text \<open>
  C31: the counters account for every frame, exactly modulo \<open>2 ^ 64\<close>: pushed = dropped + taken + queued
  + cleared at removal, and taken = consumed + failed callbacks + the one in progress.
\<close>

theorem distributor_accounting:
  assumes "dist_reachable d" and "a < length (d_heap d)" and "s = d_heap d ! a"
  shows "(word_of_nat (length (sl_pushed s)) :: u64)
       = sl_dropped s + word_of_nat (length (sl_taken s) + length (sl_queue s) + sl_cleared s)
   \<and> (word_of_nat (length (sl_taken s)) :: u64) = sl_consumed s + word_of_nat (sl_failed s + busy s)"
  using dist_reachable_slot [OF assms(1,2)] by (simp add: assms(3) slot_inv_defs)

text \<open>
  Pushes do not lose wakeups: when no push is in progress, a worker that is blocked on its
  condition variable has an empty queue.
\<close>

theorem distributor_no_lost_push:
  assumes "dist_reachable d" and "a < length (d_heap d)" and "d_push d = Map.empty"
    and "sl_worker (d_heap d ! a) = WWait"
  shows "sl_queue (d_heap d ! a) = []"
  using dist_reachable_inv [OF assms(1)] assms(2-4) by (auto simp: dist_inv_def woken_def)

subsection \<open>Shutdown\<close>

text \<open>The worker runs on by itself; a callback in progress returns.\<close>

definition drain :: "bool \<Rightarrow> 'f ConsumerSlot \<Rightarrow> 'f ConsumerSlot" where
  "drain threw s =
     (case worker_func s of Some s' \<Rightarrow> s'
      | None \<Rightarrow> (case callback_end threw s of Some s' \<Rightarrow> s' | None \<Rightarrow> s))"

lemma drain_stopped_exits:
  assumes "slot_inv s" and "\<not> sl_running s" and "sl_worker s \<noteq> WBlock"
  shows "sl_worker ((drain threw ^^ 3) (slot_notify s)) = WDone"
proof -
  have "sl_queue s \<noteq> []" if "sl_worker s = WPop"
    using assms(1) that by (simp add: slot_inv_def)
  moreover have "sl_worker s \<noteq> WCrash" using assms(1) by (auto simp: slot_inv_def)
  ultimately show ?thesis
    using assms(2,3)
    by (cases "sl_worker s"; cases "sl_queue s")
      (simp_all add: drain_def worker_func_def callback_end_def slot_notify_def numeral_3_eq_3)
qed

text \<open>
  Outside the window of the next property a shutdown succeeds: once \<open>running\<close> is false and
  the worker is notified while it is not between the predicate test and the blocking, three own
  actions (the callback returning) bring it to its end, so the join returns.
\<close>

theorem stopped_worker_exits:
  assumes "dist_reachable d" and "a < length (d_heap d)"
    and "\<not> sl_running (d_heap d ! a)" and "sl_worker (d_heap d ! a) \<noteq> WBlock"
  shows "sl_worker ((drain threw ^^ 3) (slot_notify (d_heap d ! a))) = WDone"
  using dist_reachable_slot [OF assms(1,2)] assms(3,4) by (rule drain_stopped_exits)

definition cfg3 :: ConsumerConfig where
  "cfg3 = \<lparr>cfg_max_queue_size = 3, cfg_thread_priority = 0\<rparr>"

text \<open>
  The race: the worker evaluates the predicate (queue empty, still running) under the mutex;
  \<open>remove_consumer\<close>, which does not take this mutex, stores \<open>running\<close> and notifies; then the
  worker blocks.
\<close>

definition race_trace :: "nat action list" where
  "race_trace =
     [AddConsumer cfg3, WorkerStep 0, WorkerStep 0, WorkerStep 0,
      RemoveConsumer 0 0, ShutStep 0, ShutStep 0, WorkerStep 0]"

definition join_stuck :: "nat \<Rightarrow> nat \<Rightarrow> 'f dist \<Rightarrow> bool" where
  "join_stuck t a d \<longleftrightarrow>
     addrs_ok d \<and> a < length (d_heap d) \<and> sl_worker (d_heap d ! a) = WWait \<and> a \<notin> set (d_slots d)
   \<and> d_shut d t = Some (ShJoin a [] True)
   \<and> (\<forall>t' p. d_push d t' = Some p \<longrightarrow> a \<notin> set (pusher_addrs p))
   \<and> (\<forall>t' h. t' \<noteq> t \<longrightarrow> d_shut d t' = Some h \<longrightarrow> a \<notin> set (shut_addrs h))"

lemma waiting_kept:
  assumes step: "dist_step x d = Some d'" and ok: "addrs_ok d" and a: "a < length (d_heap d)"
    and wait: "sl_worker (d_heap d ! a) = WWait" and "x \<noteq> SpuriousWakeup a"
    and push: "\<And>t p. d_push d t = Some p \<Longrightarrow> a \<notin> set (pusher_addrs p)"
    and shut: "\<And>t as c. d_shut d t \<noteq> Some (ShNotify a as c)"
  shows "sl_worker (d_heap d' ! a) = WWait"
  using step
proof (cases rule: dist_step_cases)
  case (push t f b as)
  with assms(6) have "b \<noteq> a" by fastforce
  with push a wait pusher_addr_bound [OF ok push(1), of b] show ?thesis by (simp add: upd_slot_nth)
next
  case (wake t f b as)
  with assms(6) have "b \<noteq> a" by fastforce
  with wake a wait pusher_addr_bound [OF ok wake(2), of b] show ?thesis by (simp add: upd_slot_nth)
next
  case (notify t b as c)
  with shut have "b \<noteq> a" by blast
  with notify a wait shut_addr_bound [OF ok notify(1), of b] show ?thesis by (simp add: upd_slot_nth)
qed (use a wait assms(5) shut_addr_bound [OF ok] in
     \<open>auto simp: upd_slot_nth add_consumer_def remove_consumer_def destroy_def push_begin_def Let_def nth_append
        worker_func_def callback_end_def split: option.splits\<close>)

lemma join_kept:
  assumes "dist_step x d = Some d'" and "d_shut d t = Some (ShJoin a as c)" and "sl_worker (d_heap d ! a) \<noteq> WDone"
  shows "d_shut d' t = Some (ShJoin a as c)"
  using assms(1)
  by (cases rule: dist_step_cases; use assms(2,3) in
      \<open>auto simp: add_consumer_def remove_consumer_def destroy_def push_begin_def Let_def split: option.splits\<close>)

lemma join_stuck_step:
  assumes stuck: "join_stuck t a d" and step: "dist_step x d = Some d'" and "x \<noteq> SpuriousWakeup a"
  shows "join_stuck t a d'"
proof -
  have ok: "addrs_ok d" and a: "a < length (d_heap d)" "sl_worker (d_heap d ! a) = WWait" "a \<notin> set (d_slots d)"
    and t: "d_shut d t = Some (ShJoin a [] True)"
    and push: "\<And>t' p. d_push d t' = Some p \<Longrightarrow> a \<notin> set (pusher_addrs p)"
    and shut: "\<And>t' h. t' \<noteq> t \<Longrightarrow> d_shut d t' = Some h \<Longrightarrow> a \<notin> set (shut_addrs h)"
    using stuck by (auto simp: join_stuck_def)
  have slots: "distinct (d_slots d)" "set (d_slots d) \<subseteq> {..<length (d_heap d)}"
    using ok by (simp_all add: addrs_ok_def)
  note new = slots_origin [OF step slots]
  have no_notify: "d_shut d t' \<noteq> Some (ShNotify a as c)" for t' as c
    using t shut [of t'] by (cases "t' = t") auto
  have "sl_worker (d_heap d' ! a) = WWait"
    by (rule waiting_kept [OF step ok a(1,2) assms(3)]) (use push no_notify in blast)+
  moreover have "d_shut d' t = Some (ShJoin a [] True)" by (rule join_kept [OF step t]) (simp add: a)
  moreover have "a \<notin> set (pusher_addrs p)" if "d_push d' t' = Some p" for t' p
    using push_origin [OF step that] push a(3) by fastforce
  moreover have "a \<notin> set (shut_addrs h)" if "t' \<noteq> t" "d_shut d' t' = Some h" for t' h
    using shut_origin [OF step that(2)] shut [OF that(1)] a(3) by blast
  ultimately show ?thesis
    using addrs_ok_step [OF ok step] a(1,3) new(2,3) by (auto simp: join_stuck_def)
qed

lemma join_stuck_run:
  "join_stuck t a d \<Longrightarrow> dist_run xs d = Some d' \<Longrightarrow> SpuriousWakeup a \<notin> set xs \<Longrightarrow> join_stuck t a d'"
  by (induction xs arbitrary: d) (auto split: option.splits intro: join_stuck_step)

text \<open>
  A shutdown that stays in its \<open>join\<close> whatever the threads do, unless the platform wakes the
  worker spuriously.
\<close>

definition never_joins :: "nat \<Rightarrow> 'f dist \<Rightarrow> bool" where
  "never_joins t d \<longleftrightarrow>
     (\<exists>a. d_shut d t = Some (ShJoin a [] True)
        \<and> (\<forall>xs d'. (\<forall>b. SpuriousWakeup b \<notin> set xs) \<longrightarrow> dist_run xs d = Some d' \<longrightarrow>
              d_shut d' t = Some (ShJoin a [] True)))"

definition race_end :: "nat dist" where
  "race_end =
     \<lparr>d_channel = CHN0, d_heap = [(fresh_slot cfg3 0)\<lparr>sl_worker := WWait, sl_running := False\<rparr>],
      d_slots = [], d_next_consumer_id = 1, d_push = Map.empty, d_shut = [0 \<mapsto> ShJoin 0 [] True]\<rparr>"

lemma race_run: "dist_run race_trace (new_distributor CHN0) = Some race_end"
  by (simp add: race_trace_def new_distributor_def add_consumer_def worker_func_def
      remove_consumer_def shut_step_def upd_slot_def slot_notify_def cfg3_def fresh_slot_def race_end_def)

lemma race_stuck: "join_stuck 0 0 race_end"
  by (simp add: join_stuck_def addrs_ok_def race_end_def fresh_slot_def)

lemma join_stuck_never_joins:
  assumes "join_stuck t a d"
  shows "never_joins t d"
proof -
  have "d_shut d' t = Some (ShJoin a [] True)"
    if "\<forall>b. SpuriousWakeup b \<notin> set xs" and "dist_run xs d = Some d'" for xs d'
    using join_stuck_run [OF assms that(2)] that(1) by (simp add: join_stuck_def)
  moreover have "d_shut d t = Some (ShJoin a [] True)" using assms by (simp add: join_stuck_def)
  ultimately show ?thesis unfolding never_joins_def by blast
qed

text \<open>
  C15: a lost wakeup is possible at shutdown: there is a run of one consumer and one
  \<open>remove_consumer\<close>, without any frame pushed, after which \<open>remove_consumer\<close> never returns from
  \<open>join\<close> (the flag is stored and the notification sent without holding the slot's mutex).
\<close>

theorem remove_consumer_can_hang:
  "\<exists>d. dist_run race_trace (new_distributor CHN0) = Some d \<and> never_joins 0 d"
  by (rule exI, rule conjI [OF race_run join_stuck_never_joins [OF race_stuck]])

lemma done_run:
  "dist_run xs d = Some d' \<Longrightarrow> addrs_ok d \<Longrightarrow> a < length (d_heap d) \<Longrightarrow>
     sl_worker (d_heap d ! a) = WDone \<Longrightarrow> sl_worker (d_heap d' ! a) = WDone"
proof (induction xs arbitrary: d)
  case Nil
  then show ?case by simp
next
  case (Cons x xs)
  then obtain d1 where d1: "dist_step x d = Some d1" "dist_run xs d1 = Some d'"
    by (auto split: option.splits)
  have "a < length (d_heap d1) \<and> sl_worker (d_heap d1 ! a) = WDone"
    using Cons.prems(2) d1(1)
  proof (cases rule: heap_step)
    case old
    with Cons.prems slot_step_done [OF old(3)] show ?thesis by simp
  next
    case (new config)
    with Cons.prems show ?thesis by (simp add: nth_append)
  qed
  with Cons d1 addrs_ok_step show ?case by blast
qed

text \<open>
  When the join of a removal returns, the consumer is silent for good: in every continuation
  its worker has ended, so its callback is never called again.
\<close>

theorem removed_consumer_silent:
  assumes "dist_reachable d" and "d_shut d t = Some (ShJoin a as c)"
    and "dist_run (ShutStep t # xs) d = Some d'"
  shows "sl_worker (d_heap d' ! a) = WDone"
proof -
  from assms(2,3) obtain d1 where d1: "shut_step t d = Some d1" "dist_run xs d1 = Some d'"
    by (auto split: option.splits)
  with assms(2) have w: "sl_worker (d_heap d ! a) = WDone" "d_heap d1 = d_heap d"
    by (auto simp: shut_step_def split: if_splits)
  have ok: "addrs_ok d" using dist_reachable_inv [OF assms(1)] by (simp add: dist_inv_def)
  then have "a < length (d_heap d)"
    using shut_addr_bound [OF ok assms(2), of a] by simp
  moreover have "addrs_ok d1" using addrs_ok_step [OF ok, of "ShutStep t" d1] d1(1) by simp
  ultimately show ?thesis using done_run [OF d1(2)] w by simp
qed

subsection \<open>Concrete runs\<close>

definition demo_trace :: "nat action list" where
  "demo_trace =
     [AddConsumer \<lparr>cfg_max_queue_size = 0, cfg_thread_priority = 0\<rparr>,
      PushBegin 0 7, PushStep 0, PushStep 0, PushStep 0, PushBegin 0 8, PushStep 0, PushStep 0, PushStep 0,
      WorkerStep 0, WorkerStep 0, WorkerStep 0]"

definition demo_end :: "nat dist" where
  "demo_end =
     \<lparr>d_channel = CHN0,
      d_heap = [(fresh_slot \<lparr>cfg_max_queue_size = 0, cfg_thread_priority = 0\<rparr> 0)
        \<lparr>sl_queue := [8], sl_worker := WCheck, sl_dropped := 1, sl_pushed := [7, 8]\<rparr>],
      d_slots = [0], d_next_consumer_id = 1, d_push = Map.empty, d_shut = Map.empty\<rparr>"

lemma demo_run: "dist_run demo_trace (new_distributor CHN0) = Some demo_end"
  by (simp add: demo_trace_def new_distributor_def add_consumer_def push_begin_def push_step_def
      worker_func_def upd_slot_def slot_push_def slot_notify_def mutex_free_def fresh_slot_def demo_end_def)

definition quiet_trace :: "nat action list" where
  "quiet_trace =
     [AddConsumer cfg3, RemoveConsumer 0 0, ShutStep 0, ShutStep 0, WorkerStep 0]"

definition quiet_end :: "nat dist" where
  "quiet_end =
     \<lparr>d_channel = CHN0, d_heap = [(fresh_slot cfg3 0)\<lparr>sl_worker := WDone, sl_running := False\<rparr>],
      d_slots = [], d_next_consumer_id = 1, d_push = Map.empty, d_shut = [0 \<mapsto> ShJoin 0 [] True]\<rparr>"

lemma quiet_run: "dist_run quiet_trace (new_distributor CHN0) = Some quiet_end"
  by (simp add: quiet_trace_def new_distributor_def add_consumer_def worker_func_def
      remove_consumer_def shut_step_def upd_slot_def slot_notify_def cfg3_def fresh_slot_def quiet_end_def)

lemmas demo_reachable = dist_run_reachable [OF demo_run dist_init]
  and race_reachable = dist_run_reachable [OF race_run dist_init]
  and quiet_reachable = dist_run_reachable [OF quiet_run dist_init]

theorem distributor_queue_witness:
  "sl_queue (d_heap demo_end ! 0) = [8]
   \<and> (\<exists>old. sl_pushed (d_heap demo_end ! 0) = old @ sl_queue (d_heap demo_end ! 0)
        \<and> subseq (sl_taken (d_heap demo_end ! 0)) old)"
  using distributor_queue [OF demo_reachable, of 0 "d_heap demo_end ! 0"]
  by (simp add: demo_end_def)

theorem distributor_accounting_witness:
  "(word_of_nat (length (sl_pushed (d_heap demo_end ! 0))) :: u64) = sl_dropped (d_heap demo_end ! 0) + 1"
  using distributor_accounting [OF demo_reachable, of 0 "d_heap demo_end ! 0"]
  by (simp add: demo_end_def fresh_slot_def)

theorem distributor_no_lost_push_witness:
  "sl_worker (d_heap race_end ! 0) = WWait \<and> sl_queue (d_heap race_end ! 0) = []"
  using distributor_no_lost_push [OF race_reachable, of 0] by (simp add: race_end_def)

theorem stopped_worker_exits_witness:
  "sl_worker ((drain False ^^ 3) (slot_notify (d_heap race_end ! 0))) = WDone"
  by (rule stopped_worker_exits [OF race_reachable]) (simp_all add: race_end_def)

theorem removed_consumer_silent_witness:
  "\<exists>d'. dist_run [ShutStep 0] quiet_end = Some d' \<and> sl_worker (d_heap d' ! 0) = WDone"
proof -
  obtain d' where d': "dist_run [ShutStep 0] quiet_end = Some d'"
    by (simp add: shut_step_def quiet_end_def fresh_slot_def)
  with removed_consumer_silent [OF quiet_reachable, of 0 0 "[]" True "[]" d'] show ?thesis
    by (auto simp: quiet_end_def)
qed

end
