(* ===== verification/Stream_Fetcher.thy ===== *)
theory Stream_Fetcher
  imports Stream_Frame
begin

text \<open>
  \<open>modules/platform/hi3516cv610/src/hi_stream_fetcher.cpp\<close>: the thread that takes encoded streams
  from a VENC channel.  What the MPP driver answers is the argument \<open>env\<close>; the calls that acquire
  and release something are recorded in a trace.  An \<open>ot_venc_pack\<close> is the bytes readable from
  \<open>addr\<close>, \<open>len\<close>, \<open>offset\<close> and the value of the union \<open>data_type\<close>.
\<close>

section \<open>Driver\<close>

record ot_venc_pack =
  vp_addr :: "u8 list"
  vp_len :: u32
  vp_offset :: u32
  vp_data_type :: int

text \<open>
  One answer of the driver: the results of \<open>query_status\<close> (with \<open>cur_packs\<close>), of \<open>malloc\<close>, of
  \<open>get_stream\<close> (with the packs it fills in), and of \<open>release_stream\<close>.
\<close>

record venc_env =
  ve_query_ret :: td_s32
  ve_cur_packs :: u32
  ve_malloc_ok :: bool
  ve_get_ret :: td_s32
  ve_packs :: "ot_venc_pack list"
  ve_pack_cnt :: u32
  ve_release_ret :: td_s32

datatype mpi_call = Malloc nat | Free | GetStream td_s32 | ReleaseStream

section \<open>The fetcher\<close>

record StreamFetcher =
  ft_channel :: VencChannel
  ft_stream_type :: StreamType
  ft_codec_type :: CodecType
  ft_running :: bool
  ft_joinable :: bool
  ft_fd :: int
  ft_pack :: "ot_venc_pack list option"
  ft_pack_cnt :: u32

text \<open>The constructor leaves \<open>current_stream_\<close> uninitialised: its fields are the arguments \<open>pack\<close>, \<open>cnt\<close>.\<close>

definition new_fetcher ::
  "ot_venc_pack list option \<Rightarrow> u32 \<Rightarrow> VencChannel \<Rightarrow> StreamType \<Rightarrow> CodecType \<Rightarrow> StreamFetcher" where
  "new_fetcher pack cnt chn type codec =
     \<lparr>ft_channel = chn, ft_stream_type = type, ft_codec_type = codec, ft_running = False,
      ft_joinable = False, ft_fd = - 1, ft_pack = pack, ft_pack_cnt = cnt\<rparr>"

text \<open>
  Assigning a \<open>std::thread\<close> that is joinable, and destroying one, ends the process.  \<open>stop\<close> waits
  for the thread; \<open>run\<close> ends once it sees \<open>running_\<close> false.
\<close>

definition fetcher_start :: "StreamFetcher \<Rightarrow> StreamFetcher checked" where
  "fetcher_start f =
     (if ft_running f then Inr f
      else let f = f\<lparr>ft_running := True\<rparr>
       in if ft_joinable f then Inl Terminated else Inr (f\<lparr>ft_joinable := True\<rparr>))"

definition fetcher_stop :: "StreamFetcher \<Rightarrow> StreamFetcher" where
  "fetcher_stop f =
     (if \<not> ft_running f then f
      else let f = f\<lparr>ft_running := False\<rparr>
       in if ft_joinable f then f\<lparr>ft_joinable := False\<rparr> else f)"

definition fetcher_destroy :: "StreamFetcher \<Rightarrow> unit checked" where
  "fetcher_destroy f =
     (let f = fetcher_stop f in if ft_joinable f then Inl Terminated else Inr ())"

text \<open>The beginning of \<open>run\<close>, with the result of \<open>get_fd\<close>.\<close>

definition run_begin :: "int \<Rightarrow> StreamFetcher \<Rightarrow> StreamFetcher" where
  "run_begin fd f =
     (let f = f\<lparr>ft_fd := fd\<rparr> in if ft_fd f < 0 then f\<lparr>ft_running := False\<rparr> else f)"

subsection \<open>Fetching\<close>

text \<open>The enumerators of \<open>ot_venc_h264_nalu_type\<close> and \<open>ot_venc_h265_nalu_type\<close> that are used.\<close>

definition venc_nalu_type :: "CodecType \<Rightarrow> int \<Rightarrow> NaluType" where
  "venc_nalu_type codec data_type =
     (if codec = H264 then
        (if data_type = 5 then IDR_SLICE else if data_type = 1 then P_SLICE
         else if data_type = 0 then B_SLICE else NaluType.OTHER)
      else if codec = H265 then
        (if data_type = 19 then IDR_SLICE else if data_type = 1 then P_SLICE
         else if data_type = 0 then B_SLICE else NaluType.OTHER)
      else NaluType.OTHER)"

definition frame_pack_of :: "CodecType \<Rightarrow> ot_venc_pack \<Rightarrow> FramePack" where
  "frame_pack_of codec src =
     (let offset = vp_offset src; data_len = vp_len src - offset
      in \<lparr>fp_data = Some (drop (unat offset) (vp_addr src)), fp_len = data_len,
          fp_nalu_type = venc_nalu_type codec (vp_data_type src)\<rparr>)"

text \<open>The loop over the packs, from index \<open>i\<close> with \<open>n\<close> left, into \<open>frame.packs\<close>.\<close>

fun fill_packs ::
  "CodecType \<Rightarrow> ot_venc_pack list \<Rightarrow> nat \<Rightarrow> nat \<Rightarrow> FramePack list \<Rightarrow> FramePack list checked" where
  "fill_packs codec src i 0 packs = Inr packs"
| "fill_packs codec src i (Suc n) packs =
     (if length src \<le> i \<or> length packs \<le> i then Inl OutOfBounds
      else fill_packs codec src (Suc i) n (packs[i := frame_pack_of codec (src ! i)]))"

text \<open>
  \<open>fetchFrame\<close>: result, frame, fetcher and the calls made.  The frame is the caller's object and
  is unchanged on failure.
\<close>

definition fetchFrame ::
  "venc_env \<Rightarrow> FrameData \<Rightarrow> StreamFetcher \<Rightarrow> (int \<times> FrameData \<times> StreamFetcher \<times> mpi_call list) checked" where
  "fetchFrame env frame f =
     (if ve_query_ret env \<noteq> TD_SUCCESS then Inr (- 1, frame, f, [])
      else if ve_cur_packs env = 0 then Inr (- 1, frame, f, [])
      else if MAX_PACKS < unat (ve_cur_packs env) then
        Inr (- 1, frame, f,
          if ve_malloc_ok env
          then [Malloc (unat (ve_cur_packs env)), GetStream (ve_get_ret env)]
               @ (if ve_get_ret env = 0 then [ReleaseStream] else []) @ [Free]
          else [])
      else if \<not> ve_malloc_ok env then Inr (- 1, frame, f\<lparr>ft_pack := None\<rparr>, [])
      else if ve_get_ret env \<noteq> 0 then
        Inr (- 1, frame, f\<lparr>ft_pack := None, ft_pack_cnt := ve_cur_packs env\<rparr>,
          [Malloc (unat (ve_cur_packs env)), GetStream (ve_get_ret env), Free])
      else let f = f\<lparr>ft_pack := Some (ve_packs env), ft_pack_cnt := ve_pack_cnt env\<rparr>
       in case fill_packs (ft_codec_type f) (ve_packs env) 0 (unat (ft_pack_cnt f)) (fd_packs frame) of
            Inl e \<Rightarrow> Inl e
          | Inr packs \<Rightarrow>
              Inr (0, frame\<lparr>fd_packs := packs, fd_pack_count := ft_pack_cnt f, fd_seq := 0\<rparr>, f,
                [Malloc (unat (ve_cur_packs env)), GetStream 0]))"

definition releaseFrame :: "StreamFetcher \<Rightarrow> int \<times> StreamFetcher \<times> mpi_call list" where
  "releaseFrame f =
     (if ft_pack f \<noteq> None then (0, f\<lparr>ft_pack := None\<rparr>, [ReleaseStream, Free]) else (0, f, []))"

text \<open>
  One turn of the loop of \<open>run\<close>: \<open>select\<close> (its result is \<open>ret\<close>), fetching, the deep copy into a
  \<open>StreamFrame\<close>, the release, and the frame handed to the distributor, if any.
\<close>

definition run_turn ::
  "int \<Rightarrow> venc_env \<Rightarrow> FrameData \<Rightarrow> u64 \<Rightarrow> u64 \<Rightarrow> StreamFetcher
     \<Rightarrow> (StreamFrame option \<times> StreamFetcher \<times> mpi_call list) checked" where
  "run_turn ret env frame last_timestamp now f =
     (if ret \<le> 0 then Inr (None, f, [])
      else case fetchFrame env frame f of
          Inl e \<Rightarrow> Inl e
        | Inr (r, frame, f, calls) \<Rightarrow>
            if r = 0 then
              (case new_stream_frame last_timestamp now (ft_channel f) (ft_stream_type f) (ft_codec_type f) frame of
                 Inl e \<Rightarrow> Inl e
               | Inr stream_frame \<Rightarrow>
                   (let (_, f, calls') = releaseFrame f
                    in Inr (Some stream_frame, f, calls @ calls')))
            else Inr (None, f, calls))"

section \<open>Contract of the driver\<close>

text \<open>
  What the MPP documentation promises of a successful \<open>get_stream\<close>: it fills in at most as many
  packs as were asked for, and the payload of a pack starts at \<open>offset\<close> and ends at \<open>len\<close>, inside
  the bytes that can be read from \<open>addr\<close>.
\<close>

definition pack_contract :: "ot_venc_pack \<Rightarrow> bool" where
  "pack_contract p \<longleftrightarrow> vp_offset p \<le> vp_len p \<and> unat (vp_len p) \<le> length (vp_addr p)"

definition env_contract :: "venc_env \<Rightarrow> bool" where
  "env_contract env \<longleftrightarrow>
     unat (ve_pack_cnt env) \<le> unat (ve_cur_packs env) \<and> length (ve_packs env) = unat (ve_cur_packs env)
   \<and> list_all pack_contract (take (unat (ve_pack_cnt env)) (ve_packs env))"

lemma fill_packs_eq:
  "i + n \<le> length src \<Longrightarrow> i + n \<le> length packs \<Longrightarrow>
     fill_packs codec src i n packs
       = Inr (take i packs @ map (frame_pack_of codec) (take n (drop i src)) @ drop (i + n) packs)"
proof (induction n arbitrary: i packs)
  case 0
  then show ?case by simp
next
  case (Suc n)
  let ?packs = "packs[i := frame_pack_of codec (src ! i)]"
  have "fill_packs codec src (Suc i) n ?packs
      = Inr (take (Suc i) ?packs @ map (frame_pack_of codec) (take n (drop (Suc i) src)) @ drop (Suc i + n) packs)"
    using Suc.prems by (subst Suc.IH) auto
  moreover have "take (Suc n) (drop i src) = src ! i # take n (drop (Suc i) src)"
    using Suc.prems(1) by (simp add: drop_nth_Cons)
  moreover have "take (Suc i) ?packs = take i packs @ [frame_pack_of codec (src ! i)]"
    using Suc.prems(2) by (simp add: take_Suc_conv_app_nth)
  ultimately show ?case using Suc.prems by simp
qed

lemma frame_pack_of_contract:
  assumes "pack_contract p"
  shows "pack_readable (frame_pack_of codec p)"
    and "pack_bytes (frame_pack_of codec p) = drop (unat (vp_offset p)) (take (unat (vp_len p)) (vp_addr p))"
proof -
  have "unat (vp_len p - vp_offset p) = unat (vp_len p) - unat (vp_offset p)"
    using assms by (simp add: pack_contract_def unat_sub)
  moreover have "unat (vp_offset p) \<le> unat (vp_len p)"
    using assms by (simp add: pack_contract_def word_le_nat_alt)
  ultimately show "pack_readable (frame_pack_of codec p)"
    "pack_bytes (frame_pack_of codec p) = drop (unat (vp_offset p)) (take (unat (vp_len p)) (vp_addr p))"
    using assms by (auto simp: frame_pack_of_def Let_def pack_readable_def pack_contract_def pack_bytes_def
        take_drop)
qed

section \<open>Resources\<close>

text \<open>
  The balance of a trace: heap blocks and streams held after it; \<open>None\<close> when something is released
  that is not held.
\<close>

fun balance :: "mpi_call list \<Rightarrow> nat \<times> nat \<Rightarrow> (nat \<times> nat) option" where
  "balance [] (h, s) = Some (h, s)"
| "balance (Malloc n # cs) (h, s) = balance cs (Suc h, s)"
| "balance (Free # cs) (h, s) = (if h = 0 then None else balance cs (h - 1, s))"
| "balance (GetStream ret # cs) (h, s) = balance cs (h, if ret = 0 then Suc s else s)"
| "balance (ReleaseStream # cs) (h, s) = (if s = 0 then None else balance cs (h, s - 1))"

section \<open>A turn\<close>

text \<open>The packs a successful \<open>get_stream\<close> announces, and the payload of one.\<close>

definition taken_packs :: "venc_env \<Rightarrow> ot_venc_pack list" where
  "taken_packs env = take (unat (ve_pack_cnt env)) (ve_packs env)"

definition venc_payload :: "ot_venc_pack \<Rightarrow> u8 list" where
  "venc_payload p = drop (unat (vp_offset p)) (take (unat (vp_len p)) (vp_addr p))"

definition turn_succeeds :: "int \<Rightarrow> venc_env \<Rightarrow> bool" where
  "turn_succeeds ret env \<longleftrightarrow> 0 < ret \<and> ve_query_ret env = 0 \<and> 0 < ve_cur_packs env
     \<and> unat (ve_cur_packs env) \<le> MAX_PACKS \<and> ve_malloc_ok env \<and> ve_get_ret env = 0"

text \<open>The frame handed to the constructor of \<open>StreamFrame\<close>.\<close>

definition fetched_data :: "CodecType \<Rightarrow> venc_env \<Rightarrow> FrameData \<Rightarrow> FrameData" where
  "fetched_data codec env frame =
     frame\<lparr>fd_packs := map (frame_pack_of codec) (taken_packs env) @ drop (unat (ve_pack_cnt env)) (fd_packs frame),
           fd_pack_count := ve_pack_cnt env, fd_seq := 0\<rparr>"

lemma taken_packs_contract: "env_contract env \<Longrightarrow> p \<in> set (taken_packs env) \<Longrightarrow> pack_contract p"
  by (auto simp: env_contract_def taken_packs_def list_all_iff)

lemma fetched_data_frame:
  assumes "env_contract env" and "length (fd_packs frame) = MAX_PACKS" and "unat (ve_cur_packs env) \<le> MAX_PACKS"
  obtains sf where "new_stream_frame t0 now chn type codec (fetched_data codec env frame) = Inr sf"
    "length (fd_packs (fetched_data codec env frame)) = MAX_PACKS"
    "frame_packs sf = map (copied_pack \<circ> frame_pack_of codec) (taken_packs env)"
    "sf_pack_data sf = map pack_bytes (frame_packs sf)" "(sf_channel sf, sf_type sf, sf_codec sf) = (chn, type, codec)"
proof -
  let ?data = "fetched_data codec env frame"
  have n: "unat (ve_pack_cnt env) \<le> length (ve_packs env)" "unat (ve_pack_cnt env) \<le> MAX_PACKS"
    using assms by (simp_all add: env_contract_def)
  then have len: "length (fd_packs ?data) = MAX_PACKS"
    using assms(2) by (simp add: fetched_data_def taken_packs_def)
  have cnt: "unat (fd_pack_count ?data) = unat (ve_pack_cnt env)"
    and take: "take (unat (ve_pack_cnt env)) (fd_packs ?data) = map (frame_pack_of codec) (taken_packs env)"
    using n by (simp_all add: fetched_data_def taken_packs_def)
  have "list_all pack_readable (take (unat (ve_pack_cnt env)) (fd_packs ?data))"
    using taken_packs_contract [OF assms(1)] by (auto simp: take list_all_iff intro: frame_pack_of_contract)
  then show thesis
    using n take by (intro that [OF new_stream_frame_eq [OF len, THEN trans, OF if_P]]) 
      (simp_all add: len cnt frame_packs_def taken_packs_def)
qed

text \<open>
  The outcomes of a turn under the driver's contract: nothing, or one frame, made by the constructor
  from the packs taken; in both cases everything acquired has been released.
\<close>

lemma run_turn_cases:
  assumes "env_contract env" and "length (fd_packs frame) = MAX_PACKS"
  obtains (no_frame) f' calls where "\<not> turn_succeeds ret env"
      "run_turn ret env frame t0 now f = Inr (None, f', calls)"
      "balance calls (0, 0) = Some (0, 0)" "f' \<in> {f, f\<lparr>ft_pack := None\<rparr>, f\<lparr>ft_pack := None, ft_pack_cnt := ve_cur_packs env\<rparr>}"
  | (one_frame) sf calls where "turn_succeeds ret env"
      "run_turn ret env frame t0 now f = Inr (Some sf, f\<lparr>ft_pack := None, ft_pack_cnt := ve_pack_cnt env\<rparr>, calls)"
      "balance calls (0, 0) = Some (0, 0)"
      "new_stream_frame t0 now (ft_channel f) (ft_stream_type f) (ft_codec_type f)
         (fetched_data (ft_codec_type f) env frame) = Inr sf"
      "length (fd_packs (fetched_data (ft_codec_type f) env frame)) = MAX_PACKS"
      "frame_packs sf = map (copied_pack \<circ> frame_pack_of (ft_codec_type f)) (taken_packs env)"
      "sf_pack_data sf = map pack_bytes (frame_packs sf)"
      "(sf_channel sf, sf_type sf, sf_codec sf) = (ft_channel f, ft_stream_type f, ft_codec_type f)"
proof (cases "turn_succeeds ret env")
  case False
  have "\<exists>f' calls. run_turn ret env frame t0 now f = Inr (None, f', calls) \<and> balance calls (0, 0) = Some (0, 0)
    \<and> f' \<in> {f, f\<lparr>ft_pack := None\<rparr>, f\<lparr>ft_pack := None, ft_pack_cnt := ve_cur_packs env\<rparr>}"
    using False by (auto simp: turn_succeeds_def run_turn_def fetchFrame_def word_gt_0)
  then obtain f' calls where turn: "run_turn ret env frame t0 now f = Inr (None, f', calls)"
    "balance calls (0, 0) = Some (0, 0)"
    "f' \<in> {f, f\<lparr>ft_pack := None\<rparr>, f\<lparr>ft_pack := None, ft_pack_cnt := ve_cur_packs env\<rparr>}"
    by blast
  show thesis by (rule no_frame [OF False turn])
next
  case True
  then have cur: "unat (ve_cur_packs env) \<le> MAX_PACKS" by (simp add: turn_succeeds_def)
  have fill: "fill_packs codec (ve_packs env) 0 (unat (ve_pack_cnt env)) (fd_packs frame)
      = Inr (fd_packs (fetched_data codec env frame))" for codec
    using fill_packs_eq [of 0 "unat (ve_pack_cnt env)" "ve_packs env" "fd_packs frame" codec] assms cur
    by (simp add: env_contract_def fetched_data_def taken_packs_def)
  obtain sf where sf: "new_stream_frame t0 now (ft_channel f) (ft_stream_type f) (ft_codec_type f)
      (fetched_data (ft_codec_type f) env frame) = Inr sf"
    "length (fd_packs (fetched_data (ft_codec_type f) env frame)) = MAX_PACKS"
    "frame_packs sf = map (copied_pack \<circ> frame_pack_of (ft_codec_type f)) (taken_packs env)"
    "sf_pack_data sf = map pack_bytes (frame_packs sf)"
    "(sf_channel sf, sf_type sf, sf_codec sf) = (ft_channel f, ft_stream_type f, ft_codec_type f)"
    by (rule fetched_data_frame [OF assms cur])
  have data: "frame\<lparr>fd_packs := fd_packs (fetched_data codec env frame), fd_pack_count := ve_pack_cnt env, fd_seq := 0\<rparr>
      = fetched_data codec env frame" for codec
    by (simp add: fetched_data_def)
  show thesis
    using True sf(1)
    by (intro one_frame [OF True _ _ sf])
      (auto simp: turn_succeeds_def run_turn_def fetchFrame_def releaseFrame_def Let_def word_gt_0 fill data)
qed

section \<open>Properties\<close>

text \<open>
  C40: with a driver that keeps its contract, a turn of the fetcher is always defined, whatever its
  calls return: it frees every block it allocates and releases every stream it takes exactly once
  (failed calls and oversized frames included), keeps no pointer to a block it freed, and yields a frame
  exactly when all calls succeed and the stream has between 1 and 16 packs.
\<close>

theorem fetcher_turn_balanced:
  assumes "env_contract env" and "length (fd_packs frame) = MAX_PACKS"
  shows "case run_turn ret env frame t0 now f of
      Inl _ \<Rightarrow> False
    | Inr (r, f', calls) \<Rightarrow> balance calls (0, 0) = Some (0, 0) \<and> ft_pack f' \<in> {None, ft_pack f}
        \<and> (r \<noteq> None \<longleftrightarrow> 0 < ret \<and> ve_query_ret env = 0 \<and> 0 < ve_cur_packs env
             \<and> unat (ve_cur_packs env) \<le> MAX_PACKS \<and> ve_malloc_ok env \<and> ve_get_ret env = 0)"
  using assms
proof (cases rule: run_turn_cases [of env frame ret t0 now f])
  case no_frame
  then show ?thesis by (auto simp: turn_succeeds_def)
next
  case one_frame
  then show ?thesis by (simp add: turn_succeeds_def)
qed

definition demo_env :: venc_env where
  "demo_env = \<lparr>ve_query_ret = 0, ve_cur_packs = 1, ve_malloc_ok = True, ve_get_ret = 0,
     ve_packs = [\<lparr>vp_addr = [9, 0, 0, 1, 0x65], vp_len = 5, vp_offset = 1, vp_data_type = 5\<rparr>],
     ve_pack_cnt = 1, ve_release_ret = 0\<rparr>"

definition blank_frame :: FrameData where
  "blank_frame = \<lparr>fd_packs = replicate 16 null_pack, fd_pack_count = 0, fd_seq = 0\<rparr>"

lemma demo_env_contract: "env_contract demo_env"
  by (simp add: env_contract_def demo_env_def pack_contract_def)

theorem fetcher_turn_balanced_witness:
  "case run_turn 1 demo_env blank_frame 0 5 (new_fetcher None 0 CHN1 VIDEO_SUB H264) of
      Inl _ \<Rightarrow> False | Inr (r, f', calls) \<Rightarrow> r \<noteq> None \<and> balance calls (0, 0) = Some (0, 0)"
proof -
  have "length (fd_packs blank_frame) = MAX_PACKS" by (simp add: blank_frame_def MAX_PACKS_def)
  then have "case run_turn 1 demo_env blank_frame 0 5 (new_fetcher None 0 CHN1 VIDEO_SUB H264) of
      Inl _ \<Rightarrow> False
    | Inr (r, f', calls) \<Rightarrow> balance calls (0, 0) = Some (0, 0) \<and> ft_pack f' \<in> {None, ft_pack (new_fetcher None 0 CHN1 VIDEO_SUB H264)}
        \<and> (r \<noteq> None \<longleftrightarrow> 0 < (1::int) \<and> ve_query_ret demo_env = 0 \<and> 0 < ve_cur_packs demo_env
             \<and> unat (ve_cur_packs demo_env) \<le> MAX_PACKS \<and> ve_malloc_ok demo_env \<and> ve_get_ret demo_env = 0)"
    by (rule fetcher_turn_balanced [OF demo_env_contract])
  moreover have "0 < ve_cur_packs demo_env \<and> unat (ve_cur_packs demo_env) \<le> MAX_PACKS
      \<and> ve_query_ret demo_env = 0 \<and> ve_malloc_ok demo_env \<and> ve_get_ret demo_env = 0"
    by (simp add: demo_env_def MAX_PACKS_def)
  ultimately show ?thesis by (auto split: sum.splits)
qed

text \<open>
  The frame a turn yields carries, pack by pack, exactly the payload bytes between \<open>offset\<close>
  and \<open>len\<close> of the encoder's packs, in its own memory, with the NALU kind of the codec, on the
  fetcher's channel and stream type.
\<close>

theorem fetcher_turn_frame:
  assumes "env_contract env" and "length (fd_packs frame) = MAX_PACKS"
    and "run_turn ret env frame t0 now f = Inr (Some sf, f', calls)"
  shows "map pack_bytes (frame_packs sf)
      = map (\<lambda>p. drop (unat (vp_offset p)) (take (unat (vp_len p)) (vp_addr p)))
          (take (unat (ve_pack_cnt env)) (ve_packs env))
    \<and> map fp_nalu_type (frame_packs sf)
      = map (\<lambda>p. venc_nalu_type (ft_codec_type f) (vp_data_type p)) (take (unat (ve_pack_cnt env)) (ve_packs env))
    \<and> sf_pack_data sf = map pack_bytes (frame_packs sf)
    \<and> (sf_channel sf, sf_type sf, sf_codec sf) = (ft_channel f, ft_stream_type f, ft_codec_type f)"
  using assms(1,2)
proof (cases rule: run_turn_cases [of env frame ret t0 now f])
  case no_frame
  with assms(3) show ?thesis by simp
next
  case (one_frame sf')
  have "venc_nalu_type codec (vp_data_type p) = fp_nalu_type (frame_pack_of codec p)" for codec p
    by (simp add: frame_pack_of_def Let_def)
  with one_frame assms(3) taken_packs_contract [OF assms(1)] show ?thesis
    by (simp add: taken_packs_def frame_pack_of_contract)
qed

theorem fetcher_turn_frame_witness:
  "\<exists>sf f' calls. run_turn 1 demo_env blank_frame 0 5 (new_fetcher None 0 CHN1 VIDEO_SUB H264) = Inr (Some sf, f', calls)
     \<and> map pack_bytes (frame_packs sf) = [[0, 0, 1, 0x65]]"
proof -
  have len: "length (fd_packs blank_frame) = MAX_PACKS" by (simp add: blank_frame_def MAX_PACKS_def)
  have "fill_packs H264 (ve_packs demo_env) 0 1 (fd_packs blank_frame)
      = Inr (map (frame_pack_of H264) (ve_packs demo_env) @ drop 1 (fd_packs blank_frame))"
    using fill_packs_eq [of 0 1 "ve_packs demo_env" "fd_packs blank_frame" H264]
    by (simp add: demo_env_def blank_frame_def)
  moreover have "defined (new_stream_frame 0 5 CHN1 VIDEO_SUB H264 (blank_frame\<lparr>fd_packs :=
      map (frame_pack_of H264) (ve_packs demo_env) @ drop 1 (fd_packs blank_frame),
      fd_pack_count := 1, fd_seq := 0\<rparr>))"
    using len demo_env_contract
    by (subst new_stream_frame_eq)
      (auto simp: demo_env_def env_contract_def MAX_PACKS_def intro!: frame_pack_of_contract)
  ultimately obtain sf f' calls where
    r: "run_turn 1 demo_env blank_frame 0 5 (new_fetcher None 0 CHN1 VIDEO_SUB H264) = Inr (Some sf, f', calls)"
    by (auto simp: run_turn_def fetchFrame_def releaseFrame_def demo_env_def new_fetcher_def MAX_PACKS_def)
  have "map pack_bytes (frame_packs sf) = [[0, 0, 1, 0x65]]"
    using fetcher_turn_frame [OF demo_env_contract len r] by (simp add: demo_env_def)
  with r show ?thesis by (intro exI conjI)
qed

text \<open>
  After \<open>get_fd\<close> has failed the fetcher is a trap: its thread has ended but is still joinable,
  so starting it again and destroying it (even after \<open>stop\<close>, which returns early) both end the
  process; without that failure a stopped fetcher can be started and destroyed safely.
\<close>

theorem fetcher_restart:
  assumes "fetcher_start (new_fetcher pack cnt chn type codec) = Inr f"
  shows "(if fd < 0
     then fetcher_start (run_begin fd f) = Inl Terminated
          \<and> fetcher_destroy (run_begin fd f) = Inl Terminated
          \<and> fetcher_destroy (fetcher_stop (run_begin fd f)) = Inl Terminated
     else defined (fetcher_start (fetcher_stop (run_begin fd f)))
          \<and> fetcher_destroy (run_begin fd f) = Inr ())"
  using assms
  by (auto simp: fetcher_start_def new_fetcher_def run_begin_def fetcher_destroy_def fetcher_stop_def Let_def)

theorem fetcher_restart_witness:
  "\<exists>f. fetcher_start (new_fetcher None 0 CHN0 VIDEO_MAIN H265) = Inr f
     \<and> fetcher_destroy (run_begin (- 1) f) = Inl Terminated"
proof -
  obtain f where f: "fetcher_start (new_fetcher None 0 CHN0 VIDEO_MAIN H265) = Inr f"
    by (simp add: fetcher_start_def new_fetcher_def)
  with fetcher_restart [OF f, of "- 1"] show ?thesis by simp
qed

end
