(* ===== verification/Stream_Manager.thy ===== *)
theory Stream_Manager
  imports Stream_Distributor Stream_Fetcher
begin

text \<open>
  \<open>modules/stream/src/stream_consumer_manager.cpp\<close>: the singleton that owns one distributor per
  video stream and the fetchers.  A \<open>std::unique_ptr\<close> in a map is an option; iteration is in the
  order of the stream types.  The fetchers are behind \<open>IStreamProvider\<close>; their \<open>start\<close> and \<open>stop\<close>
  are arguments.
\<close>

record ('f, 'p) StreamConsumerManager =
  m_distributors :: "StreamType \<rightharpoonup> 'f dist option"
  m_fetchers :: "StreamType \<rightharpoonup> 'p option"

definition new_manager :: "('f, 'p) StreamConsumerManager" where
  "new_manager =
     \<lparr>m_distributors = [VIDEO_MAIN \<mapsto> Some (new_distributor CHN0), VIDEO_SUB \<mapsto> Some (new_distributor CHN1),
        VIDEO_MJPEG \<mapsto> Some (new_distributor CHN2)],
      m_fetchers = Map.empty\<rparr>"

definition set_fetcher :: "StreamType \<Rightarrow> 'p option \<Rightarrow> ('f, 'p) StreamConsumerManager \<Rightarrow> ('f, 'p) StreamConsumerManager" where
  "set_fetcher type fetcher m = m\<lparr>m_fetchers := (m_fetchers m)(type \<mapsto> fetcher)\<rparr>"

text \<open>The distributor a reference denotes: one of the map, or the static dummy.\<close>

datatype dist_ref = Registered StreamType | Dummy

definition get_distributor :: "StreamType \<Rightarrow> ('f, 'p) StreamConsumerManager \<Rightarrow> dist_ref" where
  "get_distributor type m =
     (case m_distributors m type of Some (Some _) \<Rightarrow> Registered type | _ \<Rightarrow> Dummy)"

definition register_consumer ::
  "StreamType \<Rightarrow> ConsumerConfig \<Rightarrow> ('f, 'p) StreamConsumerManager \<Rightarrow> u32 \<times> ('f, 'p) StreamConsumerManager" where
  "register_consumer type config m =
     (case m_distributors m type of
        Some (Some d) \<Rightarrow>
          (let (cid, d) = add_consumer config d
           in (cid, m\<lparr>m_distributors := (m_distributors m)(type \<mapsto> Some d)\<rparr>))
      | _ \<Rightarrow> (- 1, m))"

text \<open>\<open>t\<close> is the calling thread, which then goes through the shutdown of the consumer.\<close>

definition unregister_consumer ::
  "StreamType \<Rightarrow> nat \<Rightarrow> u32 \<Rightarrow> ('f, 'p) StreamConsumerManager \<Rightarrow> ('f, 'p) StreamConsumerManager" where
  "unregister_consumer type t cid m =
     (case m_distributors m type of
        Some (Some d) \<Rightarrow> m\<lparr>m_distributors := (m_distributors m)(type \<mapsto> Some (remove_consumer t cid d))\<rparr>
      | _ \<Rightarrow> m)"

text \<open>The loops over the fetchers; calling a method through a null pointer is undefined.\<close>

fun each_fetcher ::
  "('p \<Rightarrow> 'p checked) \<Rightarrow> StreamType list \<Rightarrow> (StreamType \<rightharpoonup> 'p option) \<Rightarrow> (StreamType \<rightharpoonup> 'p option) checked" where
  "each_fetcher op [] fs = Inr fs"
| "each_fetcher op (t # ts) fs =
     (case fs t of
        None \<Rightarrow> each_fetcher op ts fs
      | Some None \<Rightarrow> Inl NullDeref
      | Some (Some p) \<Rightarrow>
          (case op p of Inl e \<Rightarrow> Inl e | Inr p' \<Rightarrow> each_fetcher op ts (fs(t \<mapsto> Some p'))))"

definition start_all ::
  "('p \<Rightarrow> 'p checked) \<Rightarrow> ('f, 'p) StreamConsumerManager \<Rightarrow> ('f, 'p) StreamConsumerManager checked" where
  "start_all start_op m =
     (case each_fetcher start_op stream_types (m_fetchers m) of
        Inl e \<Rightarrow> Inl e | Inr fs \<Rightarrow> Inr (m\<lparr>m_fetchers := fs\<rparr>))"

definition stop_all ::
  "('p \<Rightarrow> 'p checked) \<Rightarrow> ('f, 'p) StreamConsumerManager \<Rightarrow> ('f, 'p) StreamConsumerManager checked" where
  "stop_all stop_op m =
     (case each_fetcher stop_op stream_types (m_fetchers m) of
        Inl e \<Rightarrow> Inl e | Inr fs \<Rightarrow> Inr (m\<lparr>m_fetchers := fs\<rparr>))"

section \<open>Invariant\<close>

text \<open>One distributor per video stream, on the channel of its encoder, and none for audio.\<close>

definition stream_channel :: "StreamType \<Rightarrow> VencChannel option" where
  "stream_channel type =
     (case type of VIDEO_MAIN \<Rightarrow> Some CHN0 | VIDEO_SUB \<Rightarrow> Some CHN1 | VIDEO_MJPEG \<Rightarrow> Some CHN2 | AUDIO_AAC \<Rightarrow> None)"

definition manager_inv :: "('f, 'p) StreamConsumerManager \<Rightarrow> bool" where
  "manager_inv m \<longleftrightarrow>
     (\<forall>type. case m_distributors m type of
        None \<Rightarrow> stream_channel type = None
      | Some None \<Rightarrow> False
      | Some (Some d) \<Rightarrow> dist_reachable d \<and> stream_channel type = Some (d_channel d))"

datatype 'p mgr_op =
    Register StreamType ConsumerConfig
  | Unregister StreamType nat u32
  | SetFetcher StreamType "'p option"

fun mgr_step :: "'p mgr_op \<Rightarrow> ('f, 'p) StreamConsumerManager \<Rightarrow> ('f, 'p) StreamConsumerManager" where
  "mgr_step (Register type config) m = snd (register_consumer type config m)"
| "mgr_step (Unregister type t cid) m =
     (case m_distributors m type of
        Some (Some d) \<Rightarrow> if d_shut d t = None then unregister_consumer type t cid m else m
      | _ \<Rightarrow> m)"
| "mgr_step (SetFetcher type p) m = set_fetcher type p m"

lemma manager_inv_upd:
  "manager_inv m \<Longrightarrow> dist_reachable d \<Longrightarrow> stream_channel type = Some (d_channel d) \<Longrightarrow>
     manager_inv (m\<lparr>m_distributors := (m_distributors m)(type \<mapsto> Some d)\<rparr>)"
  by (simp add: manager_inv_def)

lemma manager_inv_at:
  "manager_inv m \<Longrightarrow> (case m_distributors m type of
        None \<Rightarrow> stream_channel type = None
      | Some None \<Rightarrow> False
      | Some (Some d) \<Rightarrow> dist_reachable d \<and> stream_channel type = Some (d_channel d))"
  unfolding manager_inv_def by (rule spec)

lemma manager_invD:
  "manager_inv m \<Longrightarrow> m_distributors m type = Some (Some d) \<Longrightarrow>
     dist_reachable d \<and> stream_channel type = Some (d_channel d)"
  using manager_inv_at [of m type] by simp

lemma mgr_step_inv [inv_intros]:
  assumes "manager_inv m"
  shows "manager_inv (mgr_step x m)"
proof (cases x)
  case (Register type config)
  show ?thesis
  proof (cases "\<exists>d. m_distributors m type = Some (Some d)")
    case True
    then obtain d where d: "m_distributors m type = Some (Some d)" by blast
    have "dist_reachable (snd (add_consumer config d))"
      by (rule dist_next [of d "AddConsumer config"]) (use manager_invD [OF assms d] in simp_all)
    moreover have "d_channel (snd (add_consumer config d)) = d_channel d"
      by (simp add: add_consumer_def Let_def)
    ultimately have "manager_inv (m\<lparr>m_distributors := (m_distributors m)(type \<mapsto> Some (snd (add_consumer config d)))\<rparr>)"
      using manager_invD [OF assms d] by (intro manager_inv_upd [OF assms]) simp_all
    with Register d show ?thesis by (simp add: register_consumer_def case_prod_unfold Let_def)
  next
    case False
    with Register assms show ?thesis by (auto simp: register_consumer_def split: option.splits)
  qed
next
  case (Unregister type t cid)
  show ?thesis
  proof (cases "\<exists>d. m_distributors m type = Some (Some d) \<and> d_shut d t = None")
    case True
    then obtain d where d: "m_distributors m type = Some (Some d)" "d_shut d t = None" by blast
    have "dist_reachable (remove_consumer t cid d)"
      by (rule dist_next [of d "RemoveConsumer t cid"]) (use manager_invD [OF assms d(1)] d(2) in simp_all)
    moreover have "d_channel (remove_consumer t cid d) = d_channel d"
      by (simp add: remove_consumer_def split: option.splits)
    ultimately have "manager_inv (m\<lparr>m_distributors := (m_distributors m)(type \<mapsto> Some (remove_consumer t cid d))\<rparr>)"
      using manager_invD [OF assms d(1)] by (intro manager_inv_upd [OF assms]) simp_all
    with Unregister d show ?thesis by (simp add: unregister_consumer_def)
  next
    case False
    with Unregister assms show ?thesis by (auto split: option.splits)
  qed
next
  case (SetFetcher type p)
  with assms show ?thesis by (simp add: set_fetcher_def manager_inv_def)
qed

lemma new_manager_inv: "manager_inv new_manager"
  by (auto simp: manager_inv_def new_manager_def stream_channel_def new_distributor_def
      intro: dist_init [unfolded new_distributor_def] split: option.splits StreamType.splits)

lemma mgr_run_inv: "manager_inv m \<Longrightarrow> manager_inv (fold mgr_step xs m)"
  by (induction xs arbitrary: m) (simp_all add: mgr_step_inv)

section \<open>Properties\<close>

text \<open>
  The manager after any operations: exactly the three video streams have a distributor, on
  their encoder's channel; registering on one of them returns its next id and appends one consumer
  there, leaving the other streams alone; registering for audio returns \<open>0xFFFFFFFF\<close> and changes
  nothing, and its distributor is the dummy.
\<close>

theorem manager_streams:
  fixes m :: "('f, 'p) StreamConsumerManager"
  assumes "m = fold mgr_step xs new_manager"
  shows "(\<forall>type. get_distributor type m = (if type = AUDIO_AAC then Dummy else Registered type))
    \<and> (case register_consumer type config m of (cid, m') \<Rightarrow>
        if type = AUDIO_AAC then cid = 0xFFFFFFFF \<and> m' = m
        else \<exists>d. m_distributors m type = Some (Some d) \<and> stream_channel type = Some (d_channel d)
          \<and> cid = d_next_consumer_id d
          \<and> m_distributors m' = (m_distributors m)(type \<mapsto> Some (snd (add_consumer config d)))
          \<and> d_slots (snd (add_consumer config d)) = d_slots d @ [length (d_heap d)])"
proof -
  have inv: "manager_inv m" unfolding assms by (intro mgr_run_inv new_manager_inv)
  have some: "\<exists>d. m_distributors m t = Some (Some d) \<and> stream_channel t = Some (d_channel d)"
    if "t \<noteq> AUDIO_AAC" for t
  proof -
    have "stream_channel t \<noteq> None" using that by (cases t) (simp_all add: stream_channel_def)
    then show ?thesis using manager_inv_at [OF inv, of t] by (auto split: option.splits)
  qed
  have none: "m_distributors m AUDIO_AAC = None"
  proof -
    have "stream_channel AUDIO_AAC = None" by (simp add: stream_channel_def)
    then show ?thesis using manager_inv_at [OF inv, of AUDIO_AAC]
      by (cases "m_distributors m AUDIO_AAC") (auto split: option.splits)
  qed
  have "get_distributor t m = (if t = AUDIO_AAC then Dummy else Registered t)" for t
    using some [of t] none by (auto simp: get_distributor_def)
  moreover have "case register_consumer type config m of (cid, m') \<Rightarrow>
      if type = AUDIO_AAC then cid = 0xFFFFFFFF \<and> m' = m
      else \<exists>d. m_distributors m type = Some (Some d) \<and> stream_channel type = Some (d_channel d)
        \<and> cid = d_next_consumer_id d
        \<and> m_distributors m' = (m_distributors m)(type \<mapsto> Some (snd (add_consumer config d)))
        \<and> d_slots (snd (add_consumer config d)) = d_slots d @ [length (d_heap d)]"
  proof (cases "type = AUDIO_AAC")
    case True
    with none show ?thesis by (simp add: register_consumer_def)
  next
    case False
    with some [of type] show ?thesis
      by (auto simp: register_consumer_def add_consumer_def Let_def)
  qed
  ultimately show ?thesis by blast
qed

theorem manager_streams_witness:
  "fst (register_consumer AUDIO_AAC cfg3 (fold mgr_step [Register VIDEO_SUB cfg3]
      (new_manager :: (nat, nat) StreamConsumerManager))) = 0xFFFFFFFF"
  using manager_streams [OF refl, where 'f = nat and 'p = nat and type = AUDIO_AAC and config = cfg3 and xs = "[Register VIDEO_SUB cfg3]"]
  by (auto split: prod.splits)

text \<open>Starting all fetchers applies their \<open>start\<close> to every registered one.\<close>

lemma each_fetcher_all:
  "distinct ts \<Longrightarrow> (\<And>t. fs t \<noteq> Some None) \<Longrightarrow> (\<And>p. start_op p = Inr (g p)) \<Longrightarrow>
     each_fetcher start_op ts fs
       = Inr (\<lambda>t. if t \<in> set ts then map_option (map_option g) (fs t) else fs t)"
  by (induction ts arbitrary: fs) (auto simp: fun_eq_iff split: option.splits)

lemma start_all_fetchers:
  assumes "\<And>t. m_fetchers m t \<noteq> Some None" and "\<And>p. start_op p = Inr (g p)"
  shows "start_all start_op m = Inr (m\<lparr>m_fetchers := (\<lambda>t. map_option (map_option g) (m_fetchers m t))\<rparr>)"
proof -
  have "distinct stream_types" by (simp add: stream_types_def)
  from each_fetcher_all [of stream_types "m_fetchers m" start_op g, OF this assms] show ?thesis
    by (simp add: start_all_def)
qed

section \<open>The providers of the streams\<close>

text \<open>
  What the manager needs of \<open>IStreamProvider\<close>: from a \<open>ready\<close> provider \<open>start\<close> leads to one that is
  running and \<open>stop\<close> to one that is not, and both are ready again.
\<close>

definition fetchers_all :: "('p \<Rightarrow> bool) \<Rightarrow> ('f, 'p) StreamConsumerManager \<Rightarrow> bool" where
  "fetchers_all P m \<longleftrightarrow> (\<forall>t p. m_fetchers m t = Some p \<longrightarrow> (\<exists>q. p = Some q \<and> P q))"

lemma each_fetcher_ready:
  assumes op: "\<And>p. P p \<Longrightarrow> \<exists>p'. op p = Inr p' \<and> Q p'" and "distinct ts"
    and "\<forall>t\<in>set ts. \<forall>p. fs t = Some p \<longrightarrow> (\<exists>q. p = Some q \<and> P q)"
  shows "\<exists>fs'. each_fetcher op ts fs = Inr fs' \<and> dom fs' = dom fs \<and> (\<forall>t. t \<notin> set ts \<longrightarrow> fs' t = fs t)
    \<and> (\<forall>t\<in>set ts. \<forall>p. fs' t = Some p \<longrightarrow> (\<exists>q. p = Some q \<and> Q q))"
  using assms(2,3)
proof (induction ts arbitrary: fs)
  case Nil
  then show ?case by simp
next
  case (Cons t ts)
  show ?case
  proof (cases "fs t")
    case None
    with Cons.prems Cons.IH [of fs] show ?thesis by auto
  next
    case (Some p)
    with Cons.prems obtain q where q: "p = Some q" "P q" by auto
    from op [OF q(2)] obtain q' where q': "op q = Inr q'" "Q q'" by blast
    let ?fs = "fs(t \<mapsto> Some q')"
    from Cons.prems have "distinct ts" "\<forall>u\<in>set ts. \<forall>p. ?fs u = Some p \<longrightarrow> (\<exists>q. p = Some q \<and> P q)" by auto
    from Cons.IH [OF this] obtain fs' where fs': "each_fetcher op ts ?fs = Inr fs'" "dom fs' = dom ?fs"
      "\<forall>u. u \<notin> set ts \<longrightarrow> fs' u = ?fs u" "\<forall>u\<in>set ts. \<forall>p. fs' u = Some p \<longrightarrow> (\<exists>q. p = Some q \<and> Q q)" by blast
    have t: "fs' t = Some (Some q')" using fs'(3) Cons.prems(1) by simp
    have "dom ?fs = dom fs" using Some by auto
    moreover have "each_fetcher op (t # ts) fs = Inr fs'" using Some q q' fs'(1) by simp
    moreover have "fs' u = fs u" if "u \<notin> set (t # ts)" for u using that fs'(3) by simp
    ultimately show ?thesis using fs' t q'(2) by (intro exI [where x = fs']) auto
  qed
qed

lemma each_fetcher_all_types:
  assumes "\<And>p. P p \<Longrightarrow> \<exists>p'. op p = Inr p' \<and> Q p'" and "fetchers_all P m"
  shows "\<exists>fs'. each_fetcher op stream_types (m_fetchers m) = Inr fs' \<and> dom fs' = dom (m_fetchers m)
    \<and> fetchers_all Q (m\<lparr>m_fetchers := fs'\<rparr>)"
proof -
  have "distinct stream_types" by (simp add: stream_types_def)
  from each_fetcher_ready [of P op Q, OF assms(1) this, of "m_fetchers m"] assms(2) show ?thesis
    by (simp add: fetchers_all_def Ball_def)
qed

locale stream_provider =
  fixes start_op :: "'p \<Rightarrow> 'p checked" and stop_op :: "'p \<Rightarrow> 'p checked" and ready :: "'p \<Rightarrow> bool" and active :: "'p \<Rightarrow> bool"
  assumes start_ready: "ready p \<Longrightarrow> \<exists>p'. start_op p = Inr p' \<and> ready p' \<and> active p'"
    and stop_ready: "ready p \<Longrightarrow> \<exists>p'. stop_op p = Inr p' \<and> ready p' \<and> \<not> active p'"
begin

lemma start_all_ready:
  assumes "fetchers_all ready m"
  shows "\<exists>m'. start_all start_op m = Inr m' \<and> m_distributors m' = m_distributors m
    \<and> dom (m_fetchers m') = dom (m_fetchers m) \<and> fetchers_all (\<lambda>p. ready p \<and> active p) m'"
  using each_fetcher_all_types [of ready start_op "\<lambda>p. ready p \<and> active p", OF start_ready assms]
  by (auto simp: start_all_def)

lemma stop_all_ready:
  assumes "fetchers_all ready m"
  shows "\<exists>m'. stop_all stop_op m = Inr m' \<and> m_distributors m' = m_distributors m
    \<and> dom (m_fetchers m') = dom (m_fetchers m) \<and> fetchers_all (\<lambda>p. ready p \<and> \<not> active p) m'"
  using each_fetcher_all_types [of ready stop_op "\<lambda>p. ready p \<and> \<not> active p", OF stop_ready assms]
  by (auto simp: stop_all_def)

end

text \<open>The fetchers: ready while the thread object is joinable exactly when it is running.\<close>

definition fetcher_ready :: "StreamFetcher \<Rightarrow> bool" where
  "fetcher_ready f \<longleftrightarrow> ft_joinable f = ft_running f"

interpretation fetcher: stream_provider fetcher_start "\<lambda>f. Inr (fetcher_stop f)" fetcher_ready ft_running
  by unfold_locales (auto simp: fetcher_ready_def fetcher_start_def fetcher_stop_def Let_def)

end
