(* ===== verification/Recorder_Consumer.thy ===== *)
theory Recorder_Consumer
  imports Bounded_Buffer Stream_Distributor
begin

text \<open>
  \<open>modules/stream/src/recorder_consumer.cpp\<close>: a consumer that flattens every frame into one
  \<open>WriteEntry\<close>, queues it and lets a writer thread append the entries to a file.  When the queue
  is full it drops the oldest entry that is not an IDR frame, if there is one.  The threads are
  the callback thread (\<open>on_frame\<close>), the writer (\<open>write_loop\<close>) and the thread that runs the
  destructor; the writer has the same places as a distributor worker.  \<open>rc_pushed\<close> and
  \<open>rc_taken\<close> are history.
\<close>

section \<open>Flattening a frame\<close>

record WriteEntry =
  we_data :: "u8 list"
  we_is_idr :: bool

text \<open>The two loops over the packs, from index \<open>i\<close> with \<open>n\<close> iterations left.\<close>

fun packs_total_len :: "nat \<Rightarrow> nat \<Rightarrow> FramePack list \<Rightarrow> nat \<Rightarrow> nat checked" where
  "packs_total_len i 0 packs total_len = Inr total_len"
| "packs_total_len i (Suc n) packs total_len =
     (if length packs \<le> i then Inl OutOfBounds
      else packs_total_len (Suc i) n packs (total_len + unat (fp_len (packs ! i))))"

text \<open>\<open>memcpy\<close> of no bytes does nothing; otherwise source and destination must be readable and
  writable over the whole length.\<close>

definition memcpy_pack :: "FramePack \<Rightarrow> nat \<Rightarrow> u8 list \<Rightarrow> u8 list checked" where
  "memcpy_pack pk pos buf =
     (if fp_len pk = 0 then Inr buf
      else case fp_data pk of
          None \<Rightarrow> Inl NullDeref
        | Some bytes \<Rightarrow>
            if length bytes < unat (fp_len pk) \<or> length buf < pos + unat (fp_len pk) then Inl OutOfBounds
            else Inr (take pos buf @ take (unat (fp_len pk)) bytes @ drop (pos + unat (fp_len pk)) buf))"

fun memcpy_packs :: "nat \<Rightarrow> nat \<Rightarrow> FramePack list \<Rightarrow> nat \<Rightarrow> u8 list \<Rightarrow> u8 list checked" where
  "memcpy_packs i 0 packs pos buf = Inr buf"
| "memcpy_packs i (Suc n) packs pos buf =
     (if length packs \<le> i then Inl OutOfBounds
      else case memcpy_pack (packs ! i) pos buf of
          Inl e \<Rightarrow> Inl e
        | Inr buf \<Rightarrow> memcpy_packs (Suc i) n packs (pos + unat (fp_len (packs ! i))) buf)"

definition make_entry :: "StreamFrame \<Rightarrow> WriteEntry checked" where
  "make_entry frame =
     (let packs = fd_packs (sf_data frame); n = unat (fd_pack_count (sf_data frame))
      in case packs_total_len 0 n packs 0 of
           Inl e \<Rightarrow> Inl e
         | Inr total_len \<Rightarrow>
             (case memcpy_packs 0 n packs 0 (replicate total_len 0) of
                Inl e \<Rightarrow> Inl e
              | Inr buf \<Rightarrow> Inr \<lparr>we_data = buf, we_is_idr = is_idr frame\<rparr>))"

section \<open>The recorder\<close>

datatype teardown = Alive | FlagStored | Notified | Joined

record recorder =
  rc_queue :: "WriteEntry list"
  rc_max_queue_size :: nat
  rc_running :: bool
  rc_dropped :: u64
  rc_consumed :: u64
  rc_file :: "u8 list"
  rc_writer :: "WriteEntry worker"
  rc_notify_due :: bool
  rc_teardown :: teardown
  rc_pushed :: "WriteEntry list"
  rc_taken :: "WriteEntry list"

definition new_recorder :: "nat \<Rightarrow> recorder" where
  "new_recorder write_queue_size =
     \<lparr>rc_queue = [], rc_max_queue_size = write_queue_size, rc_running = True, rc_dropped = 0,
      rc_consumed = 0, rc_file = [], rc_writer = WLoop, rc_notify_due = False, rc_teardown = Alive,
      rc_pushed = [], rc_taken = []\<rparr>"

text \<open>The search loop of \<open>try_drop_frame\<close>: erase the first entry that is not an IDR frame.\<close>

fun erase_non_idr :: "WriteEntry list \<Rightarrow> WriteEntry list option" where
  "erase_non_idr [] = None"
| "erase_non_idr (e # q) =
     (if \<not> we_is_idr e then Some q
      else case erase_non_idr q of None \<Rightarrow> None | Some q' \<Rightarrow> Some (e # q'))"

definition try_drop_frame :: "recorder \<Rightarrow> recorder checked" where
  "try_drop_frame r =
     (case erase_non_idr (rc_queue r) of
        Some q \<Rightarrow> Inr (r\<lparr>rc_queue := q, rc_dropped := rc_dropped r + 1\<rparr>)
      | None \<Rightarrow>
          (case rc_queue r of
             [] \<Rightarrow> Inl EmptyPop
           | _ # q \<Rightarrow> Inr (r\<lparr>rc_queue := q, rc_dropped := rc_dropped r + 1\<rparr>)))"

text \<open>The critical section of \<open>on_frame\<close>.\<close>

definition enqueue :: "WriteEntry \<Rightarrow> recorder \<Rightarrow> recorder checked" where
  "enqueue entry r =
     (case (if rc_max_queue_size r \<le> length (rc_queue r) then try_drop_frame r else Inr r) of
        Inl e \<Rightarrow> Inl e
      | Inr r \<Rightarrow> Inr (r\<lparr>rc_queue := rc_queue r @ [entry], rc_pushed := rc_pushed r @ [entry]\<rparr>))"

definition on_frame :: "StreamFrame \<Rightarrow> recorder \<Rightarrow> recorder checked" where
  "on_frame frame r =
     (case make_entry frame of
        Inl e \<Rightarrow> Inl e
      | Inr entry \<Rightarrow>
          (case enqueue entry r of Inl e \<Rightarrow> Inl e | Inr r \<Rightarrow> Inr (r\<lparr>rc_notify_due := True\<rparr>)))"

definition rc_notify :: "recorder \<Rightarrow> recorder" where
  "rc_notify r = (if rc_writer r = WWait then r\<lparr>rc_writer := WLock\<rparr> else r)"

definition rc_mutex_free :: "recorder \<Rightarrow> bool" where
  "rc_mutex_free r \<longleftrightarrow> rc_writer r \<notin> {WLocked, WBlock, WCheck, WPop}"

definition write_loop :: "recorder \<Rightarrow> recorder option" where
  "write_loop r =
     (case rc_writer r of
        WLoop \<Rightarrow> Some (r\<lparr>rc_writer := if rc_running r then WLock else WDone\<rparr>)
      | WLock \<Rightarrow> Some (r\<lparr>rc_writer := WLocked\<rparr>)
      | WLocked \<Rightarrow> Some (r\<lparr>rc_writer := if rc_queue r \<noteq> [] \<or> \<not> rc_running r then WCheck else WBlock\<rparr>)
      | WBlock \<Rightarrow> Some (r\<lparr>rc_writer := WWait\<rparr>)
      | WCheck \<Rightarrow> Some (r\<lparr>rc_writer := if \<not> rc_running r then WDone else WPop\<rparr>)
      | WPop \<Rightarrow>
          (case rc_queue r of
             [] \<Rightarrow> Some (r\<lparr>rc_writer := WCrash\<rparr>)
           | e # q \<Rightarrow> Some (r\<lparr>rc_queue := q, rc_writer := WBusy e, rc_taken := rc_taken r @ [e]\<rparr>))
      | WBusy e \<Rightarrow>
          Some (r\<lparr>rc_writer := WLoop, rc_file := rc_file r @ we_data e, rc_consumed := rc_consumed r + 1\<rparr>)
      | _ \<Rightarrow> None)"

definition teardown_step :: "recorder \<Rightarrow> recorder option" where
  "teardown_step r =
     (case rc_teardown r of
        Alive \<Rightarrow> Some (r\<lparr>rc_running := False, rc_teardown := FlagStored\<rparr>)
      | FlagStored \<Rightarrow> Some ((rc_notify r)\<lparr>rc_teardown := Notified\<rparr>)
      | Notified \<Rightarrow> if rc_writer r = WDone then Some (r\<lparr>rc_teardown := Joined\<rparr>) else None
      | Joined \<Rightarrow> None)"

text \<open>
  The actions.  A frame is delivered only before the destructor starts (the caller removes the
  consumer first), and the callback thread delivers one frame at a time.
\<close>

datatype rc_action = OnFrame StreamFrame | NotifyOne | WriterStep | Teardown | WriterSpurious

fun rc_step :: "rc_action \<Rightarrow> recorder \<Rightarrow> recorder checked option" where
  "rc_step (OnFrame frame) r =
     (if rc_teardown r = Alive \<and> \<not> rc_notify_due r \<and> rc_mutex_free r then Some (on_frame frame r) else None)"
| "rc_step NotifyOne r =
     (if rc_notify_due r then Some (Inr ((rc_notify r)\<lparr>rc_notify_due := False\<rparr>)) else None)"
| "rc_step WriterStep r = map_option Inr (write_loop r)"
| "rc_step Teardown r = (if rc_notify_due r then None else map_option Inr (teardown_step r))"
| "rc_step WriterSpurious r = (if rc_writer r = WWait then Some (Inr (rc_notify r)) else None)"

inductive rc_reachable :: "nat \<Rightarrow> recorder \<Rightarrow> bool" for write_queue_size where
  rc_init: "rc_reachable write_queue_size (new_recorder write_queue_size)"
| rc_next: "rc_reachable write_queue_size r \<Longrightarrow> rc_step x r = Some (Inr r') \<Longrightarrow>
    rc_reachable write_queue_size r'"

section \<open>Flattening\<close>

lemma packs_total_len_eq:
  "i + n \<le> length packs \<Longrightarrow>
     packs_total_len i n packs total_len
       = Inr (total_len + sum_list (map (\<lambda>pk. unat (fp_len pk)) (take n (drop i packs))))"
  by (induction n arbitrary: i total_len) (auto simp: drop_nth_Cons)

text \<open>The bytes can be copied: no null pointer behind a positive length.\<close>

definition pack_copyable :: "FramePack \<Rightarrow> bool" where
  "pack_copyable pk \<longleftrightarrow>
     fp_len pk = 0 \<or> (case fp_data pk of None \<Rightarrow> False | Some bytes \<Rightarrow> unat (fp_len pk) \<le> length bytes)"

lemma length_pack_bytes: "pack_copyable pk \<Longrightarrow> length (pack_bytes pk) = unat (fp_len pk)"
  by (auto simp: pack_copyable_def pack_bytes_def split: option.splits)

lemma memcpy_pack_eq:
  assumes "pos + unat (fp_len pk) \<le> length buf"
  shows "memcpy_pack pk pos buf =
    (if pack_copyable pk
     then Inr (take pos buf @ pack_bytes pk @ drop (pos + unat (fp_len pk)) buf)
     else Inl (if fp_data pk = None then NullDeref else OutOfBounds))"
  using assms
  by (auto simp: memcpy_pack_def pack_copyable_def pack_bytes_def split: option.splits)

lemma memcpy_packs_ok:
  "i + n \<le> length packs \<Longrightarrow> list_all pack_copyable (take n (drop i packs)) \<Longrightarrow>
   pos + sum_list (map (\<lambda>pk. unat (fp_len pk)) (take n (drop i packs))) = length buf \<Longrightarrow>
     memcpy_packs i n packs pos buf
       = Inr (take pos buf @ concat (map pack_bytes (take n (drop i packs))))"
proof (induction n arbitrary: i pos buf)
  case 0
  then show ?case by simp
next
  case (Suc n)
  let ?pk = "packs ! i"
  have split: "take (Suc n) (drop i packs) = ?pk # take n (drop (Suc i) packs)"
    using Suc.prems(1) by (simp add: drop_nth_Cons)
  let ?buf = "take pos buf @ pack_bytes ?pk @ drop (pos + unat (fp_len ?pk)) buf"
  have ok: "pack_copyable ?pk" and pos: "pos + unat (fp_len ?pk) \<le> length buf"
    using Suc.prems(2,3) by (auto simp: split)
  have len: "length ?buf = length buf" "take (pos + unat (fp_len ?pk)) ?buf = take pos buf @ pack_bytes ?pk"
    using pos length_pack_bytes [OF ok] by auto
  have "memcpy_packs (Suc i) n packs (pos + unat (fp_len ?pk)) ?buf
      = Inr ((take pos buf @ pack_bytes ?pk) @ concat (map pack_bytes (take n (drop (Suc i) packs))))"
    using Suc.prems len(1) by (subst len(2) [symmetric], intro Suc.IH) (auto simp: split)
  then show ?case
    using Suc.prems(1) unfolding split by (simp add: memcpy_pack_eq [OF pos] ok)
qed

lemma memcpy_packs_bad:
  "i + n \<le> length packs \<Longrightarrow> \<not> list_all pack_copyable (take n (drop i packs)) \<Longrightarrow>
   pos + sum_list (map (\<lambda>pk. unat (fp_len pk)) (take n (drop i packs))) = length buf \<Longrightarrow>
     \<not> defined (memcpy_packs i n packs pos buf)"
proof (induction n arbitrary: i pos buf)
  case 0
  then show ?case by simp
next
  case (Suc n)
  let ?pk = "packs ! i"
  have split: "take (Suc n) (drop i packs) = ?pk # take n (drop (Suc i) packs)"
    using Suc.prems(1) by (simp add: drop_nth_Cons)
  have pos: "pos + unat (fp_len ?pk) \<le> length buf"
    using Suc.prems(3) by (simp add: split)
  show ?case
  proof (cases "pack_copyable ?pk")
    case False
    with Suc.prems(1) show ?thesis by (simp add: memcpy_pack_eq [OF pos])
  next
    case True
    let ?buf = "take pos buf @ pack_bytes ?pk @ drop (pos + unat (fp_len ?pk)) buf"
    have "\<not> defined (memcpy_packs (Suc i) n packs (pos + unat (fp_len ?pk)) ?buf)"
      using Suc.prems True pos length_pack_bytes [OF True] by (intro Suc.IH) (auto simp: split)
    with Suc.prems(1) True show ?thesis by (simp add: memcpy_pack_eq [OF pos])
  qed
qed

lemma make_entry_eq:
  assumes "unat (fd_pack_count (sf_data frame)) \<le> length (fd_packs (sf_data frame))"
  shows "defined (make_entry frame) \<longleftrightarrow> list_all pack_copyable (frame_packs frame)"
    and "list_all pack_copyable (frame_packs frame) \<Longrightarrow>
      make_entry frame = Inr \<lparr>we_data = concat (map pack_bytes (frame_packs frame)), we_is_idr = is_idr frame\<rparr>"
proof -
  let ?n = "unat (fd_pack_count (sf_data frame))" and ?ps = "fd_packs (sf_data frame)"
  let ?total = "sum_list (map (\<lambda>pk. unat (fp_len pk)) (take ?n ?ps))"
  have total: "packs_total_len 0 ?n ?ps 0 = Inr ?total"
    using packs_total_len_eq [of 0 ?n ?ps 0] assms by simp
  have ok: "make_entry frame = Inr \<lparr>we_data = concat (map pack_bytes (frame_packs frame)), we_is_idr = is_idr frame\<rparr>"
    if "list_all pack_copyable (frame_packs frame)"
    using memcpy_packs_ok [of 0 ?n ?ps 0 "replicate ?total 0"] assms that
    by (simp add: make_entry_def Let_def total frame_packs_def)
  moreover have "\<not> defined (make_entry frame)" if "\<not> list_all pack_copyable (frame_packs frame)"
  proof -
    have "\<not> defined (memcpy_packs 0 ?n ?ps 0 (replicate ?total 0))"
      using memcpy_packs_bad [of 0 ?n ?ps 0 "replicate ?total 0"] assms that
      by (simp add: frame_packs_def)
    then show ?thesis
      by (auto simp: make_entry_def Let_def total split: sum.splits)
  qed
  ultimately show "defined (make_entry frame) \<longleftrightarrow> list_all pack_copyable (frame_packs frame)"
    by (cases "list_all pack_copyable (frame_packs frame)") simp_all
  show "list_all pack_copyable (frame_packs frame) \<Longrightarrow>
      make_entry frame = Inr \<lparr>we_data = concat (map pack_bytes (frame_packs frame)), we_is_idr = is_idr frame\<rparr>"
    by (rule ok)
qed

section \<open>The eviction policy\<close>

lemma erase_non_idr_None: "erase_non_idr q = None \<longleftrightarrow> list_all we_is_idr q"
  by (induction q) (auto split: option.splits)

lemma erase_non_idr_Some:
  "erase_non_idr q = Some q' \<Longrightarrow>
     \<exists>pre e post. q = pre @ e # post \<and> list_all we_is_idr pre \<and> \<not> we_is_idr e \<and> q' = pre @ post"
proof (induction q arbitrary: q')
  case Nil
  then show ?case by simp
next
  case (Cons e q)
  show ?case
  proof (cases "we_is_idr e")
    case False
    with Cons.prems show ?thesis by (intro exI [of _ "[]"]) auto
  next
    case True
    with Cons.prems obtain q1 where q1: "erase_non_idr q = Some q1" "q' = e # q1"
      by (auto split: option.splits)
    with Cons.IH obtain pre f post where
      "q = pre @ f # post" "list_all we_is_idr pre" "\<not> we_is_idr f" "q1 = pre @ post" by blast
    with True q1(2) show ?thesis by (intro exI [of _ "e # pre"]) auto
  qed
qed

text \<open>The entry \<open>try_drop_frame\<close> removes, and the queue without it.\<close>

lemma try_drop_frame_cases:
  assumes "rc_queue r \<noteq> []"
  obtains pre e post where "rc_queue r = pre @ e # post" "list_all we_is_idr pre"
    "we_is_idr e \<Longrightarrow> pre = [] \<and> list_all we_is_idr post"
    "try_drop_frame r = Inr (r\<lparr>rc_queue := pre @ post, rc_dropped := rc_dropped r + 1\<rparr>)"
proof (cases "erase_non_idr (rc_queue r)")
  case None
  with assms obtain e post where "rc_queue r = e # post" "list_all we_is_idr (e # post)"
    by (cases "rc_queue r") (auto simp: erase_non_idr_None split: option.splits if_splits)
  with None that [of "[]" e post] show thesis by (simp add: try_drop_frame_def)
next
  case (Some q)
  then obtain pre e post where
    "rc_queue r = pre @ e # post" "list_all we_is_idr pre" "\<not> we_is_idr e" "q = pre @ post"
    using erase_non_idr_Some by blast
  with Some that [of pre e post] show thesis by (simp add: try_drop_frame_def)
qed

definition rc_bounded :: "recorder \<Rightarrow> bool" where
  "rc_bounded r \<longleftrightarrow> 0 < rc_max_queue_size r \<and> length (rc_queue r) \<le> rc_max_queue_size r"

lemma enqueue_cases:
  assumes "rc_bounded r"
  obtains (room) "length (rc_queue r) < rc_max_queue_size r"
      "enqueue entry r = Inr (r\<lparr>rc_queue := rc_queue r @ [entry], rc_pushed := rc_pushed r @ [entry]\<rparr>)"
  | (full) pre e post where "length (rc_queue r) = rc_max_queue_size r"
      "rc_queue r = pre @ e # post" "list_all we_is_idr pre"
      "we_is_idr e \<Longrightarrow> pre = [] \<and> list_all we_is_idr post"
      "enqueue entry r = Inr (r\<lparr>rc_queue := pre @ post @ [entry], rc_pushed := rc_pushed r @ [entry],
                                rc_dropped := rc_dropped r + 1\<rparr>)"
proof (cases "length (rc_queue r) < rc_max_queue_size r")
  case True
  then show thesis by (intro room) (simp_all add: enqueue_def)
next
  case False
  with assms have len: "length (rc_queue r) = rc_max_queue_size r" and "rc_queue r \<noteq> []"
    by (auto simp: rc_bounded_def)
  from this(2) obtain pre e post where "rc_queue r = pre @ e # post" "list_all we_is_idr pre"
    "we_is_idr e \<Longrightarrow> pre = [] \<and> list_all we_is_idr post"
    "try_drop_frame r = Inr (r\<lparr>rc_queue := pre @ post, rc_dropped := rc_dropped r + 1\<rparr>)"
    by (rule try_drop_frame_cases) blast
  with len show thesis by (intro full [of pre e post]) (auto simp: enqueue_def)
qed

text \<open>The total push of the contract \<open>bounded_buffer\<close>; it agrees with \<open>enqueue\<close> on bounded queues.\<close>

definition enqueue_total :: "WriteEntry \<Rightarrow> recorder \<Rightarrow> recorder" where
  "enqueue_total entry r = (case enqueue entry r of Inl _ \<Rightarrow> r | Inr r' \<Rightarrow> r')"

lemma enqueue_total: "rc_bounded r \<Longrightarrow> enqueue entry r = Inr (enqueue_total entry r)"
  by (rule enqueue_cases [of r entry]) (auto simp: enqueue_total_def)

interpretation recorder_queue: bounded_buffer enqueue_total rc_queue rc_max_queue_size rc_bounded "\<lambda>_. True"
proof unfold_locales
  fix r x assume r: "rc_bounded r"
  show "rc_bounded (enqueue_total x r)"
    using r by (rule enqueue_cases [of r x]) (use r in \<open>auto simp: enqueue_total_def rc_bounded_def\<close>)
  show "rc_max_queue_size (enqueue_total x r) = rc_max_queue_size r"
    using r by (rule enqueue_cases [of r x]) (auto simp: enqueue_total_def)
  show "length (rc_queue r) \<le> rc_max_queue_size r"
    using r by (simp add: rc_bounded_def)
  show "subseq (rc_queue (enqueue_total x r)) (rc_queue r @ [x])"
    using r by (rule enqueue_cases [of r x])
      (auto simp: enqueue_total_def intro: list_emb_append_mono)
  show "rc_queue (enqueue_total x r) \<noteq> [] \<and> last (rc_queue (enqueue_total x r)) = x"
    using r by (rule enqueue_cases [of r x]) (auto simp: enqueue_total_def)
qed

section \<open>Invariant\<close>

definition rc_written :: "recorder \<Rightarrow> WriteEntry list" where
  "rc_written r = (case rc_writer r of WBusy _ \<Rightarrow> butlast (rc_taken r) | _ \<Rightarrow> rc_taken r)"

lemma rc_written_other [simp]:
  "rc_written (r\<lparr>rc_notify_due := b\<rparr>) = rc_written r" "rc_written (r\<lparr>rc_teardown := t\<rparr>) = rc_written r"
  "rc_written (r\<lparr>rc_running := c\<rparr>) = rc_written r"
  by (simp_all add: rc_written_def split: worker.split)

definition rc_inv :: "recorder \<Rightarrow> bool" where
  "rc_inv r \<longleftrightarrow>
     rc_bounded r \<and> worker_inv (rc_writer r) (rc_queue r) (rc_running r)
   \<and> subseq (rc_taken r @ rc_queue r) (rc_pushed r)
   \<and> rc_file r = concat (map we_data (rc_written r))
   \<and> (\<forall>e. rc_writer r = WBusy e \<longrightarrow> rc_taken r \<noteq> [] \<and> last (rc_taken r) = e)
   \<and> (rc_running r \<longleftrightarrow> rc_teardown r = Alive)"

lemma enqueue_inv [inv_intros]:
  assumes "rc_inv r" and "rc_mutex_free r"
  shows "rc_inv (enqueue_total x r)"
proof -
  have b: "rc_bounded r" using assms by (simp add: rc_inv_def)
  have sub: "subseq (rc_taken r @ rc_queue (enqueue_total x r)) (rc_pushed r @ [x])"
  proof -
    have "subseq (rc_taken r @ rc_queue (enqueue_total x r)) (rc_taken r @ rc_queue r @ [x])"
      using recorder_queue.push_subseq [OF b] by (simp add: list_emb_append_mono)
    also have "subseq \<dots> (rc_pushed r @ [x])"
      using assms(1) subseq_snoc_mono [of "rc_taken r @ rc_queue r" "rc_pushed r"] by (simp add: rc_inv_def)
    finally show ?thesis .
  qed
  have same: "rc_taken (enqueue_total x r) = rc_taken r" "rc_pushed (enqueue_total x r) = rc_pushed r @ [x]"
    "rc_writer (enqueue_total x r) = rc_writer r" "rc_file (enqueue_total x r) = rc_file r"
    "rc_running (enqueue_total x r) = rc_running r" "rc_teardown (enqueue_total x r) = rc_teardown r"
    using b by (rule enqueue_cases [of r x]; simp add: enqueue_total_def)+
  have "worker_inv (rc_writer r) (rc_queue r) (rc_running r)"
    using assms(1) unfolding rc_inv_def by blast
  then have "worker_inv (rc_writer r) (rc_queue (enqueue_total x r)) (rc_running r)"
    by (rule worker_inv_mutex_free) (use assms(2) in \<open>simp add: rc_mutex_free_def\<close>)
  moreover have "rc_written (enqueue_total x r) = rc_written r"
    by (simp add: rc_written_def same split: worker.split)
  ultimately show ?thesis
    using assms(1) sub recorder_queue.push_valid [OF b TrueI] by (auto simp: rc_inv_def same)
qed

lemma rc_notify_inv [inv_intros]: "rc_inv r \<Longrightarrow> rc_inv (rc_notify r)"
  by (auto simp: rc_notify_def rc_inv_def rc_bounded_def rc_written_def)

lemma rc_notify_due_inv [inv_intros]: "rc_inv r \<Longrightarrow> rc_inv (r\<lparr>rc_notify_due := b\<rparr>)"
  by (auto simp: rc_inv_def rc_bounded_def)

lemma write_loop_inv [inv_intros]:
  assumes "rc_inv r" and "write_loop r = Some r'"
  shows "rc_inv r'"
proof (cases "rc_writer r")
  case WPop
  with assms(1) obtain e q where q: "rc_queue r = e # q"
    by (cases "rc_queue r") (auto simp: rc_inv_def)
  with assms WPop show ?thesis by (auto simp: write_loop_def rc_inv_def rc_bounded_def rc_written_def)
next
  case (WBusy e)
  with assms have r': "r' = r\<lparr>rc_writer := WLoop, rc_file := rc_file r @ we_data e, rc_consumed := rc_consumed r + 1\<rparr>"
    by (simp add: write_loop_def)
  have "rc_taken r \<noteq> []" "last (rc_taken r) = e"
    using assms(1) WBusy by (simp_all add: rc_inv_def)
  then obtain ts where ts: "rc_taken r = ts @ [e]"
    by (metis append_butlast_last_id)
  with assms(1) WBusy show ?thesis by (auto simp: r' rc_inv_def rc_bounded_def rc_written_def)
qed (use assms in \<open>auto simp: write_loop_def rc_inv_def rc_bounded_def rc_written_def
      split: if_splits\<close>)

lemma teardown_inv [inv_intros]:
  assumes "rc_inv r" and "teardown_step r = Some r'"
  shows "rc_inv r'"
proof (cases "rc_teardown r")
  case Alive
  with assms show ?thesis
    by (cases "rc_writer r") (auto simp: teardown_step_def rc_inv_def rc_bounded_def)
next
  case FlagStored
  with assms have "r' = (rc_notify r)\<lparr>rc_teardown := Notified\<rparr>"
    by (simp add: teardown_step_def)
  moreover have "rc_teardown (rc_notify r) = rc_teardown r" by (simp add: rc_notify_def)
  ultimately show ?thesis
    using rc_notify_inv [OF assms(1)] FlagStored by (auto simp: rc_inv_def rc_bounded_def)
qed (use assms in \<open>auto simp: teardown_step_def rc_inv_def rc_bounded_def split: if_splits\<close>)

text \<open>The entry of a frame all of whose packs can be copied.\<close>

definition frame_entry :: "StreamFrame \<Rightarrow> WriteEntry" where
  "frame_entry frame = \<lparr>we_data = concat (map pack_bytes (frame_packs frame)), we_is_idr = is_idr frame\<rparr>"

lemma enqueue_total_pushed: "rc_bounded r \<Longrightarrow> rc_pushed (enqueue_total e r) = rc_pushed r @ [e]"
  by (rule enqueue_cases [of r e]) (auto simp: enqueue_total_def)

lemma rc_on_frame:
  assumes "rc_inv r" and "unat (fd_pack_count (sf_data frame)) \<le> length (fd_packs (sf_data frame))"
    and "list_all pack_copyable (frame_packs frame)"
  shows "on_frame frame r = Inr ((enqueue_total (frame_entry frame) r)\<lparr>rc_notify_due := True\<rparr>)"
  using make_entry_eq(2) [OF assms(2,3)] assms(1)
  by (simp add: on_frame_def frame_entry_def enqueue_total rc_inv_def)

lemma rc_step_inv:
  assumes "rc_inv r" and "rc_step x r = Some (Inr r')"
  shows "rc_inv r'"
proof (cases x)
  case (OnFrame frame)
  with assms(2) obtain e where "on_frame frame r = Inr r'" "rc_mutex_free r" and e: "make_entry frame = Inr e"
    by (auto simp: on_frame_def split: if_splits sum.splits)
  with assms(1) have "r' = (enqueue_total e r)\<lparr>rc_notify_due := True\<rparr>"
    by (auto simp: on_frame_def enqueue_total rc_inv_def)
  with assms(1) \<open>rc_mutex_free r\<close> show ?thesis by (auto intro: inv_intros)
qed (use assms in \<open>auto split: if_splits intro: inv_intros\<close>)

lemma rc_reachable_inv: "rc_reachable n r \<Longrightarrow> 0 < n \<Longrightarrow> rc_inv r"
proof (induction rule: rc_reachable.induct)
  case rc_init
  then show ?case by (simp add: new_recorder_def rc_inv_def rc_bounded_def rc_written_def)
qed (rule rc_step_inv)

text \<open>Only \<open>on_frame\<close> adds entries, and it is always defined on frames that can be copied.\<close>

lemma rc_step_pushed:
  assumes "rc_step x r = Some r'" and "\<And>frame. x \<noteq> OnFrame frame"
  shows "\<exists>r1. r' = Inr r1 \<and> rc_pushed r1 = rc_pushed r"
  using assms
  by (cases x) (auto simp: write_loop_def teardown_step_def rc_notify_def split: if_splits worker.splits list.splits teardown.splits)

section \<open>Properties\<close>

text \<open>
  C14: eviction never sacrifices an IDR frame while another kind is queued: after \<open>on_frame\<close> has
  enqueued an entry, the queued IDR entries are all the earlier ones followed by the new entry if
  it is one, unless the queue was full of IDR entries only, in which case exactly the oldest left.
\<close>

theorem recorder_keeps_idr:
  assumes "rc_bounded r"
  shows "\<exists>r'. enqueue entry r = Inr r'
    \<and> (let idr = filter we_is_idr (rc_queue r);
           new = (if we_is_idr entry then [entry] else [])
       in filter we_is_idr (rc_queue r') =
            (if length (rc_queue r) = rc_max_queue_size r \<and> length idr = length (rc_queue r)
             then tl idr else idr) @ new)"
proof -
  have "filter we_is_idr (rc_queue (enqueue_total entry r)) =
      (if length (rc_queue r) = rc_max_queue_size r \<and> length (filter we_is_idr (rc_queue r)) = length (rc_queue r)
       then tl (filter we_is_idr (rc_queue r)) else filter we_is_idr (rc_queue r))
      @ (if we_is_idr entry then [entry] else [])"
    using assms
  proof (cases rule: enqueue_cases [of r entry])
    case room
    then show ?thesis by (simp add: enqueue_total_def)
  next
    case (full pre e post)
    show ?thesis
    proof (cases "we_is_idr e")
      case True
      with full have "rc_queue r = e # post" "filter we_is_idr post = post"
        by (auto simp: filter_id_conv list_all_iff)
      with True full show ?thesis by (simp add: enqueue_total_def)
    next
      case False
      with full have "length (filter we_is_idr (rc_queue r)) \<noteq> length (rc_queue r)"
        using length_filter_less [of e "rc_queue r" we_is_idr] by simp
      with False full show ?thesis by (simp add: enqueue_total_def)
    qed
  qed
  then show ?thesis by (simp add: enqueue_total [OF assms] Let_def)
qed

theorem recorder_keeps_idr_witness:
  "\<exists>r'. enqueue \<lparr>we_data = [3], we_is_idr = False\<rparr>
        ((new_recorder 2)\<lparr>rc_queue := [\<lparr>we_data = [1], we_is_idr = True\<rparr>, \<lparr>we_data = [2], we_is_idr = False\<rparr>]\<rparr>)
      = Inr r' \<and> filter we_is_idr (rc_queue r') = [\<lparr>we_data = [1], we_is_idr = True\<rparr>]"
  using recorder_keeps_idr [of "(new_recorder 2)\<lparr>rc_queue :=
      [\<lparr>we_data = [1], we_is_idr = True\<rparr>, \<lparr>we_data = [2], we_is_idr = False\<rparr>]\<rparr>"
      "\<lparr>we_data = [3], we_is_idr = False\<rparr>"]
  by (simp add: rc_bounded_def new_recorder_def Let_def)

text \<open>
  With a positive queue size, in every interleaving the queue stays within its limit, the
  writer never pops an empty queue, the entries written, in progress and queued are an ordered
  selection of the received ones, and the file is the concatenation of the written entries, whole.
\<close>

theorem recorder_file:
  assumes "rc_reachable n r" and "0 < n"
  shows "length (rc_queue r) \<le> rc_max_queue_size r \<and> rc_writer r \<noteq> WCrash
    \<and> subseq (rc_taken r @ rc_queue r) (rc_pushed r)
    \<and> rc_file r = concat (map we_data (rc_written r))"
  using rc_reachable_inv [OF assms] by (auto simp: rc_inv_def rc_bounded_def)

theorem recorder_file_witness:
  "rc_file (new_recorder 30) = concat (map we_data (rc_written (new_recorder 30)))"
  using recorder_file [OF rc_init, of 30] by simp

text \<open>
  Flattening a frame is defined exactly when no pack inside the pack count has a positive
  length behind a null pointer or a short buffer (there is no null check before \<open>memcpy\<close>), and
  then the entry is the concatenation of the packs with the IDR flag of the frame.
\<close>

theorem recorder_make_entry:
  assumes "unat (fd_pack_count (sf_data frame)) \<le> length (fd_packs (sf_data frame))"
  shows "case make_entry frame of
      Inl _ \<Rightarrow> \<not> list_all pack_copyable (frame_packs frame)
    | Inr e \<Rightarrow> list_all pack_copyable (frame_packs frame)
        \<and> we_data e = concat (map pack_bytes (frame_packs frame)) \<and> we_is_idr e = is_idr frame"
  using make_entry_eq [OF assms] by (cases "make_entry frame") auto

definition null_frame :: "u32 \<Rightarrow> StreamFrame" where
  "null_frame len =
     \<lparr>sf_channel = CHN0, sf_type = VIDEO_MAIN, sf_codec = H264, sf_timestamp = 1,
      sf_data = \<lparr>fd_packs = [\<lparr>fp_data = None, fp_len = len, fp_nalu_type = IDR_SLICE\<rparr>],
                 fd_pack_count = 1, fd_seq = 0\<rparr>,
      sf_pack_data = [[]]\<rparr>"

theorem recorder_make_entry_witness:
  "(case make_entry (null_frame 4) of Inl _ \<Rightarrow> True | Inr _ \<Rightarrow> False)
   \<and> \<not> list_all pack_copyable (frame_packs (null_frame 4))"
  using recorder_make_entry [of "null_frame 4"]
  by (cases "make_entry (null_frame 4)")
    (simp_all add: null_frame_def pack_copyable_def frame_packs_def)

text \<open>With \<open>write_queue_size\<close> 0 the first frame pops an empty queue.\<close>

lemma recorder_zero_size: "enqueue entry (new_recorder 0) = Inl EmptyPop"
  by (simp add: enqueue_def try_drop_frame_def new_recorder_def)

text \<open>
  The destructor has the race of \<open>remove_consumer\<close>: in the state below, which is reachable, no
  thread can act any more but for a spurious wakeup, and the destructor has not returned.
\<close>

definition rc_hung :: recorder where
  "rc_hung = (new_recorder 30)\<lparr>rc_running := False, rc_writer := WWait, rc_teardown := Notified\<rparr>"

lemma rc_hung_reachable: "rc_reachable 30 rc_hung"
proof -
  let ?w = "\<lambda>w. (new_recorder 30)\<lparr>rc_writer := w\<rparr>"
  have "rc_reachable 30 (?w WLock)"
    by (rule rc_next [OF rc_init, where x = WriterStep]) (simp add: write_loop_def new_recorder_def)
  then have "rc_reachable 30 (?w WLocked)"
    by (rule rc_next [where x = WriterStep]) (simp add: write_loop_def new_recorder_def)
  then have "rc_reachable 30 (?w WBlock)"
    by (rule rc_next [where x = WriterStep]) (simp add: write_loop_def new_recorder_def)
  then have "rc_reachable 30 ((?w WBlock)\<lparr>rc_running := False, rc_teardown := FlagStored\<rparr>)"
    by (rule rc_next [where x = Teardown]) (simp add: teardown_step_def new_recorder_def)
  then have "rc_reachable 30 ((?w WBlock)\<lparr>rc_running := False, rc_teardown := Notified\<rparr>)"
    by (rule rc_next [where x = Teardown]) (simp add: teardown_step_def rc_notify_def new_recorder_def)
  then show ?thesis
    by (rule rc_next [where x = WriterStep]) (simp add: write_loop_def rc_hung_def new_recorder_def)
qed

text \<open>
  A recorder can hang in its destructor: a reachable state in which the destructor waits in
  \<open>join\<close>, the writer waits for a notification, and no action but a spurious wakeup is possible.
\<close>

theorem recorder_destructor_can_hang:
  "rc_reachable 30 rc_hung \<and> rc_teardown rc_hung = Notified
   \<and> (case x of WriterSpurious \<Rightarrow> True | _ \<Rightarrow> rc_step x rc_hung = None)"
  using rc_hung_reachable
  by (cases x) (simp_all add: rc_hung_def new_recorder_def write_loop_def teardown_step_def)

end
