(* ===== verification/Stream_System.thy ===== *)
theory Stream_System
  imports Rtsp_Spec Stream_Manager Recorder_Consumer
begin

text \<open>
  One stream end to end: the fetcher's thread takes pictures from the encoder and pushes them to the
  distributor (\<open>StreamFetcher::run\<close>), the workers of the distributor call the callbacks of their
  consumers (\<open>worker_func\<close>), and the consumers do the rest: the RTSP server, whose callback
  \<open>main\<close> registers, or the recorder.  A callback is an argument of the model, as it is one of
  \<open>add_consumer\<close>: \<open>cb a now f c\<close> is the callback of the slot at address \<open>a\<close> on the frame \<open>f\<close> in the
  state \<open>c\<close> of the consumers, \<open>None\<close> while it has to wait, and whether it throws; \<open>other x c\<close> is what the consumers'
  other threads do.  The locale \<open>frame_consumer\<close> says what the pipeline needs of a consumer.
\<close>

section \<open>The system\<close>

text \<open>\<open>ss_fetched\<close> (the frames pushed) and \<open>ss_calls\<close> (the callbacks made) are history.\<close>

record 'c stream_sys =
  ss_fetcher :: StreamFetcher
  ss_dist :: "StreamFrame dist"
  ss_consumers :: 'c
  ss_fetched :: "StreamFrame list"
  ss_calls :: "(nat \<times> StreamFrame) list"

text \<open>
  The actions.  \<open>FetcherTurn\<close> has the answers of \<open>select\<close> and of the driver, the uninitialised frame of
  the turn, the time of the last frame of any stream, and the clock.
\<close>

datatype 'x sys_action =
    FetcherStart int
  | FetcherStop
  | FetcherTurn int venc_env FrameData u64 u64
  | DistAct "StreamFrame action"
  | Callback nat int
  | ConsumerAct 'x

text \<open>Thread 0 of the distributor is the fetcher's; it takes the next picture when \<open>push\<close> has returned.\<close>

definition fetcher_turn_step ::
  "int \<Rightarrow> venc_env \<Rightarrow> FrameData \<Rightarrow> u64 \<Rightarrow> u64 \<Rightarrow> 'c stream_sys \<Rightarrow> 'c stream_sys checked option" where
  "fetcher_turn_step ret env frame t0 now s =
     (if \<not> ft_running (ss_fetcher s) \<or> d_push (ss_dist s) 0 \<noteq> None then None
      else Some (case run_turn ret env frame t0 now (ss_fetcher s) of
          Inl e \<Rightarrow> Inl e
        | Inr (None, f, _) \<Rightarrow> Inr (s\<lparr>ss_fetcher := f\<rparr>)
        | Inr (Some sf, f, _) \<Rightarrow>
            Inr (s\<lparr>ss_fetcher := f, ss_dist := push_begin 0 sf (ss_dist s), ss_fetched := ss_fetched s @ [sf]\<rparr>)))"

text \<open>The callback of a busy worker runs and returns or throws.\<close>

definition callback_step ::
  "(nat \<Rightarrow> int \<Rightarrow> StreamFrame \<Rightarrow> 'c \<Rightarrow> (bool \<times> 'c) checked option) \<Rightarrow> nat \<Rightarrow> int \<Rightarrow> 'c stream_sys \<Rightarrow> 'c stream_sys checked option" where
  "callback_step cb a now s =
     (if length (d_heap (ss_dist s)) \<le> a then None
      else case sl_worker (d_heap (ss_dist s) ! a) of
          WBusy f \<Rightarrow>
            (case cb a now f (ss_consumers s) of
               None \<Rightarrow> None
             | Some (Inl e) \<Rightarrow> Some (Inl e)
             | Some (Inr (threw, c)) \<Rightarrow>
                 map_option (\<lambda>d. Inr (s\<lparr>ss_dist := d, ss_consumers := c, ss_calls := ss_calls s @ [(a, f)]\<rparr>))
                   (dist_step (CallbackEnd a threw) (ss_dist s)))
        | _ \<Rightarrow> None)"

text \<open>
  Frames are pushed and callbacks run only as above; every other action of the distributor is free.
  \<open>start\<close> of a running fetcher does nothing, and \<open>stop\<close> waits for its thread.
\<close>

fun dist_act_free :: "'f action \<Rightarrow> bool" where
  "dist_act_free (PushBegin t f) = False"
| "dist_act_free (CallbackEnd a threw) = False"
| "dist_act_free _ = True"

fun sys_step ::
  "(nat \<Rightarrow> int \<Rightarrow> StreamFrame \<Rightarrow> 'c \<Rightarrow> (bool \<times> 'c) checked option) \<Rightarrow> ('x \<Rightarrow> 'c \<Rightarrow> 'c checked option)
     \<Rightarrow> 'x sys_action \<Rightarrow> 'c stream_sys \<Rightarrow> 'c stream_sys checked option" where
  "sys_step cb other (FetcherStart fd) s =
     (if ft_running (ss_fetcher s) then Some (Inr s)
      else Some (case fetcher_start (ss_fetcher s) of
          Inl e \<Rightarrow> Inl e | Inr f \<Rightarrow> Inr (s\<lparr>ss_fetcher := run_begin fd f\<rparr>)))"
| "sys_step cb other FetcherStop s =
     (if d_push (ss_dist s) 0 \<noteq> None then None else Some (Inr (s\<lparr>ss_fetcher := fetcher_stop (ss_fetcher s)\<rparr>)))"
| "sys_step cb other (FetcherTurn ret env frame t0 now) s = fetcher_turn_step ret env frame t0 now s"
| "sys_step cb other (DistAct x) s =
     (if dist_act_free x then map_option (\<lambda>d. Inr (s\<lparr>ss_dist := d\<rparr>)) (dist_step x (ss_dist s)) else None)"
| "sys_step cb other (Callback a now) s = callback_step cb a now s"
| "sys_step cb other (ConsumerAct x) s =
     map_option (map_sum id (\<lambda>c. s\<lparr>ss_consumers := c\<rparr>)) (other x (ss_consumers s))"

fun sys_run ::
  "(nat \<Rightarrow> int \<Rightarrow> StreamFrame \<Rightarrow> 'c \<Rightarrow> (bool \<times> 'c) checked option) \<Rightarrow> ('x \<Rightarrow> 'c \<Rightarrow> 'c checked option)
     \<Rightarrow> 'x sys_action list \<Rightarrow> 'c stream_sys \<Rightarrow> 'c stream_sys checked option" where
  "sys_run cb other [] s = Some (Inr s)"
| "sys_run cb other (x # xs) s =
     (case sys_step cb other x s of
        None \<Rightarrow> None
      | Some (Inl e) \<Rightarrow> Some (Inl e)
      | Some (Inr s') \<Rightarrow> sys_run cb other xs s')"

definition new_stream_sys :: "StreamFetcher \<Rightarrow> 'c \<Rightarrow> 'c stream_sys" where
  "new_stream_sys f c =
     \<lparr>ss_fetcher = f, ss_dist = new_distributor (ft_channel f), ss_consumers = c, ss_fetched = [], ss_calls = []\<rparr>"

section \<open>What the distributor does to a frame\<close>

lemma subseq_in_set: "subseq xs ys \<Longrightarrow> x \<in> set xs \<Longrightarrow> x \<in> set ys"
  by (erule list_emb_set) auto

text \<open>The addresses the fetcher's push still has to serve, and the frames that have arrived, or are about
  to arrive, at a slot.\<close>

fun pusher_rest :: "'f pusher \<Rightarrow> nat list" where
  "pusher_rest (Pushing f as) = as"
| "pusher_rest (Notifying f a as) = as"

definition arrived :: "'f dist \<Rightarrow> nat \<Rightarrow> 'f list" where
  "arrived d a = sl_pushed (d_heap d ! a) @
     (case d_push d 0 of None \<Rightarrow> [] | Some p \<Rightarrow> if a \<in> set (pusher_rest p) then [pusher_frame p] else [])"

fun busy_frame :: "'f worker \<Rightarrow> 'f list" where
  "busy_frame (WBusy f) = [f]"
| "busy_frame _ = []"

definition one_pusher :: "'f dist \<Rightarrow> bool" where
  "one_pusher d \<longleftrightarrow> (\<forall>t. t \<noteq> 0 \<longrightarrow> d_push d t = None) \<and> (\<forall>p. d_push d 0 = Some p \<longrightarrow> distinct (pusher_rest p))"

lemma one_pusherD: "one_pusher d \<Longrightarrow> d_push d t = Some p \<Longrightarrow> t = 0 \<and> distinct (pusher_rest p)"
  by (cases "t = 0") (auto simp: one_pusher_def)

lemma pusher_rest_addrs: "set (pusher_rest p) \<subseteq> set (pusher_addrs p)"
  by (cases p) auto

text \<open>Nothing but a push brings frames to a slot, nothing but its worker takes them.\<close>

lemma free_step_slot:
  assumes one: "one_pusher d" and ok: "addrs_ok d" and step: "dist_step x d = Some d'" and free: "dist_act_free x"
    and a: "a < length (d_heap d)"
  shows "arrived d' a = arrived d a"
    and "\<exists>g. sl_taken (d_heap d' ! a) = sl_taken (d_heap d ! a) @ g
         \<and> busy_frame (sl_worker (d_heap d' ! a)) = busy_frame (sl_worker (d_heap d ! a)) @ g"
proof -
  note bound = pusher_addr_bound [OF ok] shut_addr_bound [OF ok]
  show "arrived d' a = arrived d a"
    using step
  proof (cases rule: dist_step_cases)
    case (finish t f)
    with one_pusherD [OF one finish(1)] show ?thesis by (simp add: arrived_def)
  next
    case (push t f b as)
    with one_pusherD [OF one push(1)] a bound(1) [OF push(1), of b] show ?thesis
      by (auto simp: arrived_def upd_slot_nth)
  next
    case (wake t f b as)
    with one_pusherD [OF one wake(2)] a bound(1) [OF wake(2), of b] show ?thesis
      by (auto simp: arrived_def upd_slot_nth slot_notify_def)
  qed (use free a bound(2) in \<open>auto simp: arrived_def upd_slot_nth add_consumer_def remove_consumer_def destroy_def
         Let_def nth_append slot_notify_def slot_clear_def worker_func_def split: option.splits worker.splits list.splits\<close>)
  show "\<exists>g. sl_taken (d_heap d' ! a) = sl_taken (d_heap d ! a) @ g
         \<and> busy_frame (sl_worker (d_heap d' ! a)) = busy_frame (sl_worker (d_heap d ! a)) @ g"
    using step
    by (cases rule: dist_step_cases; use free a bound in
        \<open>auto simp: upd_slot_nth add_consumer_def remove_consumer_def destroy_def Let_def nth_append
             slot_notify_def slot_clear_def worker_func_def
           split: option.splits worker.splits list.splits\<close>)
qed

lemma free_step_new:
  assumes ok: "addrs_ok d" and step: "dist_step x d = Some d'"
    and "length (d_heap d) \<le> a" and "a < length (d_heap d')"
  shows "arrived d' a = [] \<and> sl_taken (d_heap d' ! a) = [] \<and> busy_frame (sl_worker (d_heap d' ! a)) = []"
  using ok step
proof (cases rule: heap_step)
  case (new config)
  have "a \<notin> set (pusher_rest p)" if "d_push d 0 = Some p" for p
    using pusher_addr_bound [OF ok that, of a] pusher_rest_addrs [of p] assms(3) by auto
  with new assms(3,4) show ?thesis
    by (simp add: arrived_def nth_append fresh_slot_def split: option.split)
qed (use assms(3,4) in simp)

lemma free_step_one_pusher:
  assumes "one_pusher d" and "dist_step x d = Some d'" and "dist_act_free x"
  shows "one_pusher d'"
  using assms(2)
  by (cases rule: dist_step_cases; use assms(1,3) in
      \<open>auto simp: one_pusher_def add_consumer_def remove_consumer_def destroy_def Let_def split: option.splits\<close>)

section \<open>Invariant\<close>

text \<open>
  At every slot the frames that have arrived are an ordered selection of those fetched, and the
  frames its worker took are those its callback was called with, and the one it is called with now.
\<close>

definition calls_at :: "nat \<Rightarrow> (nat \<times> StreamFrame) list \<Rightarrow> StreamFrame list" where
  "calls_at a h = map snd (filter (\<lambda>(b, _). b = a) h)"

definition calls_of :: "nat \<Rightarrow> 'c stream_sys \<Rightarrow> StreamFrame list" where
  "calls_of a s = calls_at a (ss_calls s)"

lemma calls_at_simps [simp]:
  "calls_at a [] = []" "calls_at a (h @ [(b, f)]) = calls_at a h @ (if b = a then [f] else [])"
  by (simp_all add: calls_at_def)

definition sys_order :: "'c stream_sys \<Rightarrow> bool" where
  "sys_order s \<longleftrightarrow>
     (\<forall>a < length (d_heap (ss_dist s)).
        subseq (arrived (ss_dist s) a) (ss_fetched s)
      \<and> sl_taken (d_heap (ss_dist s) ! a) = calls_of a s @ busy_frame (sl_worker (d_heap (ss_dist s) ! a)))
   \<and> (\<forall>(a, _) \<in> set (ss_calls s). a < length (d_heap (ss_dist s)))"

lemma sys_orderD:
  assumes "sys_order s" and "a < length (d_heap (ss_dist s))"
  shows "subseq (arrived (ss_dist s) a) (ss_fetched s)"
    and "sl_taken (d_heap (ss_dist s) ! a) = calls_of a s @ busy_frame (sl_worker (d_heap (ss_dist s) ! a))"
  using assms unfolding sys_order_def by blast+

lemma calls_of_new:
  assumes "sys_order s" and "length (d_heap (ss_dist s)) \<le> a"
  shows "calls_of a s = []"
proof -
  have "b \<noteq> a" if "(b, f) \<in> set (ss_calls s)" for b f
    using that assms unfolding sys_order_def by fastforce
  then show ?thesis by (auto simp: calls_of_def calls_at_def filter_empty_conv)
qed

lemma sys_order_dist:
  assumes order: "sys_order s" and one: "one_pusher (ss_dist s)" and ok: "addrs_ok (ss_dist s)"
    and step: "dist_step x (ss_dist s) = Some d'" and free: "dist_act_free x"
  shows "sys_order (s\<lparr>ss_dist := d'\<rparr>)"
proof -
  let ?d = "ss_dist s"
  have slots: "distinct (d_slots ?d)" "set (d_slots ?d) \<subseteq> {..<length (d_heap ?d)}"
    using ok by (simp_all add: addrs_ok_def)
  have grow: "length (d_heap ?d) \<le> length (d_heap d')" by (rule slots_origin(3) [OF step slots])
  have "subseq (arrived d' a) (ss_fetched s)
      \<and> sl_taken (d_heap d' ! a) = calls_of a s @ busy_frame (sl_worker (d_heap d' ! a))"
    if a: "a < length (d_heap d')" for a
  proof (cases "a < length (d_heap ?d)")
    case True
    with free_step_slot [OF one ok step free True] sys_orderD [OF order True] show ?thesis by auto
  next
    case False
    with free_step_new [OF ok step _ a] calls_of_new [OF order] show ?thesis by simp
  qed
  moreover have "calls_of a (s\<lparr>ss_dist := d'\<rparr>) = calls_of a s" for a by (simp add: calls_of_def)
  ultimately show ?thesis using order grow by (fastforce simp: sys_order_def)
qed

lemma sys_order_push:
  assumes order: "sys_order s" and "d_push (ss_dist s) 0 = None"
  shows "sys_order (s\<lparr>ss_fetcher := f, ss_dist := push_begin 0 sf (ss_dist s), ss_fetched := ss_fetched s @ [sf]\<rparr>)"
proof -
  have "subseq (arrived (push_begin 0 sf (ss_dist s)) a) (ss_fetched s @ [sf])" if "a < length (d_heap (ss_dist s))" for a
    using sys_orderD(1) [OF order that] assms(2)
    by (auto simp: arrived_def push_begin_def subseq_snoc_mono intro: list_emb_prefix)
  with order show ?thesis by (auto simp: sys_order_def calls_of_def push_begin_def)
qed

lemma sys_order_call:
  assumes order: "sys_order s" and a: "a < length (d_heap (ss_dist s))" and busy: "sl_worker (d_heap (ss_dist s) ! a) = WBusy f"
    and step: "dist_step (CallbackEnd a threw) (ss_dist s) = Some d'"
  shows "sys_order (s\<lparr>ss_dist := d', ss_consumers := c, ss_calls := ss_calls s @ [(a, f)]\<rparr>)"
proof -
  let ?d = "ss_dist s" and ?s = "s\<lparr>ss_dist := d', ss_consumers := c, ss_calls := ss_calls s @ [(a, f)]\<rparr>"
  have d': "length (d_heap d') = length (d_heap ?d)" "arrived d' b = arrived ?d b"
    "sl_taken (d_heap d' ! b) = sl_taken (d_heap ?d ! b)"
    "busy_frame (sl_worker (d_heap d' ! b)) = (if b = a then [] else busy_frame (sl_worker (d_heap ?d ! b)))" for b
    using step a busy by (auto simp: callback_end_def arrived_def upd_slot_nth split: if_splits)
  have "calls_of b ?s = calls_of b s @ (if b = a then [f] else [])" for b by (simp add: calls_of_def)
  with order a busy sys_orderD(2) [OF order a] show ?thesis
    unfolding sys_order_def by (auto simp: d')
qed

definition fetcher_ids :: "StreamFetcher \<Rightarrow> VencChannel \<times> StreamType \<times> CodecType" where
  "fetcher_ids f = (ft_channel f, ft_stream_type f, ft_codec_type f)"

text \<open>What holds whatever the consumers do.\<close>

definition sys_base :: "'c stream_sys \<Rightarrow> bool" where
  "sys_base s \<longleftrightarrow> dist_reachable (ss_dist s) \<and> one_pusher (ss_dist s) \<and> sys_order s"

lemma sys_base_same [simp]:
  "sys_base (s\<lparr>ss_fetcher := f\<rparr>) = sys_base s" "sys_base (s\<lparr>ss_consumers := c\<rparr>) = sys_base s"
  by (simp_all add: sys_base_def sys_order_def calls_of_def)

lemma sys_base_dist:
  assumes "sys_base s" and "dist_act_free x" and "dist_step x (ss_dist s) = Some d'"
  shows "sys_base (s\<lparr>ss_dist := d'\<rparr>)"
  using assms dist_next [of "ss_dist s" x d'] dist_reachable_inv [of "ss_dist s"]
    free_step_one_pusher [of "ss_dist s" x d'] sys_order_dist [of s x d']
  by (simp add: sys_base_def dist_inv_def)

lemma sys_base_push:
  assumes "sys_base s" and "d_push (ss_dist s) 0 = None"
  shows "sys_base (s\<lparr>ss_fetcher := f, ss_dist := push_begin 0 sf (ss_dist s), ss_fetched := ss_fetched s @ [sf]\<rparr>)"
proof -
  have "dist_reachable (push_begin 0 sf (ss_dist s))"
    by (rule dist_next [of "ss_dist s" "PushBegin 0 sf"]) (use assms in \<open>simp_all add: sys_base_def\<close>)
  moreover have "one_pusher (push_begin 0 sf (ss_dist s))"
    using assms(1) dist_reachable_inv [of "ss_dist s"]
    by (auto simp: sys_base_def one_pusher_def push_begin_def dist_inv_def addrs_ok_def)
  ultimately show ?thesis
    using assms(1) sys_order_push [OF _ assms(2), where f = f and sf = sf] by (simp add: sys_base_def)
qed

lemma sys_base_call:
  assumes "sys_base s" and a: "a < length (d_heap (ss_dist s))" and busy: "sl_worker (d_heap (ss_dist s) ! a) = WBusy f"
    and step: "dist_step (CallbackEnd a threw) (ss_dist s) = Some d'"
  shows "sys_base (s\<lparr>ss_dist := d', ss_consumers := c, ss_calls := ss_calls s @ [(a, f)]\<rparr>)"
proof -
  have "one_pusher d'"
    using assms(1) a step by (auto simp: sys_base_def one_pusher_def callback_end_def busy split: if_splits)
  with assms(1) dist_next [OF _ step] sys_order_call [OF _ a busy step] show ?thesis by (simp add: sys_base_def)
qed

lemma new_stream_sys_base: "sys_base (new_stream_sys f c)"
  by (simp add: sys_base_def new_stream_sys_def dist_init one_pusher_def sys_order_def) (simp add: new_distributor_def)

lemma sys_base_taken:
  assumes "sys_base s" and a: "a < length (d_heap (ss_dist s))"
  shows "subseq (calls_of a s @ busy_frame (sl_worker (d_heap (ss_dist s) ! a))) (ss_fetched s)"
proof -
  let ?sl = "d_heap (ss_dist s) ! a"
  have order: "sys_order s" "dist_reachable (ss_dist s)" using assms(1) by (simp_all add: sys_base_def)
  then obtain old where "sl_pushed ?sl = old @ sl_queue ?sl" "subseq (sl_taken ?sl) old"
    using dist_reachable_slot [OF _ a] by (auto simp: slot_inv_def slot_history_def)
  then have "subseq (sl_taken ?sl) (arrived (ss_dist s) a)" by (simp add: arrived_def list_emb_prefix)
  also note sys_orderD(1) [OF order(1) a]
  finally show ?thesis by (simp add: sys_orderD(2) [OF order(1) a])
qed

lemma sys_base_calls:
  assumes "sys_base s"
  shows "subseq (calls_of a s) (ss_fetched s)"
proof (cases "a < length (d_heap (ss_dist s))")
  case True
  have "subseq (calls_of a s) (calls_of a s @ fs)" for fs by (rule list_emb_prefix) simp
  with sys_base_taken [OF assms True] show ?thesis by (blast intro: subseq_order.trans)
next
  case False
  with calls_of_new [of s a] assms show ?thesis by (simp add: sys_base_def)
qed

lemma sys_base_busy:
  assumes "sys_base s" and "a < length (d_heap (ss_dist s))" and "sl_worker (d_heap (ss_dist s) ! a) = WBusy f"
  shows "f \<in> set (ss_fetched s)"
  by (rule subseq_in_set [OF sys_base_taken [OF assms(1,2)]]) (simp add: assms(3))

lemma sys_base_step:
  assumes base: "sys_base s" and step: "sys_step cb other x s = Some (Inr s')"
  shows "sys_base s'"
proof (cases x)
  case (FetcherTurn ret env frame t0 now)
  with step base show ?thesis
    by (auto simp: fetcher_turn_step_def sys_base_push split: if_splits sum.splits prod.splits option.splits)
next
  case (DistAct y)
  with step base sys_base_dist show ?thesis by (auto split: if_splits)
next
  case (Callback a now)
  with step base show ?thesis
    by (auto simp: callback_step_def simp del: dist_step.simps intro!: sys_base_call
        split: if_splits worker.splits sum.splits prod.splits option.splits)
next
  case (ConsumerAct y)
  with step obtain rc where "other y (ss_consumers s) = Some rc" "map_sum id (\<lambda>c. s\<lparr>ss_consumers := c\<rparr>) rc = Inr s'"
    by auto
  with base show ?thesis by (cases rc) auto
qed (use assms in \<open>auto split: if_splits sum.splits\<close>)

lemma sys_base_run: "sys_base s \<Longrightarrow> sys_run cb other xs s = Some (Inr s') \<Longrightarrow> sys_base s'"
  by (induction xs arbitrary: s) (auto split: option.splits sum.splits dest: sys_base_step)

text \<open>What the constructor of \<open>StreamFrame\<close> makes of the encoder's packs: a frame that is safe to read.\<close>

definition good_frame :: "StreamFrame \<Rightarrow> bool" where
  "good_frame f \<longleftrightarrow> wf_frame f \<and> list_all pack_copyable (frame_packs f)"

definition stream_inv ::
  "VencChannel \<times> StreamType \<times> CodecType \<Rightarrow> ((nat \<times> StreamFrame) list \<Rightarrow> 'c \<Rightarrow> bool) \<Rightarrow> 'c stream_sys \<Rightarrow> bool" where
  "stream_inv ids good s \<longleftrightarrow>
     sys_base s
   \<and> (\<forall>f \<in> set (ss_fetched s). good_frame f \<and> (sf_channel f, sf_type f, sf_codec f) = ids)
   \<and> good (ss_calls s) (ss_consumers s)
   \<and> fetcher_ready (ss_fetcher s) \<and> fetcher_ids (ss_fetcher s) = ids"

lemma stream_inv_busy:
  assumes "stream_inv ids good s" and a: "a < length (d_heap (ss_dist s))"
    and "sl_worker (d_heap (ss_dist s) ! a) = WBusy f"
  shows "good_frame f \<and> (sf_channel f, sf_type f, sf_codec f) = ids"
proof -
  have "f \<in> set (ss_fetched s)"
    using sys_base_busy [of s a f] assms by (simp add: stream_inv_def)
  with assms(1) show ?thesis unfolding stream_inv_def by blast
qed

section \<open>Pictures\<close>

text \<open>The assumptions on what the system is given: file descriptors, and the contract of the driver.\<close>

fun act_ok :: "'x sys_action \<Rightarrow> bool" where
  "act_ok (FetcherStart fd) = (0 \<le> fd)"
| "act_ok (FetcherTurn ret env frame t0 now) = (env_contract env \<and> length (fd_packs frame) = MAX_PACKS)"
| "act_ok _ = True"

text \<open>The payloads, pack by pack, of the pictures that the turns of a run get from the encoder.\<close>

fun picture_of :: "'x sys_action \<Rightarrow> u8 list list option" where
  "picture_of (FetcherTurn ret env frame t0 now) =
     (if turn_succeeds ret env then Some (map venc_payload (taken_packs env)) else None)"
| "picture_of _ = None"

definition pictures :: "'x sys_action list \<Rightarrow> u8 list list list" where
  "pictures xs = List.map_filter picture_of xs"

definition frame_payloads :: "StreamFrame \<Rightarrow> u8 list list" where
  "frame_payloads f = map pack_bytes (frame_packs f)"

lemma pictures_simps [simp]:
  "pictures [] = []" "pictures (x # xs) = (case picture_of x of None \<Rightarrow> [] | Some pic \<Rightarrow> [pic]) @ pictures xs"
  by (simp_all add: pictures_def map_filter_simps split: option.split)

lemma fetcher_turn:
  assumes ok: "env_contract env" "length (fd_packs frame) = MAX_PACKS" and r: "fetcher_turn_step ret env frame t0 now s = Some r"
    and "fetcher_ready (ss_fetcher s)"
  obtains (idle) f' where "r = Inr (s\<lparr>ss_fetcher := f'\<rparr>)" "\<not> turn_succeeds ret env"
      "fetcher_ready f'" "fetcher_ids f' = fetcher_ids (ss_fetcher s)"
  | (picture) f' sf where
      "r = Inr (s\<lparr>ss_fetcher := f', ss_dist := push_begin 0 sf (ss_dist s), ss_fetched := ss_fetched s @ [sf]\<rparr>)"
      "d_push (ss_dist s) 0 = None" "turn_succeeds ret env" "fetcher_ready f'" "fetcher_ids f' = fetcher_ids (ss_fetcher s)"
      "good_frame sf" "(sf_channel sf, sf_type sf, sf_codec sf) = fetcher_ids (ss_fetcher s)"
      "frame_payloads sf = map venc_payload (taken_packs env)"
  using ok
proof (cases rule: run_turn_cases [of env frame ret t0 now "ss_fetcher s"])
  case (no_frame f' calls)
  then show thesis
    using r assms(4) by (intro idle [of f']) (auto simp: fetcher_turn_step_def fetcher_ids_def fetcher_ready_def split: if_splits)
next
  case (one_frame sf calls)
  let ?c = "ft_codec_type (ss_fetcher s)"
  have contract: "pack_contract p" if "p \<in> set (taken_packs env)" for p
    using taken_packs_contract [OF ok(1) that] .
  have "wf_frame sf" by (rule new_stream_frame_wf [OF one_frame(5,4)])
  moreover have "pack_copyable (copied_pack (frame_pack_of c p))" if "p \<in> set (taken_packs env)" for c p
    using frame_pack_of_contract(1) [OF contract [OF that], of c]
    by (auto simp: pack_copyable_def copied_pack_def pack_readable_def pack_bytes_def frame_pack_of_def Let_def)
  then have "list_all pack_copyable (frame_packs sf)" by (auto simp: one_frame(6) list_all_iff)
  moreover have "frame_payloads sf = map venc_payload (taken_packs env)"
    using frame_pack_of_contract(2) [OF contract, of _ ?c] by (simp add: frame_payloads_def one_frame(6) venc_payload_def)
  ultimately show thesis
    using one_frame r assms(4)
    by (intro picture [where sf = sf and f' = "(ss_fetcher s)\<lparr>ft_pack := None, ft_pack_cnt := ve_pack_cnt env\<rparr>"])
      (auto simp: fetcher_turn_step_def fetcher_ids_def fetcher_ready_def good_frame_def split: if_splits)
qed

section \<open>Consumers\<close>

text \<open>
  The contract of the consumers: \<open>good h c\<close> is their invariant after the calls \<open>h\<close>; a callback on
  a safe frame is defined and keeps it, and so is what their other threads do.
\<close>

locale frame_consumer =
  fixes cb :: "nat \<Rightarrow> int \<Rightarrow> StreamFrame \<Rightarrow> 'c \<Rightarrow> (bool \<times> 'c) checked option"
    and other :: "'x \<Rightarrow> 'c \<Rightarrow> 'c checked option"
    and good :: "(nat \<times> StreamFrame) list \<Rightarrow> 'c \<Rightarrow> bool"
  assumes callback: "good h c \<Longrightarrow> good_frame f \<Longrightarrow> cb a now f c = Some r \<Longrightarrow>
      \<exists>threw c'. r = Inr (threw, c') \<and> good (h @ [(a, f)]) c'"
    and act: "good h c \<Longrightarrow> other x c = Some rx \<Longrightarrow> \<exists>c'. rx = Inr c' \<and> good h c'"
begin

lemma callback_keeps:
  assumes inv: "stream_inv ids good s" and r: "callback_step cb a now s = Some r"
  shows "\<exists>s'. r = Inr s' \<and> stream_inv ids good s' \<and> ss_fetched s' = ss_fetched s"
proof -
  from r obtain f where a: "a < length (d_heap (ss_dist s))" and busy: "sl_worker (d_heap (ss_dist s) ! a) = WBusy f"
    by (auto simp: callback_step_def split: if_splits worker.splits)
  from a busy r obtain rc where rc: "cb a now f (ss_consumers s) = Some rc"
    by (auto simp: callback_step_def split: option.splits)
  have "good (ss_calls s) (ss_consumers s)" using inv by (simp add: stream_inv_def)
  from callback [OF this _ rc] stream_inv_busy [OF inv a busy] obtain threw c' where
    c': "rc = Inr (threw, c')" "good (ss_calls s @ [(a, f)]) c'" by blast
  have "\<exists>d'. dist_step (CallbackEnd a threw) (ss_dist s) = Some d'"
    using a busy by (simp add: callback_end_def)
  then obtain d' where d': "dist_step (CallbackEnd a threw) (ss_dist s) = Some d'" by blast
  let ?s = "s\<lparr>ss_dist := d', ss_consumers := c', ss_calls := ss_calls s @ [(a, f)]\<rparr>"
  have "sys_base ?s" by (rule sys_base_call [OF _ a busy d']) (use inv in \<open>simp add: stream_inv_def\<close>)
  with inv c'(2) have "stream_inv ids good ?s" by (simp add: stream_inv_def)
  moreover have "r = Inr ?s" using r a busy rc c'(1) d' by (simp add: callback_step_def del: dist_step.simps)
  ultimately show ?thesis by simp
qed

lemma turn_keeps:
  assumes inv: "stream_inv ids good s" and ok: "env_contract env" "length (fd_packs frame) = MAX_PACKS"
    and r: "fetcher_turn_step ret env frame t0 now s = Some r"
  shows "\<exists>s'. r = Inr s' \<and> stream_inv ids good s'
    \<and> map frame_payloads (ss_fetched s') = map frame_payloads (ss_fetched s)
        @ (if turn_succeeds ret env then [map venc_payload (taken_packs env)] else [])"
proof -
  have ready: "fetcher_ready (ss_fetcher s)" "fetcher_ids (ss_fetcher s) = ids" using inv by (simp_all add: stream_inv_def)
  from ok r ready(1) show ?thesis
  proof (cases rule: fetcher_turn)
    case (idle f')
    with inv ready show ?thesis by (simp add: stream_inv_def)
  next
    case (picture f' sf)
    have "sys_base (s\<lparr>ss_fetcher := f', ss_dist := push_begin 0 sf (ss_dist s), ss_fetched := ss_fetched s @ [sf]\<rparr>)"
      by (rule sys_base_push [OF _ picture(2)]) (use inv in \<open>simp add: stream_inv_def\<close>)
    with picture inv ready show ?thesis by (simp add: stream_inv_def)
  qed
qed

text \<open>\<open>start\<close> and \<open>stop\<close> leave a fetcher that can run, on the same channel.\<close>

lemma fetcher_start_stop_ready:
  assumes "fetcher_ready f"
  shows "0 \<le> fd \<Longrightarrow> \<not> ft_running f \<Longrightarrow> \<exists>f'. fetcher_start f = Inr f' \<and> fetcher_ready (run_begin fd f')
      \<and> fetcher_ids (run_begin fd f') = fetcher_ids f"
    and "fetcher_ready (fetcher_stop f)" and "fetcher_ids (fetcher_stop f) = fetcher_ids f"
  using assms
  by (auto simp: fetcher_ready_def fetcher_ids_def fetcher_start_def fetcher_stop_def run_begin_def Let_def)

lemma sys_step_keeps:
  assumes inv: "stream_inv ids good s" and ok: "act_ok x" and r: "sys_step cb other x s = Some r"
  shows "\<exists>s'. r = Inr s' \<and> stream_inv ids good s'
    \<and> map frame_payloads (ss_fetched s') = map frame_payloads (ss_fetched s) @ pictures [x]"
proof (cases x)
  case (FetcherTurn ret env frame t0 now)
  with ok r turn_keeps [OF inv, of env frame ret t0 now r] show ?thesis by auto
next
  case (Callback a now)
  with r callback_keeps [OF inv, of a now r] show ?thesis by auto
next
  case (DistAct y)
  with r obtain d' where d': "dist_act_free y" "dist_step y (ss_dist s) = Some d'" "r = Inr (s\<lparr>ss_dist := d'\<rparr>)"
    by (auto split: if_splits)
  with DistAct inv sys_base_dist [OF _ d'(1,2)] show ?thesis by (simp add: stream_inv_def)
next
  case (ConsumerAct y)
  with r obtain rc where rc: "other y (ss_consumers s) = Some rc" "r = map_sum id (\<lambda>c. s\<lparr>ss_consumers := c\<rparr>) rc"
    by auto
  have "good (ss_calls s) (ss_consumers s)" using inv by (simp add: stream_inv_def)
  from act [OF this rc(1)] obtain c' where "rc = Inr c'" "good (ss_calls s) c'" by blast
  with ConsumerAct inv rc(2) show ?thesis by (simp add: stream_inv_def)
next
  case (FetcherStart fd)
  with ok inv fetcher_start_stop_ready(1) [of "ss_fetcher s" fd] r show ?thesis
    by (cases "ft_running (ss_fetcher s)") (auto simp: stream_inv_def)
next
  case FetcherStop
  with r have "r = Inr (s\<lparr>ss_fetcher := fetcher_stop (ss_fetcher s)\<rparr>)" by (simp split: if_splits)
  with inv FetcherStop show ?thesis by (simp add: stream_inv_def fetcher_start_stop_ready(2,3))
qed

lemma sys_run_keeps:
  "stream_inv ids good s \<Longrightarrow> (\<And>x. x \<in> set xs \<Longrightarrow> act_ok x) \<Longrightarrow> sys_run cb other xs s = Some r \<Longrightarrow>
     \<exists>s'. r = Inr s' \<and> stream_inv ids good s'
       \<and> map frame_payloads (ss_fetched s') = map frame_payloads (ss_fetched s) @ pictures xs"
proof (induction xs arbitrary: s)
  case (Cons x xs)
  from Cons.prems(3) obtain r1 where r1: "sys_step cb other x s = Some r1" by (auto split: option.splits)
  have "act_ok x" using Cons.prems(2) by simp
  from sys_step_keeps [OF Cons.prems(1) this r1] obtain s1 where s1: "r1 = Inr s1" "stream_inv ids good s1"
    "map frame_payloads (ss_fetched s1) = map frame_payloads (ss_fetched s) @ pictures [x]" by blast
  have "sys_run cb other xs s1 = Some r" using Cons.prems(3) r1 s1(1) by simp
  from Cons.IH [OF s1(2) _ this] Cons.prems(2) obtain s' where "r = Inr s'" "stream_inv ids good s'"
    "map frame_payloads (ss_fetched s') = map frame_payloads (ss_fetched s1) @ pictures xs" by auto
  with s1(3) show ?case by simp
qed auto

lemma new_stream_inv:
  assumes "fetcher_ready f" and "good [] c"
  shows "stream_inv (fetcher_ids f) good (new_stream_sys f c)"
  using assms new_stream_sys_base [of f c] by (simp add: stream_inv_def) (simp add: new_stream_sys_def)

end

section \<open>A run\<close>

text \<open>
  The sub stream with one consumer: the consumer does \<open>xs\<close>, one picture goes all the way to its
  callback, and it does \<open>ys\<close>.
\<close>

definition demo_picture :: "'x sys_action list" where
  "demo_picture =
     [FetcherTurn 1 demo_env blank_frame 0 5, DistAct (PushStep 0), DistAct (PushStep 0), DistAct (PushStep 0),
      DistAct (WorkerStep 0), DistAct (WorkerStep 0), DistAct (WorkerStep 0), DistAct (WorkerStep 0),
      DistAct (WorkerStep 0), Callback 0 0]"

definition demo_acts :: "'x list \<Rightarrow> 'x list \<Rightarrow> 'x sys_action list" where
  "demo_acts xs ys =
     [DistAct (AddConsumer cfg3), FetcherStart 3] @ map ConsumerAct xs @ demo_picture @ map ConsumerAct ys"

lemma demo_acts_ok: "x \<in> set (demo_acts xs ys) \<Longrightarrow> act_ok x"
  using demo_env_contract by (auto simp: demo_acts_def demo_picture_def blank_frame_def MAX_PACKS_def)

lemma demo_pictures: "pictures (demo_acts xs ys) = [[[0, 0, 1, 0x65]]]"
proof -
  have "pictures (as @ bs) = pictures as @ pictures bs" for as bs :: "'a sys_action list"
    by (induction as) simp_all
  moreover have "pictures (map ConsumerAct zs) = []" for zs :: "'a list" by (induction zs) simp_all
  ultimately show ?thesis
    by (simp add: demo_acts_def demo_picture_def turn_succeeds_def demo_env_def taken_packs_def venc_payload_def
        MAX_PACKS_def)
qed

lemma sys_run_append:
  "sys_run cb other (xs @ ys) s = (case sys_run cb other xs s of
     Some (Inr s') \<Rightarrow> sys_run cb other ys s' | r \<Rightarrow> r)"
  by (induction xs arbitrary: s) (auto split: option.splits sum.splits)

text \<open>What the consumers do by themselves.\<close>

fun others_run :: "('x \<Rightarrow> 'c \<Rightarrow> 'c checked option) \<Rightarrow> 'x list \<Rightarrow> 'c \<Rightarrow> 'c checked option" where
  "others_run other [] c = Some (Inr c)"
| "others_run other (x # xs) c =
     (case other x c of
        None \<Rightarrow> None
      | Some (Inl e) \<Rightarrow> Some (Inl e)
      | Some (Inr c') \<Rightarrow> others_run other xs c')"

lemma sys_run_others:
  "sys_run cb other (map ConsumerAct xs) s =
     map_option (map_sum id (\<lambda>c. s\<lparr>ss_consumers := c\<rparr>)) (others_run other xs (ss_consumers s))"
  by (induction xs arbitrary: s) (auto split: option.split sum.split)

abbreviation demo_fetcher :: StreamFetcher where
  "demo_fetcher \<equiv> new_fetcher None 0 CHN1 VIDEO_SUB H264"

abbreviation demo_dist :: "StreamFrame dist" where
  "demo_dist \<equiv> \<lparr>d_channel = CHN1, d_heap = [fresh_slot cfg3 0], d_slots = [0], d_next_consumer_id = 1,
     d_push = Map.empty, d_shut = Map.empty\<rparr>"

text \<open>A picture reaches the callback, whatever the consumer is.\<close>

lemma demo_picture_run:
  assumes "ft_running f" and "fetcher_ready f"
    and d: "d_heap d = [fresh_slot cfg3 0]" "d_slots d = [0]" "d_push d = Map.empty"
  obtains sf f' where "good_frame sf" "sf_type sf = ft_stream_type f" "frame_payloads sf = [[0, 0, 1, 0x65]]"
    "sys_run cb other demo_picture \<lparr>ss_fetcher = f, ss_dist = d, ss_consumers = c, ss_fetched = [], ss_calls = []\<rparr>
       = (case cb 0 0 sf c of
            None \<Rightarrow> None
          | Some (Inl e) \<Rightarrow> Some (Inl e)
          | Some (Inr (threw, c')) \<Rightarrow> Some (Inr \<lparr>ss_fetcher = f', ss_dist = d\<lparr>d_heap := [(fresh_slot cfg3 0)
               \<lparr>sl_pushed := [sf], sl_taken := [sf],
                 sl_failed := if threw then 1 else 0, sl_consumed := if threw then 0 else 1\<rparr>]\<rparr>,
               ss_consumers = c', ss_fetched = [sf], ss_calls = [(0, sf)]\<rparr>))"
proof -
  let ?s = "\<lparr>ss_fetcher = f, ss_dist = d, ss_consumers = c, ss_fetched = [], ss_calls = []\<rparr>"
  have env: "env_contract demo_env" "length (fd_packs blank_frame) = MAX_PACKS" "turn_succeeds 1 demo_env"
    using demo_env_contract by (simp_all add: blank_frame_def MAX_PACKS_def turn_succeeds_def demo_env_def)
  have payloads: "map venc_payload (taken_packs demo_env) = [[0, 0, 1, 0x65]]"
    by (simp add: taken_packs_def demo_env_def venc_payload_def)
  obtain r where r: "fetcher_turn_step 1 demo_env blank_frame 0 5 ?s = Some r"
    using assms(1) d by (simp add: fetcher_turn_step_def)
  have "fetcher_ready (ss_fetcher ?s)" using assms(2) by simp
  from env(1,2) r this show thesis
  proof (cases rule: fetcher_turn)
    case idle
    with env(3) show thesis by blast
  next
    case (picture f' sf)
    show thesis
      by (rule that [of sf f'])
        (use picture r payloads d in \<open>auto simp: demo_picture_def fetcher_ids_def push_begin_def push_step_def
           upd_slot_def mutex_free_def fresh_slot_def slot_push_def slot_notify_def cfg3_def worker_func_def
           callback_step_def callback_end_def split: option.split sum.split prod.split\<close>)
  qed
qed

lemma demo_stream_run:
  assumes xs: "others_run other xs c0 = Some (Inr c1)"
    and frame: "\<And>sf. good_frame sf \<Longrightarrow> sf_type sf = VIDEO_SUB \<Longrightarrow> frame_payloads sf = [[0, 0, 1, 0x65]] \<Longrightarrow>
      \<exists>threw c2 c3. cb 0 0 sf c1 = Some (Inr (threw, c2)) \<and> others_run other ys c2 = Some (Inr c3) \<and> P c3"
  shows "\<exists>s sf. sys_run cb other (demo_acts xs ys) (new_stream_sys demo_fetcher c0) = Some (Inr s)
     \<and> ss_calls s = [(0, sf)] \<and> ss_fetched s = [sf] \<and> P (ss_consumers s)"
proof -
  let ?f = "demo_fetcher\<lparr>ft_running := True, ft_joinable := True, ft_fd := 3\<rparr>"
  have f: "ft_running ?f" "fetcher_ready ?f" "ft_stream_type ?f = VIDEO_SUB"
    by (simp_all add: fetcher_ready_def new_fetcher_def)
  have start: "sys_run cb other [DistAct (AddConsumer cfg3), FetcherStart 3] (new_stream_sys demo_fetcher c0)
       = Some (Inr \<lparr>ss_fetcher = ?f, ss_dist = demo_dist, ss_consumers = c0, ss_fetched = [], ss_calls = []\<rparr>)"
    by (simp add: new_stream_sys_def fetcher_start_def new_fetcher_def run_begin_def add_consumer_def
        new_distributor_def fresh_slot_def cfg3_def)
  have d: "d_heap demo_dist = [fresh_slot cfg3 0]" "d_slots demo_dist = [0]" "d_push demo_dist = Map.empty" by simp_all
  from f(1,2) d show ?thesis
  proof (rule demo_picture_run [of ?f demo_dist cb other c1])
    fix sf f' assume sf: "good_frame sf" "sf_type sf = ft_stream_type ?f" "frame_payloads sf = [[0, 0, 1, 0x65]]"
      and run: "sys_run cb other demo_picture
         \<lparr>ss_fetcher = ?f, ss_dist = demo_dist, ss_consumers = c1, ss_fetched = [], ss_calls = []\<rparr>
       = (case cb 0 0 sf c1 of
            None \<Rightarrow> None
          | Some (Inl e) \<Rightarrow> Some (Inl e)
          | Some (Inr (threw, c')) \<Rightarrow> Some (Inr \<lparr>ss_fetcher = f', ss_dist = demo_dist\<lparr>d_heap := [(fresh_slot cfg3 0)
               \<lparr>sl_pushed := [sf], sl_taken := [sf],
                 sl_failed := if threw then 1 else 0, sl_consumed := if threw then 0 else 1\<rparr>]\<rparr>,
               ss_consumers = c', ss_fetched = [sf], ss_calls = [(0, sf)]\<rparr>))"
    from frame [OF sf(1) _ sf(3)] sf(2) f(3) obtain threw c2 c3 where
      "cb 0 0 sf c1 = Some (Inr (threw, c2))" "others_run other ys c2 = Some (Inr c3)" "P c3" by auto
    with run start xs show ?thesis
      by (simp add: demo_acts_def sys_run_append sys_run_others del: sys_run.simps append.simps)
  qed
qed

end
