(* ===== verification/Stream_End_To_End.thy ===== *)
theory Stream_End_To_End
  imports Stream_System
begin

text \<open>
  The contract \<open>frame_consumer\<close> discharged for the two consumers of the program, and what follows for
  the whole path from the encoder: to the queue from which the RTSP clients are served, and to the
  file of a recorder.  The consumer of interest is the one at address 0, registered first; those
  registered later have callbacks of their own, which do not touch it.
\<close>

section \<open>The RTSP server as a consumer\<close>

text \<open>The callback that \<open>main\<close> registers; everything else that is done to the server.\<close>

definition rtsp_cb :: "nat \<Rightarrow> int \<Rightarrow> StreamFrame \<Rightarrow> RtspServer \<Rightarrow> (bool \<times> RtspServer) checked option" where
  "rtsp_cb a now f s =
     (if a = 0 then Some (map_sum id (\<lambda>s. (False, s)) (Rtsp_Server.on_frame now f s)) else Some (Inr (False, s)))"

definition rtsp_other :: "srv_op \<Rightarrow> RtspServer \<Rightarrow> RtspServer checked option" where
  "rtsp_other x s = (case x of srv_op.OnFrame now f \<Rightarrow> None | _ \<Rightarrow> Some (srv_step x s))"

text \<open>Every stream's backlog is made from an ordered selection of the frames of its type.\<close>

definition rtsp_good :: "(nat \<times> StreamFrame) list \<Rightarrow> RtspServer \<Rightarrow> bool" where
  "rtsp_good h s \<longleftrightarrow> srv_inv s \<and> srv_clean s
     \<and> (\<forall>type st. abs_stream s type = Some st \<longrightarrow>
          (\<exists>fs. subseq fs (filter (\<lambda>f. sf_type f = type) (calls_at 0 h)) \<and> backlog_from fs st))"



lemma rtsp_good_other [simp]: "a \<noteq> 0 \<Longrightarrow> rtsp_good (h @ [(a, f)]) s = rtsp_good h s"
  by (simp add: rtsp_good_def)




section \<open>The recorder as a consumer\<close>

definition recorder_cb :: "nat \<Rightarrow> int \<Rightarrow> StreamFrame \<Rightarrow> recorder \<Rightarrow> (bool \<times> recorder) checked option" where
  "recorder_cb a now f r =
     (if a = 0 then map_option (map_sum id (\<lambda>r. (False, r))) (rc_step (rc_action.OnFrame f) r)
      else Some (Inr (False, r)))"

definition recorder_other :: "rc_action \<Rightarrow> recorder \<Rightarrow> recorder checked option" where
  "recorder_other x r = (case x of rc_action.OnFrame f \<Rightarrow> None | _ \<Rightarrow> rc_step x r)"

definition recorder_good :: "(nat \<times> StreamFrame) list \<Rightarrow> recorder \<Rightarrow> bool" where
  "recorder_good h r \<longleftrightarrow> rc_inv r \<and> rc_pushed r = map frame_entry (calls_at 0 h)"

lemma recorder_good_other [simp]: "a \<noteq> 0 \<Longrightarrow> recorder_good (h @ [(a, f)]) r = recorder_good h r"
  by (simp add: recorder_good_def)

lemma recorder_callback:
  assumes good: "recorder_good h r" and "good_frame f" and step: "rc_step (rc_action.OnFrame f) r = Some r'"
  shows "\<exists>r1. r' = Inr r1 \<and> recorder_good (h @ [(0, f)]) r1"
proof -
  have inv: "rc_inv r" using good by (simp add: recorder_good_def)
  have frame: "unat (fd_pack_count (sf_data f)) \<le> length (fd_packs (sf_data f))" "list_all pack_copyable (frame_packs f)"
    using assms(2) by (simp_all add: good_frame_def wf_frame_def)
  let ?r = "(enqueue_total (frame_entry f) r)\<lparr>rc_notify_due := True\<rparr>"
  have r': "r' = Inr ?r" using step rc_on_frame [OF inv frame] by (simp split: if_splits)
  moreover have "rc_inv ?r" by (rule rc_step_inv [OF inv step [unfolded r']])
  moreover have "rc_pushed ?r = rc_pushed r @ [frame_entry f]"
    using inv by (simp add: enqueue_total_pushed rc_inv_def)
  ultimately show ?thesis using good by (simp add: recorder_good_def)
qed

interpretation file_writer: frame_consumer recorder_cb recorder_other recorder_good
proof unfold_locales
  fix h r f a now rr assume *: "recorder_good h r" "good_frame f" "recorder_cb a now f r = Some rr"
  show "\<exists>threw r'. rr = Inr (threw, r') \<and> recorder_good (h @ [(a, f)]) r'"
  proof (cases "a = 0")
    case True
    with *(3) obtain r' where "rc_step (rc_action.OnFrame f) r = Some r'" "rr = map_sum id (\<lambda>r. (False, r)) r'"
      by (auto simp: recorder_cb_def simp del: rc_step.simps)
    with recorder_callback [OF *(1,2) this(1)] True show ?thesis by auto
  next
    case False
    with * show ?thesis by (auto simp: recorder_cb_def)
  qed
next
  fix h r x rr assume *: "recorder_good h r" "recorder_other x r = Some rr"
  then have step: "rc_step x r = Some rr" and x: "x \<noteq> rc_action.OnFrame frame" for frame
    by (cases x; simp add: recorder_other_def)+
  from rc_step_pushed [OF step x] obtain r1 where r1: "rr = Inr r1" "rc_pushed r1 = rc_pushed r" by blast
  with * step have "rc_inv r1" by (auto simp: recorder_good_def intro: rc_step_inv)
  with r1 *(1) show "\<exists>r'. rr = Inr r' \<and> recorder_good h r'" by (simp add: recorder_good_def)
qed

section \<open>A run\<close>

definition sub_server :: RtspServer where
  "sub_server = new_server\<lparr>srv_rtsp_server := True, srv_env := True, srv_scheduler := True, srv_running := True,
     srv_event_thread := True,
     srv_sessions := [VIDEO_SUB \<mapsto> (''sub'', new_subsession VIDEO_SUB H264 1 True)],
     srv_frame_queues := [VIDEO_SUB \<mapsto> register_source 0 (new_frame_queue 5)],
     srv_parameter_sets := [VIDEO_SUB \<mapsto> empty_cache], srv_stream_codecs := [VIDEO_SUB \<mapsto> H264],
     srv_live := {LibScheduler, LibEnv, LibServer, LibSession VIDEO_SUB}\<rparr>"

definition rtsp_acts :: "srv_op list" where
  "rtsp_acts = [Start 8554 True True True, AddStream VIDEO_SUB ''sub'' True, Connect VIDEO_SUB 0]"

lemma rtsp_acts_run: "others_run rtsp_other rtsp_acts new_server = Some (Inr sub_server)"
  by (simp add: rtsp_acts_def rtsp_other_def start_def new_server_def add_stream_def upd_queue_def sub_server_def
      insert_commute)

lemma sub_server_inv: "srv_inv sub_server"
  by (auto simp: srv_inv_def sub_server_def new_server_def stream_codec_def new_frame_queue_valid)

lemma demo_nals:
  assumes "frame_payloads sf = [[0, 0, 1, 0x65]]"
  shows "frame_nals H264 ts idr (frame_packs sf) = [make_nal H264 ts idr [0x65]]"
proof -
  obtain pk where "frame_packs sf = [pk]" "pack_bytes pk = [0, 0, 1, 0x65]"
    using assms by (auto simp: frame_payloads_def)
  then show ?thesis
    by (simp add: frame_nals_def annexb_payloads_def annexb_segments.simps start_code_len_def)
qed

lemma sub_server_frame:
  assumes "good_frame sf" and type: "sf_type sf = VIDEO_SUB" and "frame_payloads sf = [[0, 0, 1, 0x65]]"
  shows "\<exists>srv q. Rtsp_Server.on_frame 0 sf sub_server = Inr srv \<and> srv_frame_queues srv VIDEO_SUB = Some q
    \<and> length (fq_queue q) = 1"
proof -
  have wf: "wf_frame sf" using assms(1) by (simp add: good_frame_def)
  from sub_server_inv wf show ?thesis
  proof (cases rule: on_frame_cases [of sub_server sf 0])
    case ignored
    then show ?thesis by (simp add: type sub_server_def)
  next
    case (processed codec q cache q' cache')
    with demo_nals [OF assms(3)] show ?thesis
      by (fastforce simp: type sub_server_def register_source_def has_active_sources_def new_frame_queue_def push_total_fields)
  qed
qed

lemma rtsp_demo_run:
  "\<exists>s sf. sys_run rtsp_cb rtsp_other (demo_acts rtsp_acts []) (new_stream_sys demo_fetcher new_server) = Some (Inr s)
     \<and> ss_calls s = [(0, sf)] \<and> ss_fetched s = [sf]
     \<and> (\<exists>q. srv_frame_queues (ss_consumers s) VIDEO_SUB = Some q \<and> length (fq_queue q) = 1)"
  by (rule demo_stream_run [OF rtsp_acts_run]) (use sub_server_frame in \<open>fastforce simp: rtsp_cb_def\<close>)

text \<open>The writer thread is woken and writes the frame.\<close>

definition writer_acts :: "rc_action list" where
  "writer_acts = [NotifyOne, WriterStep, WriterStep, WriterStep, WriterStep, WriterStep, WriterStep]"

lemma recorder_frame:
  assumes "good_frame sf" and "frame_payloads sf = [[0, 0, 1, 0x65]]"
  shows "\<exists>threw r r'. recorder_cb 0 0 sf (new_recorder 30) = Some (Inr (threw, r))
    \<and> others_run recorder_other writer_acts r = Some (Inr r') \<and> rc_file r' = [0, 0, 1, 0x65]"
proof -
  have frame: "unat (fd_pack_count (sf_data sf)) \<le> length (fd_packs (sf_data sf))" "list_all pack_copyable (frame_packs sf)"
    using assms(1) by (simp_all add: good_frame_def wf_frame_def)
  let ?r = "(new_recorder 30)\<lparr>rc_queue := [frame_entry sf], rc_pushed := [frame_entry sf], rc_notify_due := True\<rparr>"
  have "rc_inv (new_recorder 30)" by (rule rc_reachable_inv [OF rc_init]) simp
  from rc_on_frame [OF this frame] have "Recorder_Consumer.on_frame sf (new_recorder 30) = Inr ?r"
    by (simp add: enqueue_total_def enqueue_def new_recorder_def)
  then have "recorder_cb 0 0 sf (new_recorder 30) = Some (Inr (False, ?r))"
    by (simp add: recorder_cb_def) (simp add: new_recorder_def rc_mutex_free_def)
  moreover have "we_data (frame_entry sf) = [0, 0, 1, 0x65]"
    using assms(2) by (simp add: frame_entry_def frame_payloads_def)
  then have "\<exists>r'. others_run recorder_other writer_acts ?r = Some (Inr r') \<and> rc_file r' = [0, 0, 1, 0x65]"
    by (simp add: writer_acts_def recorder_other_def rc_notify_def write_loop_def new_recorder_def)
  ultimately show ?thesis by blast
qed

lemma recorder_demo_run:
  "\<exists>s sf. sys_run recorder_cb recorder_other (demo_acts [] writer_acts) (new_stream_sys demo_fetcher (new_recorder 30))
       = Some (Inr s) \<and> ss_calls s = [(0, sf)] \<and> ss_fetched s = [sf] \<and> rc_file (ss_consumers s) = [0, 0, 1, 0x65]"
  by (rule demo_stream_run [of recorder_other "[]" "new_recorder 30" "new_recorder 30"]) (use recorder_frame in simp_all)

section \<open>Properties\<close>

lemma subseq_of_map: "subseq xs (map g ys) \<Longrightarrow> \<exists>zs. subseq zs ys \<and> xs = map g zs"
  by (auto simp: subseq_conv_nths nths_map)

text \<open>
  C5: frames stay in order: whatever the consumers do (their callbacks may throw or take as long as
  they like), however the threads interleave, and whoever registers, leaves or overruns its queue,
  the frames a consumer is called with are an ordered selection of those the fetcher took from the
  encoder: none is delivered twice, late or out of order.
\<close>

theorem stream_order:
  assumes "sys_run cb other xs (new_stream_sys f c) = Some (Inr s)"
  shows "subseq (calls_of a s) (ss_fetched s)"
  by (rule sys_base_calls [OF sys_base_run [OF new_stream_sys_base assms]])

theorem stream_order_witness:
  "\<exists>s sf. sys_run rtsp_cb rtsp_other (demo_acts rtsp_acts []) (new_stream_sys demo_fetcher new_server) = Some (Inr s)
     \<and> calls_of 0 s = [sf] \<and> subseq [sf] (ss_fetched s)"
proof -
  obtain s sf where s: "sys_run rtsp_cb rtsp_other (demo_acts rtsp_acts []) (new_stream_sys demo_fetcher new_server)
      = Some (Inr s)" "ss_calls s = [(0, sf)]"
    using rtsp_demo_run by blast
  then have "calls_of 0 s = [sf]" by (simp add: calls_of_def calls_at_def)
  with stream_order [OF s(1), of 0] s(1) show ?thesis by auto
qed



text \<open>
  C4: from the encoder to the file: with a positive queue size and a driver that keeps its contract
  no interleaving is undefined, and the recorder's file is the concatenation of whole pictures, each
  the payloads of its packs as the encoder delivered them, in the encoder's order.
\<close>

theorem recorder_end_to_end:
  assumes "\<And>x. x \<in> set xs \<Longrightarrow> act_ok x" and f: "f = new_fetcher pack cnt chn type codec" and "0 < n"
    and run: "sys_run recorder_cb recorder_other xs (new_stream_sys f (new_recorder n)) = Some r"
  shows "\<exists>s pics. r = Inr s \<and> subseq pics (pictures xs) \<and> rc_file (ss_consumers s) = concat (map concat pics)"
proof -
  have "fetcher_ready f" by (simp add: f fetcher_ready_def new_fetcher_def)
  moreover have "recorder_good [] (new_recorder n)"
    using rc_reachable_inv [OF rc_init \<open>0 < n\<close>] by (simp add: recorder_good_def) (simp add: new_recorder_def)
  ultimately obtain s where s: "r = Inr s" "stream_inv (fetcher_ids f) recorder_good s"
    "map frame_payloads (ss_fetched s) = pictures xs"
    using file_writer.sys_run_keeps [OF file_writer.new_stream_inv assms(1) run]
    by (fastforce simp: new_stream_sys_def)
  let ?r = "ss_consumers s"
  have good: "rc_inv ?r" "rc_pushed ?r = map frame_entry (calls_of 0 s)" and base: "sys_base s"
    using s(2) by (simp_all add: stream_inv_def recorder_good_def calls_of_def)
  have "subseq (rc_written ?r) (rc_taken ?r @ rc_queue ?r)"
    by (auto simp: rc_written_def intro: list_emb_prefix subseq_order.trans split: worker.split) 
  with good obtain fs where fs: "subseq fs (calls_of 0 s)" "rc_written ?r = map frame_entry fs"
    using subseq_of_map by (metis rc_inv_def subseq_order.trans)
  have "subseq (map frame_payloads fs) (pictures xs)"
    unfolding s(3) [symmetric] by (rule subseq_map [OF subseq_order.trans [OF fs(1) sys_base_calls [OF base]]])
  moreover have "rc_file ?r = concat (map concat (map frame_payloads fs))"
    using good(1) fs(2) by (simp add: rc_inv_def frame_entry_def frame_payloads_def o_def)
  ultimately show ?thesis using s(1) by blast
qed

theorem recorder_end_to_end_witness:
  "\<exists>s pics. sys_run recorder_cb recorder_other (demo_acts [] writer_acts) (new_stream_sys demo_fetcher (new_recorder 30))
       = Some (Inr s)
     \<and> rc_file (ss_consumers s) = [0, 0, 1, 0x65]
     \<and> subseq pics [[[0, 0, 1, 0x65]]] \<and> rc_file (ss_consumers s) = concat (map concat pics)"
proof -
  obtain s where s: "sys_run recorder_cb recorder_other (demo_acts [] writer_acts)
      (new_stream_sys demo_fetcher (new_recorder 30)) = Some (Inr s)" "rc_file (ss_consumers s) = [0, 0, 1, 0x65]"
    using recorder_demo_run by blast
  from recorder_end_to_end [OF demo_acts_ok refl _ s(1)] s show ?thesis by (auto simp: demo_pictures)
qed

end
