(* ===== verification/Rtsp_Clients.thy ===== *)
theory Rtsp_Clients
  imports Rtsp_Spec
begin

text \<open>
  The server together with the sources of its clients: workers push frames and raise the trigger,
  the event loop admits clients, notifies their sources and lets the sinks read.  \<open>Stream_Source\<close>
  has the sources of one queue and pushes of arbitrary NAL units, \<open>Rtsp_Server\<close> the server without
  its sources; here both run together, with every stream's sources on the server's own queue of that
  stream.  \<open>view\<close> cuts out one stream as a system of \<open>Stream_Source\<close>, whose invariant carries over.
\<close>

section \<open>State\<close>

text \<open>
  \<open>lv_owner\<close> is the client session of a source, which live555 keeps; a worker is in \<open>lv_unsignalled\<close>
  between the push of a frame and \<open>triggerEvent\<close>.  The pending trigger is \<open>srv_frame_event\<close>.
  \<open>lv_frames\<close> (the frames given to the server) and \<open>lv_sent\<close> (what the sinks got) are history.
\<close>

record delivery =
  dl_stream :: StreamType
  dl_source :: source_id
  dl_nal :: RtspNalUnit
  dl_room :: nat
  dl_bytes :: "u8 list"

record live_server =
  lv_server :: RtspServer
  lv_sources :: "source_id \<rightharpoonup> RtspStreamSource"
  lv_next_id :: source_id
  lv_owner :: "source_id \<Rightarrow> u32"
  lv_tasks :: "source_id list"
  lv_unsignalled :: "StreamType set"
  lv_frames :: "StreamFrame list"
  lv_sent :: "delivery list"

definition new_live_server :: live_server where
  "new_live_server =
     \<lparr>lv_server = new_server, lv_sources = Map.empty, lv_next_id = 0, lv_owner = (\<lambda>_. 0), lv_tasks = [],
      lv_unsignalled = {}, lv_frames = [], lv_sent = []\<rparr>"

text \<open>The sources of one stream.\<close>

definition sources_of :: "StreamType \<Rightarrow> (source_id \<rightharpoonup> RtspStreamSource) \<Rightarrow> source_id \<rightharpoonup> RtspStreamSource" where
  "sources_of t m = (\<lambda>s. case m s of Some src \<Rightarrow> if ss_stream_type src = t then Some src else None | None \<Rightarrow> None)"

section \<open>Actions\<close>

text \<open>
  \<open>on_frame\<close> in two steps: \<open>Frame\<close> up to the push, \<open>Signal\<close> the call of \<open>triggerEvent\<close>.
\<close>

definition live_frame :: "int \<Rightarrow> StreamFrame \<Rightarrow> live_server \<Rightarrow> live_server checked" where
  "live_frame now f w =
     (if \<not> srv_running (lv_server w) then Inr (w\<lparr>lv_frames := lv_frames w @ [f]\<rparr>)
      else case process_frame_nals now f (lv_server w) of
          Inl e \<Rightarrow> Inl e
        | Inr srv \<Rightarrow> Inr (w\<lparr>lv_server := srv, lv_unsignalled := insert (sf_type f) (lv_unsignalled w),
                           lv_frames := lv_frames w @ [f]\<rparr>))"

definition live_signal :: "StreamType \<Rightarrow> live_server \<Rightarrow> live_server" where
  "live_signal t w =
     (let srv = lv_server w
      in w\<lparr>lv_unsignalled := lv_unsignalled w - {t},
           lv_server := if srv_scheduler srv then srv\<lparr>srv_frame_event := True\<rparr> else srv\<rparr>)"

text \<open>
  A client sets up a stream (\<open>createNewStreamSource\<close> with \<open>operator new\<close>, which does not return null),
  or leaves it (\<open>deleteStream\<close>, whose base part closes the source).
\<close>

definition upd_session ::
  "StreamType \<Rightarrow> (RtspServerMediaSubsession \<Rightarrow> RtspServerMediaSubsession) \<Rightarrow> RtspServer \<Rightarrow> RtspServer" where
  "upd_session t g srv = srv\<lparr>srv_sessions := (srv_sessions srv)(t := map_option (map_prod id g) (srv_sessions srv t))\<rparr>"

definition live_connect :: "StreamType \<Rightarrow> u32 \<Rightarrow> live_server \<Rightarrow> live_server option" where
  "live_connect t cid w =
     (case (srv_sessions (lv_server w) t, srv_frame_queues (lv_server w) t) of
        (Some (_, sub), Some q) \<Rightarrow>
          (let (framer, sub', q', _) = createNewStreamSource (Some (lv_next_id w)) cid sub q 0;
               w = w\<lparr>lv_server := upd_session t (\<lambda>_. sub') (upd_queue t (\<lambda>_. q') (lv_server w))\<rparr>
           in Some (if framer = None then w
                    else w\<lparr>lv_sources := (lv_sources w)(lv_next_id w \<mapsto> new_source (sub_stream_type sub) (sub_codec_type sub)),
                           lv_owner := (lv_owner w)(lv_next_id w := cid),
                           lv_next_id := lv_next_id w + 1\<rparr>))
      | _ \<Rightarrow> None)"

definition live_close :: "source_id \<Rightarrow> live_server \<Rightarrow> live_server option" where
  "live_close s w =
     map_option (\<lambda>src.
       let t = ss_stream_type src
       in w\<lparr>lv_server := upd_queue t (unregister_source s) (upd_session t (deleteStream (lv_owner w s)) (lv_server w)),
            lv_sources := (lv_sources w)(s := None)\<rparr>) (lv_sources w s)"

text \<open>
  A source reads from the queue it was created with, its stream's; \<open>dl_bytes\<close> is what the sink finds
  in its buffer, which has \<open>dl_room\<close> bytes.
\<close>

definition live_deliver ::
  "source_id \<Rightarrow> (RtspStreamSource \<Rightarrow> RtspFrameQueue \<Rightarrow> (RtspStreamSource \<times> RtspFrameQueue \<times> RtspNalUnit option) checked)
     \<Rightarrow> RtspStreamSource \<Rightarrow> live_server \<Rightarrow> live_server checked option" where
  "live_deliver s deliver src w =
     map_option (\<lambda>q.
       case deliver src q of
         Inl e \<Rightarrow> Inl e
       | Inr (src', q', nal) \<Rightarrow>
           Inr (w\<lparr>lv_server := upd_queue (ss_stream_type src) (\<lambda>_. q') (lv_server w),
                  lv_sources := (lv_sources w)(s \<mapsto> src'),
                  lv_sent := lv_sent w @ (case nal of
                      None \<Rightarrow> []
                    | Some n \<Rightarrow> [\<lparr>dl_stream = ss_stream_type src, dl_source = s, dl_nal = n,
                                   dl_room = unat (ss_max_size src),
                                   dl_bytes = take (unat (ss_frame_size src')) (ss_to src')\<rparr>])\<rparr>))
       (srv_frame_queues (lv_server w) (ss_stream_type src))"

text \<open>
  What runs when: the event loop only while its thread does; a stream is removed, and the server
  stopped, after its clients have gone, and a source is closed when no \<open>deliver_frame\<close> is scheduled
  for it (otherwise the scheduled one would run on a destroyed source).  A worker gives the next frame
  of a stream when its last \<open>on_frame\<close> has returned.
\<close>

datatype live_action =
    Admin srv_op
  | Frame int StreamFrame
  | Signal StreamType
  | Client StreamType u32
  | Leave source_id
  | Read source_id "u8 list"
  | StopReading source_id
  | HandleTrigger
  | RunTask

fun admin_enabled :: "srv_op \<Rightarrow> live_server \<Rightarrow> bool" where
  "admin_enabled (Start port a b c) w = True"
| "admin_enabled Stop w = (lv_sources w = Map.empty)"
| "admin_enabled (AddStream t name ok) w = True"
| "admin_enabled (RemoveStream t) w = (sources_of t (lv_sources w) = Map.empty)"
| "admin_enabled _ w = False"

definition live_admin :: "srv_op \<Rightarrow> live_server \<Rightarrow> live_server checked" where
  "live_admin x w =
     map_sum id (\<lambda>srv. w\<lparr>lv_server := if srv_scheduler srv then srv else srv\<lparr>srv_frame_event := False\<rparr>\<rparr>)
       (srv_step x (lv_server w))"

fun live_step :: "live_action \<Rightarrow> live_server \<Rightarrow> live_server checked option" where
  "live_step (Admin x) w = (if admin_enabled x w then Some (live_admin x w) else None)"
| "live_step (Frame now f) w = (if sf_type f \<in> lv_unsignalled w then None else Some (live_frame now f w))"
| "live_step (Signal t) w = (if t \<in> lv_unsignalled w then Some (Inr (live_signal t w)) else None)"
| "live_step (Client t cid) w = map_option Inr (live_connect t cid w)"
| "live_step (Leave s) w = (if s \<in> set (lv_tasks w) then None else map_option Inr (live_close s w))"
| "live_step (Read s buf) w =
     (case lv_sources w s of
        None \<Rightarrow> None
      | Some src \<Rightarrow>
          if ss_currently_awaiting src \<or> 2 ^ 32 \<le> length buf then None
          else live_deliver s doGetNextFrame
            (src\<lparr>ss_to := buf, ss_max_size := word_of_nat (length buf), ss_currently_awaiting := True\<rparr>) w)"
| "live_step (StopReading s) w =
     map_option (\<lambda>src. Inr (w\<lparr>lv_sources := (lv_sources w)(s \<mapsto>
         doStopGettingFrames (src\<lparr>ss_currently_awaiting := False\<rparr>))\<rparr>)) (lv_sources w s)"
| "live_step HandleTrigger w =
     (if srv_event_thread (lv_server w) \<and> srv_frame_event (lv_server w) then
        Some (case handle_frame_trigger notify_by_id (lv_server w) (Inr (lv_sources w, lv_tasks w)) of
           Inl e \<Rightarrow> Inl e
         | Inr (sources, tasks) \<Rightarrow>
             Inr (w\<lparr>lv_server := (lv_server w)\<lparr>srv_frame_event := False\<rparr>, lv_sources := sources, lv_tasks := tasks\<rparr>))
      else None)"
| "live_step RunTask w =
     (case lv_tasks w of
        [] \<Rightarrow> None
      | s # tasks \<Rightarrow>
          (case lv_sources w s of
             None \<Rightarrow> Some (Inl UseAfterFree)
           | Some src \<Rightarrow> live_deliver s deliver_frame src (w\<lparr>lv_tasks := tasks\<rparr>)))"

fun live_run :: "live_action list \<Rightarrow> live_server \<Rightarrow> live_server checked option" where
  "live_run [] w = Some (Inr w)"
| "live_run (x # xs) w =
     (case live_step x w of
        None \<Rightarrow> None
      | Some (Inl e) \<Rightarrow> Some (Inl e)
      | Some (Inr w') \<Rightarrow> live_run xs w')"

text \<open>The two halves of \<open>on_frame\<close> are all of it.\<close>

lemma live_frame_signal:
  assumes "sf_type f \<notin> lv_unsignalled w" and "srv_running (lv_server w)"
  shows "map_sum id (\<lambda>w. lv_server (live_signal (sf_type f) w)) (live_frame now f w) = on_frame now f (lv_server w)"
  using assms by (auto simp: live_frame_def on_frame_def live_signal_def Let_def split: sum.split)

section \<open>One stream of many\<close>

text \<open>
  \<open>view t w\<close> is stream \<open>t\<close> as a system of \<open>Stream_Source\<close>; what was pushed to it is the NAL units of
  every frame of its type, also of those that came while nobody watched.
\<close>

definition frame_units :: "StreamFrame \<Rightarrow> RtspNalUnit list" where
  "frame_units f = (case stream_codec (sf_type f) of None \<Rightarrow> [] | Some codec \<Rightarrow> access_unit codec f)"

definition queue_at :: "StreamType \<Rightarrow> RtspServer \<Rightarrow> RtspFrameQueue" where
  "queue_at t srv = (case srv_frame_queues srv t of None \<Rightarrow> new_frame_queue 1 | Some q \<Rightarrow> q)"

definition units_of :: "StreamType \<Rightarrow> StreamFrame list \<Rightarrow> RtspNalUnit list" where
  "units_of t fs = concat (map frame_units (filter (\<lambda>f. sf_type f = t) fs))"

definition sent_on :: "StreamType \<Rightarrow> live_server \<Rightarrow> delivery list" where
  "sent_on t w = filter (\<lambda>d. dl_stream d = t) (lv_sent w)"

definition view :: "StreamType \<Rightarrow> live_server \<Rightarrow> rtsp_sys" where
  "view t w =
     \<lparr>y_queue = queue_at t (lv_server w), y_sources = sources_of t (lv_sources w), y_next_id = lv_next_id w,
      y_tasks = lv_tasks w, y_trigger = srv_frame_event (lv_server w), y_unsignalled = (t \<in> lv_unsignalled w),
      y_pushed = units_of t (lv_frames w), y_sent = map dl_nal (sent_on t w)\<rparr>"

lemma view_fields [simp]:
  "y_queue (view t w) = queue_at t (lv_server w)" "y_sources (view t w) = sources_of t (lv_sources w)"
  "y_next_id (view t w) = lv_next_id w" "y_tasks (view t w) = lv_tasks w"
  "y_trigger (view t w) = srv_frame_event (lv_server w)" "y_unsignalled (view t w) = (t \<in> lv_unsignalled w)"
  "y_pushed (view t w) = units_of t (lv_frames w)" "y_sent (view t w) = map dl_nal (sent_on t w)"
  by (simp_all add: view_def)

lemma sources_of_Some [simp]:
  "sources_of t m s = Some src \<longleftrightarrow> m s = Some src \<and> ss_stream_type src = t"
  by (auto simp: sources_of_def split: option.splits)

lemma sources_of_upd [simp]:
  "sources_of t (m(s \<mapsto> src)) = (if ss_stream_type src = t then (sources_of t m)(s \<mapsto> src) else (sources_of t m)(s := None))"
  "sources_of t (m(s := None)) = (sources_of t m)(s := None)"
  "sources_of t Map.empty = Map.empty"
  by (auto simp: sources_of_def fun_eq_iff)

lemma sources_of_None: "m s = None \<Longrightarrow> sources_of t m s = None"
  by (simp add: sources_of_def)

lemma units_of_append [simp]: "units_of t (fs @ [f]) = units_of t fs @ (if sf_type f = t then frame_units f else [])"
  by (simp add: units_of_def)

text \<open>What leaves the invariant of a stream alone.\<close>

lemma sys_inv_more:
  assumes "sys_inv y" and "y_queue y' = y_queue y" "y_sources y' = y_sources y" "y_tasks y' = y_tasks y" "y_sent y' = y_sent y"
    and "y_next_id y \<le> y_next_id y'" and "y_pushed y' = y_pushed y @ ns"
    and wake: "y_sources y = Map.empty \<or> (y_trigger y \<or> y_unsignalled y \<longrightarrow> y_trigger y' \<or> y_unsignalled y')"
  shows "sys_inv y'"
proof -
  have "source_ok y' s src" if "y_sources y' s = Some src" for s src
    using that assms sys_invD(4) [OF assms(1), of s src] by (auto simp: source_ok_def)
  moreover have "subseq (y_sent y @ fq_nals (y_queue y)) (y_pushed y @ ns)"
    using sys_invD(5) [OF assms(1)] by (rule list_emb_prefix)
  ultimately show ?thesis using assms by (simp add: sys_inv_def)
qed

lemma sys_inv_reset:
  assumes "sys_inv y" and "y_sources y = Map.empty"
  shows "sys_inv (y\<lparr>y_queue := new_frame_queue n, y_trigger := b\<rparr>)"
proof -
  have "subseq (y_sent y) (y_sent y @ fq_nals (y_queue y))" by (rule list_emb_prefix) simp
  then have "subseq (y_sent y) (y_pushed y)" using sys_invD(5) [OF assms(1)] by (rule subseq_order.trans)
  with assms show ?thesis
    using new_frame_queue_valid [of n] by (simp add: sys_inv_def) (simp add: new_frame_queue_def fq_nals_def)
qed

section \<open>Invariant\<close>

definition live_inv :: "live_server \<Rightarrow> bool" where
  "live_inv w \<longleftrightarrow>
     srv_inv (lv_server w)
   \<and> (\<forall>t name sub. srv_sessions (lv_server w) t = Some (name, sub) \<longrightarrow> sub_stream_type sub = t)
   \<and> (\<forall>t. sys_inv (view t w))
   \<and> set (lv_tasks w) \<subseteq> dom (lv_sources w)
   \<and> (\<forall>d \<in> set (lv_sent w). dl_bytes d = take (dl_room d) (nu_data (dl_nal d)))
   \<and> srv_clean (lv_server w)"

lemma live_invD:
  assumes "live_inv w"
  shows "srv_inv (lv_server w)" and "srv_sessions (lv_server w) t = Some (name, sub) \<Longrightarrow> sub_stream_type sub = t"
    and "sys_inv (view t w)" and "set (lv_tasks w) \<subseteq> dom (lv_sources w)"
    and "d \<in> set (lv_sent w) \<Longrightarrow> dl_bytes d = take (dl_room d) (nu_data (dl_nal d))" and "srv_clean (lv_server w)"
  using assms by (auto simp: live_inv_def)

lemma new_live_inv: "live_inv new_live_server"
proof -
  have "view t new_live_server = new_sys 1" for t
    by (simp add: view_def new_live_server_def new_sys_def new_server_def queue_at_def units_of_def sent_on_def)
  then have "sys_inv (view t new_live_server)" for t
    using src_reachable_inv [OF src_init] by simp
  then show ?thesis
    using new_server_inv new_server_clean by (simp add: live_inv_def) (simp add: new_live_server_def new_server_def)
qed

lemma map_emptyI: "(\<And>k v. m k \<noteq> Some v) \<Longrightarrow> m = Map.empty"
  by (rule ext) (metis not_None_eq)

text \<open>A live source belongs to a stream of the server, is registered with its queue, and has a number
  below the next one.\<close>

lemma live_source:
  assumes "live_inv w" and "lv_sources w s = Some src"
  shows "\<exists>q. srv_frame_queues (lv_server w) (ss_stream_type src) = Some q \<and> s \<in> set (fq_active_sources q)"
    and "s < lv_next_id w"
proof -
  let ?t = "ss_stream_type src"
  have y: "y_sources (view ?t w) s = Some src" using assms(2) by simp
  have "s \<in> set (fq_active_sources (queue_at ?t (lv_server w)))"
    using y sys_invD(3) [OF live_invD(3) [OF assms(1)], of ?t] by auto
  then show "\<exists>q. srv_frame_queues (lv_server w) ?t = Some q \<and> s \<in> set (fq_active_sources q)"
    by (cases "srv_frame_queues (lv_server w) ?t") (auto simp: queue_at_def new_frame_queue_def)
  show "s < lv_next_id w"
    using sys_invD(4) [OF live_invD(3) [OF assms(1)] y] by (simp add: source_ok_def)
qed

lemma queue_valid: "live_inv w \<Longrightarrow> srv_frame_queues (lv_server w) t = Some q \<Longrightarrow> fq_valid q"
  using live_invD(1) [of w] by (simp add: srv_inv_def)

lemma no_stream_no_source:
  assumes "live_inv w" and "srv_frame_queues (lv_server w) t = None"
  shows "sources_of t (lv_sources w) = Map.empty"
proof -
  have "sources_of t (lv_sources w) s \<noteq> Some src" for s src
    using assms(2) live_source(1) [OF assms(1), of s src] by auto
  then show ?thesis by (rule map_emptyI)
qed

lemma stopped_no_source:
  assumes "live_inv w" and "\<not> srv_running (lv_server w)"
  shows "lv_sources w = Map.empty"
proof -
  have "srv_frame_queues (lv_server w) t = None" for t
    using live_invD(1) [OF assms(1)] assms(2) by (cases rule: srv_maps_cases [of _ t]) simp_all
  then have "lv_sources w s \<noteq> Some src" for s src
    using live_source(1) [OF assms(1), of s src] by auto
  then show ?thesis by (rule map_emptyI)
qed

lemma srv_inv_same [simp]:
  "srv_inv (srv\<lparr>srv_frame_event := b\<rparr>) = srv_inv srv"
  "srv_inv (upd_session t g srv) = srv_inv srv"
proof -
  show "srv_inv (srv\<lparr>srv_frame_event := b\<rparr>) = srv_inv srv" by (simp add: srv_inv_def)
  have dom: "dom (srv_sessions (upd_session t g srv)) = dom (srv_sessions srv)"
    by (auto simp: upd_session_def split: if_splits)
  then have "srv_sessions (upd_session t g srv) = Map.empty \<longleftrightarrow> srv_sessions srv = Map.empty"
    by (metis dom_eq_empty_conv)
  with dom show "srv_inv (upd_session t g srv) = srv_inv srv"
    by (simp add: srv_inv_def upd_session_def)
qed

lemma srv_inv_upd_queue:
  assumes "srv_inv srv" and "\<And>q. srv_frame_queues srv t = Some q \<Longrightarrow> fq_valid (g q)"
  shows "srv_inv (upd_queue t g srv)"
proof -
  have "dom ((srv_frame_queues srv)(t := map_option g (srv_frame_queues srv t))) = dom (srv_frame_queues srv)"
    by (auto split: if_splits)
  with assms show ?thesis by (auto simp: srv_inv_def upd_queue_def)
qed

lemma srv_clean_same [simp]:
  "srv_clean (srv\<lparr>srv_frame_event := b\<rparr>) = srv_clean srv" "srv_clean (upd_session t g srv) = srv_clean srv"
  "srv_clean (srv\<lparr>srv_parameter_sets := p\<rparr>) = srv_clean srv"
  by (simp_all add: srv_clean_def upd_session_def)

lemma srv_clean_upd_queue:
  assumes "srv_clean srv" and "\<And>q. srv_frame_queues srv t = Some q \<Longrightarrow> queue_clean (g q)"
  shows "srv_clean (upd_queue t g srv)"
  using assms by (auto simp: srv_clean_def upd_queue_def split: if_splits)

lemma queue_at_upd [simp]:
  "queue_at t' (upd_queue t g srv) =
     (if t' = t \<and> srv_frame_queues srv t \<noteq> None then g (queue_at t srv) else queue_at t' srv)"
  "queue_at t' (upd_session t h srv) = queue_at t' srv" "queue_at t' (srv\<lparr>srv_frame_event := b\<rparr>) = queue_at t' srv"
  by (auto simp: queue_at_def upd_queue_def upd_session_def)

lemma upd_fields [simp]:
  "srv_frame_event (upd_queue t g srv) = srv_frame_event srv" "srv_frame_event (upd_session t h srv) = srv_frame_event srv"
  "srv_sessions (upd_queue t g srv) = srv_sessions srv"
  "srv_frame_queues (upd_session t h srv) = srv_frame_queues srv"
  "srv_sessions (upd_session t h srv) = (srv_sessions srv)(t := map_option (map_prod id h) (srv_sessions srv t))"
  "srv_frame_queues (upd_queue t g srv) = (srv_frame_queues srv)(t := map_option g (srv_frame_queues srv t))"
  by (simp_all add: upd_queue_def upd_session_def)

section \<open>Frames and the trigger\<close>

lemma live_signal_keeps:
  assumes inv: "live_inv w"
  shows "live_inv (live_signal t w)"
proof -
  let ?w = "live_signal t w"
  have w: "lv_sources ?w = lv_sources w" "lv_tasks ?w = lv_tasks w" "lv_sent ?w = lv_sent w" "lv_next_id ?w = lv_next_id w"
    "lv_frames ?w = lv_frames w" "queue_at t' (lv_server ?w) = queue_at t' (lv_server w)"
    "srv_sessions (lv_server ?w) = srv_sessions (lv_server w)" "srv_inv (lv_server ?w) = srv_inv (lv_server w)"
    "srv_clean (lv_server ?w) = srv_clean (lv_server w)" for t'
    by (simp_all add: live_signal_def Let_def)
  have "srv_frame_event (lv_server ?w) \<or> lv_sources w = Map.empty"
    using live_invD(1) [OF inv] stopped_no_source [OF inv] by (auto simp: live_signal_def Let_def srv_inv_def)
  then have "sys_inv (view t' ?w)" for t'
    by (auto intro!: sys_inv_more [OF live_invD(3) [OF inv], where ns = "[]"] simp: w sent_on_def)
  with inv show ?thesis by (simp add: live_inv_def w)
qed

text \<open>A frame is recorded, and pushed if somebody watches its stream.\<close>

definition record_frame :: "StreamFrame \<Rightarrow> bool \<Rightarrow> RtspServer \<Rightarrow> live_server \<Rightarrow> live_server" where
  "record_frame f c srv w = w\<lparr>lv_server := srv,
     lv_unsignalled := if c then insert (sf_type f) (lv_unsignalled w) else lv_unsignalled w,
     lv_frames := lv_frames w @ [f]\<rparr>"

lemma record_frame_fields [simp]:
  "lv_server (record_frame f c srv w) = srv" "(record_frame f c srv w)\<lparr>lv_server := srv1\<rparr> = record_frame f c srv1 w" "lv_sources (record_frame f c srv w) = lv_sources w"
  "lv_tasks (record_frame f c srv w) = lv_tasks w" "lv_sent (record_frame f c srv w) = lv_sent w"
  "lv_next_id (record_frame f c srv w) = lv_next_id w" "lv_frames (record_frame f c srv w) = lv_frames w @ [f]"
  "t \<in> lv_unsignalled (record_frame f c srv w) \<longleftrightarrow> t \<in> lv_unsignalled w \<or> c \<and> t = sf_type f"
  "sent_on t (record_frame f c srv w) = sent_on t w"
  by (auto simp: record_frame_def sent_on_def)

lemma record_frame_keeps:
  assumes inv: "live_inv w"
  shows "live_inv (record_frame f c (lv_server w) w)"
proof -
  have "sys_inv (view t (record_frame f c (lv_server w) w))" for t
    by (rule sys_inv_more [OF live_invD(3) [OF inv, of t], where ns = "if sf_type f = t then frame_units f else []"]) auto
  with inv show ?thesis by (simp add: live_inv_def)
qed

lemma push_frame_keeps:
  assumes inv: "live_inv w" and q: "srv_frame_queues (lv_server w) (sf_type f) = Some q"
    and cache: "srv_parameter_sets (lv_server w) (sf_type f) = Some cache"
    and clean: "queue_clean (push_total now (frame_units f) q)"
  shows "live_inv (record_frame f True ((lv_server w)
      \<lparr>srv_parameter_sets := (srv_parameter_sets (lv_server w))(sf_type f \<mapsto> cache'),
       srv_frame_queues := (srv_frame_queues (lv_server w))(sf_type f \<mapsto> push_total now (frame_units f) q)\<rparr>) w)"
    (is "live_inv ?w")
proof -
  have "sys_inv (view t ?w)" for t
  proof (cases "t = sf_type f")
    case True
    with q have "view t ?w = (view t w)\<lparr>y_queue := push_total now (frame_units f) (y_queue (view t w)),
        y_pushed := y_pushed (view t w) @ frame_units f, y_unsignalled := True\<rparr>"
      by (simp add: view_def sent_on_def) (simp add: queue_at_def)
    with push_inv [OF live_invD(3) [OF inv]] show ?thesis by simp
  next
    case False
    then have "view t ?w = view t (record_frame f True (lv_server w) w)" by (simp add: view_def sent_on_def queue_at_def)
    with live_invD(3) [OF record_frame_keeps [OF inv]] show ?thesis by simp
  qed
  moreover have "srv_inv (lv_server ?w)"
    using live_invD(1) [OF inv] q cache queue_valid [OF inv q] by (auto simp: srv_inv_def intro: inv_intros)
  moreover have "srv_clean (lv_server ?w)" using live_invD(6) [OF inv] clean by (simp add: srv_clean_def)
  ultimately show ?thesis using inv by (simp add: live_inv_def)
qed

lemma cache_keeps:
  assumes inv: "live_inv w" and cache: "srv_parameter_sets (lv_server w) t = Some cache"
  shows "live_inv (w\<lparr>lv_server := (lv_server w)\<lparr>srv_parameter_sets := (srv_parameter_sets (lv_server w))(t \<mapsto> cache')\<rparr>\<rparr>)"
    (is "live_inv ?w")
proof -
  have "view t' ?w = view t' w" for t' by (simp add: view_def queue_at_def sent_on_def)
  moreover have "srv_inv (lv_server ?w)" using live_invD(1) [OF inv] cache by (auto simp: srv_inv_def)
  ultimately show ?thesis using inv by (simp add: live_inv_def)
qed

lemma live_frame_keeps:
  assumes inv: "live_inv w" and wf: "wf_frame f"
  shows "\<exists>w'. live_frame now f w = Inr w' \<and> live_inv w' \<and> lv_frames w' = lv_frames w @ [f]"
proof (cases "srv_running (lv_server w)")
  case False
  with record_frame_keeps [OF inv, of f False] show ?thesis by (simp add: live_frame_def record_frame_def)
next
  case running: True
  from live_invD(1) [OF inv] show ?thesis
  proof (cases rule: srv_maps_cases [of _ "sf_type f"])
    case absent
    with running record_frame_keeps [OF inv, of f True] show ?thesis
      by (simp add: live_frame_def process_frame_nals_def record_frame_def)
  next
    case (present session codec cache q)
    have "stream_codec (sf_type f) = Some codec" using live_invD(1) [OF inv] present(2) by (simp add: srv_inv_def)
    then have "frame_units f = map (nal_unit_of (sf_timestamp f)) (frame_nals codec (sf_timestamp f) (is_idr f) (frame_packs f))"
      by (simp add: frame_units_def access_unit_def)
    moreover from this have "queue_clean (push_total now (frame_units f) q)"
      using live_invD(6) [OF inv] present(4,5) by (simp add: srv_clean_def queue_clean_push)
    moreover have "live_inv (record_frame f True ((lv_server w)\<lparr>srv_parameter_sets :=
        (srv_parameter_sets (lv_server w))(sf_type f \<mapsto> cache')\<rparr>) w)" for cache'
      using cache_keeps [OF record_frame_keeps [OF inv], where t = "sf_type f"] present(3) by simp
    ultimately show ?thesis
      using running process_frame_nals_eq [OF wf present(2,4,3,5) refl] present(4)
        push_frame_keeps [OF inv present(4,3)]
      by (auto simp: live_frame_def record_frame_def map_upd_triv)
  qed
qed

section \<open>Clients and their sources\<close>

lemma upd_session_keeps:
  assumes inv: "live_inv w"
    and g: "\<And>name sub. srv_sessions (lv_server w) t = Some (name, sub) \<Longrightarrow> sub_stream_type (g sub) = t"
  shows "live_inv (w\<lparr>lv_server := upd_session t g (lv_server w)\<rparr>)" (is "live_inv ?w")
proof -
  have "view t1 ?w = view t1 w" for t1 by (simp add: view_def sent_on_def)
  with inv g show ?thesis by (auto simp: live_inv_def)
qed

lemma new_source_keeps:
  assumes inv: "live_inv w" and q: "srv_frame_queues (lv_server w) t = Some q"
  shows "live_inv (w\<lparr>lv_server := upd_queue t (\<lambda>_. register_source (lv_next_id w) q) (lv_server w),
      lv_sources := (lv_sources w)(lv_next_id w \<mapsto> new_source t codec), lv_owner := owner, lv_next_id := lv_next_id w + 1\<rparr>)"
    (is "live_inv ?w")
proof -
  let ?n = "lv_next_id w"
  have fresh: "lv_sources w ?n = None" using live_source(2) [OF inv, of ?n] by (cases "lv_sources w ?n") auto
  have "sys_inv (view t1 ?w)" for t1
  proof (cases "t1 = t")
    case True
    have "view t ?w = (view t w)\<lparr>y_sources := (y_sources (view t w))(y_next_id (view t w) \<mapsto> new_source t codec),
        y_queue := register_source (y_next_id (view t w)) (y_queue (view t w)), y_next_id := y_next_id (view t w) + 1\<rparr>"
      using q by (simp add: view_def sent_on_def new_source_def queue_at_def)
    with True new_source_inv [OF live_invD(3) [OF inv, of t]] show ?thesis by simp
  next
    case False
    have "(sources_of t1 (lv_sources w))(?n := None) = sources_of t1 (lv_sources w)"
      using fresh by (auto simp: fun_eq_iff sources_of_None)
    with False show ?thesis
      by (intro sys_inv_more [OF live_invD(3) [OF inv, of t1], where ns = "[]"]) (simp_all add: new_source_def sent_on_def)
  qed
  moreover have "srv_inv (lv_server ?w)"
    using live_invD(1) [OF inv] queue_valid [OF inv q] by (auto intro!: srv_inv_upd_queue)
  moreover have "srv_clean (lv_server ?w)"
    using live_invD(6) [OF inv] q by (auto intro!: srv_clean_upd_queue simp: srv_clean_def)
  ultimately show ?thesis using inv by (auto simp: live_inv_def)
qed

lemma live_connect_keeps:
  assumes inv: "live_inv w" and w': "live_connect t cid w = Some w'"
  shows "live_inv w'"
proof -
  let ?srv = "lv_server w" and ?n = "lv_next_id w"
  from w' obtain name sub q where sub: "srv_sessions ?srv t = Some (name, sub)" and q: "srv_frame_queues ?srv t = Some q"
    by (auto simp: live_connect_def split: option.splits)
  have t: "sub_stream_type sub = t" using live_invD(2) [OF inv sub] .
  obtain framer sub' q' est where c: "createNewStreamSource (Some ?n) cid sub q 0 = (framer, sub', q', est)"
    by (cases "createNewStreamSource (Some ?n) cid sub q 0") auto
  have q': "q' = (if framer = None then q else register_source ?n q)" and sub': "sub_stream_type sub' = t"
    using c t by (auto simp: createNewStreamSource_def Let_def split: if_splits)
  show ?thesis
  proof (cases framer)
    case None
    have "upd_queue t (\<lambda>_. q) ?srv = ?srv" using q by (simp add: upd_queue_def map_upd_triv)
    with w' None c sub q q' upd_session_keeps [OF inv, of t "\<lambda>_. sub'"] sub' show ?thesis
      by (simp add: live_connect_def)
  next
    case (Some fr)
    let ?w = "w\<lparr>lv_server := upd_queue t (\<lambda>_. register_source ?n q) ?srv,
      lv_sources := (lv_sources w)(?n \<mapsto> new_source t (sub_codec_type sub)), lv_owner := (lv_owner w)(?n := cid), lv_next_id := ?n + 1\<rparr>"
    have "w' = ?w\<lparr>lv_server := upd_session t (\<lambda>_. sub') (lv_server ?w)\<rparr>"
      using w' Some c sub q t q' by (intro live_server.equality) (auto simp: live_connect_def)
    with upd_session_keeps [OF new_source_keeps [OF inv q]] sub' show ?thesis by simp
  qed
qed

lemma live_close_keeps:
  assumes inv: "live_inv w" and idle: "s \<notin> set (lv_tasks w)" and w': "live_close s w = Some w'"
  shows "live_inv w'"
proof -
  from w' obtain src where src: "lv_sources w s = Some src" by (auto simp: live_close_def)
  let ?t = "ss_stream_type src"
  let ?w = "w\<lparr>lv_server := upd_session ?t (deleteStream (lv_owner w s)) (lv_server w)\<rparr>"
  obtain q where q: "srv_frame_queues (lv_server w) ?t = Some q" using live_source(1) [OF inv src] by blast
  have inv1: "live_inv ?w"
    using live_invD(2) [OF inv] by (intro upd_session_keeps [OF inv]) (simp add: deleteStream_def)
  have w'_eq: "w' = ?w\<lparr>lv_server := upd_queue ?t (unregister_source s) (lv_server ?w), lv_sources := (lv_sources w)(s := None)\<rparr>"
    using w' src by (simp add: live_close_def Let_def)
  have "sys_inv (view t w')" for t
  proof (cases "t = ?t")
    case True
    with q have "view t w' = (view t ?w)\<lparr>y_sources := (y_sources (view t ?w))(s := None),
        y_queue := unregister_source s (y_queue (view t ?w))\<rparr>"
      by (simp add: w'_eq view_def sent_on_def)
    with close_source_inv [OF live_invD(3) [OF inv1, of t]] show ?thesis by simp
  next
    case False
    with src have "(sources_of t (lv_sources w))(s := None) = sources_of t (lv_sources w)"
      by (auto simp: fun_eq_iff sources_of_def)
    with False have "view t w' = view t ?w" by (simp add: w'_eq view_def sent_on_def)
    with live_invD(3) [OF inv1] show ?thesis by simp
  qed
  moreover have "srv_inv (lv_server w')"
    using live_invD(1) [OF inv1] queue_valid [OF inv q] q unfolding w'_eq by (auto intro!: srv_inv_upd_queue)
  moreover have "srv_clean (lv_server w')"
    using live_invD(6) [OF inv1] q unfolding w'_eq by (auto intro!: srv_clean_upd_queue simp: srv_clean_def)
  ultimately show ?thesis using inv1 idle by (auto simp: w'_eq live_inv_def)
qed

section \<open>Delivery\<close>

lemma deliver_frame_stream:
  "deliver_frame src q = Inr (src', q', r) \<Longrightarrow> ss_stream_type src' = ss_stream_type src"
  by (auto simp: deliver_frame_def Let_def split: if_splits prod.splits option.splits sum.splits)

text \<open>The sink finds the beginning of the NAL unit, cut at the end of its buffer.\<close>

lemma deliver_frame_bytes:
  assumes "deliver_frame src q = Inr (src', q', Some n)"
  shows "take (unat (ss_frame_size src')) (ss_to src') = take (unat (ss_max_size src)) (nu_data n)"
proof -
  let ?max = "unat (ss_max_size src)" and ?size = "length (nu_data n)"
  let ?n = "if ?max < ?size then ?max else ?size"
  have d: "copy_out (ss_to src) (nu_data n) ?n = Inr (ss_to src')"
    "ss_frame_size src' = (if ?max < ?size then ss_max_size src else word_of_nat ?size)"
    using assms by (auto simp: deliver_frame_def Let_def split: if_splits prod.splits option.splits sum.splits)
  have "?size < 2 ^ 32" if "?size \<le> ?max" using that unsigned_less [of "ss_max_size src", where 'a = nat] by simp
  then have "unat (ss_frame_size src') = ?n"
    using d(2) word_less_of_nat_len [of ?size, where 'a = 32] by auto
  moreover have "take ?n (ss_to src') = take ?n (nu_data n)"
  proof -
    have "ss_to src' = take ?n (nu_data n) @ drop ?n (ss_to src)"
      using d(1) by (simp add: copy_out_def split: if_splits)
    then show ?thesis by simp
  qed
  ultimately show ?thesis by simp
qed

text \<open>A stream but for one source, which is about to be served.\<close>

definition stream_inv_but :: "source_id \<Rightarrow> rtsp_sys \<Rightarrow> bool" where
  "stream_inv_but s y \<longleftrightarrow>
     fq_valid (y_queue y) \<and> distinct (fq_active_sources (y_queue y))
   \<and> set (fq_active_sources (y_queue y)) = dom (y_sources y)
   \<and> (\<forall>s' src. s' \<noteq> s \<longrightarrow> y_sources y s' = Some src \<longrightarrow> source_ok y s' src)
   \<and> subseq (y_sent y @ fq_nals (y_queue y)) (y_pushed y)"

lemma stream_inv_but:
  "sys_inv y \<Longrightarrow> stream_inv_but s y"
  "stream_inv_but s y \<Longrightarrow> s \<notin> dom (y_sources y) \<Longrightarrow> sys_inv y"
  by (auto simp: stream_inv_but_def sys_inv_def)

lemma queue_served:
  assumes inv: "live_inv w" and q: "srv_frame_queues (lv_server w) t = Some q" and q': "q' = q \<or> q' = snd (pop_nal_unit q)"
  shows "srv_inv (upd_queue t (\<lambda>_. q') (lv_server w))" and "srv_clean (upd_queue t (\<lambda>_. q') (lv_server w))"
proof -
  have "queue_clean q" using live_invD(6) [OF inv] q by (simp add: srv_clean_def)
  then have "queue_clean q'" "fq_valid q'"
    using q' queue_valid [OF inv q] queue_clean_pop by (auto intro: inv_intros)
  with live_invD(1,6) [OF inv] show "srv_inv (upd_queue t (\<lambda>_. q') (lv_server w))" "srv_clean (upd_queue t (\<lambda>_. q') (lv_server w))"
    by (simp_all add: srv_inv_upd_queue srv_clean_upd_queue)
qed

lemma live_deliver_keeps:
  assumes inv: "live_inv w" and but: "\<And>t. stream_inv_but s (view t (w\<lparr>lv_tasks := tasks\<rparr>))" and tasks: "set tasks \<subseteq> set (lv_tasks w)"
    and s: "lv_sources w s = Some src0" "ss_stream_type src0 = ss_stream_type src"
    and own: "length (ss_to src) = unat (ss_max_size src)"
    and r: "live_deliver s deliver_frame src (w\<lparr>lv_tasks := tasks\<rparr>) = Some r"
  shows "\<exists>w'. r = Inr w' \<and> live_inv w' \<and> lv_frames w' = lv_frames w"
proof -
  let ?t = "ss_stream_type src" and ?w = "w\<lparr>lv_tasks := tasks\<rparr>"
  obtain q where q: "srv_frame_queues (lv_server w) ?t = Some q" using live_source(1) [OF inv s(1)] s(2) by auto
  obtain src' q' nal where d: "deliver_frame src q = Inr (src', q', nal)"
    using own by (rule deliver_frame_cases [of src q]) blast+
  have src': "ss_stream_type src' = ?t" using d by (rule deliver_frame_stream)
  define new where "new = (case nal of None \<Rightarrow> [] | Some n \<Rightarrow> [\<lparr>dl_stream = ?t, dl_source = s, dl_nal = n,
      dl_room = unat (ss_max_size src), dl_bytes = take (unat (ss_frame_size src')) (ss_to src')\<rparr>])"
  let ?w' = "?w\<lparr>lv_server := upd_queue ?t (\<lambda>_. q') (lv_server w), lv_sources := (lv_sources w)(s \<mapsto> src'),
      lv_sent := lv_sent w @ new\<rparr>"
  have r': "r = Inr ?w'" using r q d by (auto simp: live_deliver_def new_def)
  note served = queue_served [OF inv q deliver_frame_effect(1) [OF d own]]
  have "sys_inv (view t ?w')" for t
  proof (cases "t = ?t")
    case True
    have own_queue: "queue_at ?t (lv_server w) = q" using q by (simp add: queue_at_def)
    have "delivered s (view t ?w) (deliver_frame src (y_queue (view t ?w))) = Inr (view t ?w')"
      using True q d src' own_queue
      by (auto simp: delivered_def view_def sent_on_def new_def split: option.split)
    then show ?thesis
      by (rule delivered_inv [where s = s and source = src, rotated -1])
        (use but [of t] own s live_source(2) [OF inv s(1)] True in \<open>auto simp: stream_inv_but_def\<close>)
  next
    case False
    with s have "(sources_of t (lv_sources w))(s := None) = sources_of t (lv_sources w)"
      by (auto simp: fun_eq_iff sources_of_def)
    with False src' have "view t ?w' = view t ?w" by (auto simp: view_def sent_on_def new_def split: option.split)
    moreover have "sys_inv (view t ?w)" using but [of t] s False by (intro stream_inv_but(2)) auto
    ultimately show ?thesis by simp
  qed
  moreover have "dl_bytes x = take (dl_room x) (nu_data (dl_nal x))" if "x \<in> set new" for x
    using that d deliver_frame_bytes [of src q src' q'] by (auto simp: new_def split: option.splits)
  ultimately have "live_inv ?w'"
    using inv served tasks by (auto simp: live_inv_def)
  with r' show ?thesis by simp
qed

section \<open>The trigger\<close>

lemma fold_notify_queues:
  "fold (notify_active_sources notify) qs x = fold notify (concat (map fq_active_sources qs)) x"
  by (induction qs arbitrary: x) (simp_all add: notify_active_sources_def)

lemma distinct_map_values:
  assumes "\<And>t q. m t = Some q \<Longrightarrow> distinct (g q)"
    and "\<And>t u q r. t \<noteq> u \<Longrightarrow> m t = Some q \<Longrightarrow> m u = Some r \<Longrightarrow> set (g q) \<inter> set (g r) = {}"
  shows "distinct (concat (map g (map_values m)))"
proof -
  have "distinct (concat (map g (List.map_filter m ts)))" if "distinct ts" for ts
    using that
  proof (induction ts)
    case (Cons t ts)
    have "set (g q) \<inter> set (concat (map g (List.map_filter m ts))) = {}" if "m t = Some q" for q
      using Cons.prems assms(2) [OF _ that] by (fastforce simp: map_filter_def)
    with Cons assms(1) [of t] show ?case by (cases "m t") (auto simp: map_filter_simps)
  qed (simp add: map_filter_simps)
  moreover have "distinct stream_types" by (simp add: stream_types_def)
  ultimately show ?thesis by (simp add: map_values_def)
qed

lemma active_sources:
  assumes inv: "live_inv w" and q: "srv_frame_queues (lv_server w) t = Some q"
  shows "distinct (fq_active_sources q)" and "set (fq_active_sources q) = dom (sources_of t (lv_sources w))"
  using sys_invD(2,3) [OF live_invD(3) [OF inv, of t]] q by (simp_all add: queue_at_def)

text \<open>What the handler does to all sources it does to those of each stream.\<close>

lemma notified_sources_of:
  assumes n: "notified ss m tasks m' tasks'" and active: "set us = dom (sources_of t m)" and "set us \<subseteq> set ss"
  shows "notified us (sources_of t m) tasks (sources_of t m') tasks'"
proof -
  have origin: "\<exists>src. m s = Some src \<and> ss_stream_type src = ss_stream_type src'
      \<and> src' = (if s \<in> set ss then src\<lparr>ss_awaiting_frame := False\<rparr> else src)
      \<and> (s \<in> set ss \<and> ss_awaiting_frame src \<longrightarrow> s \<in> set tasks')" if "m' s = Some src'" for s src'
    using n that unfolding notified_def by fastforce
  have kept: "\<exists>src. m s = Some src \<and> ss_stream_type src = ss_stream_type src'" if "m' s = Some src'" for s src'
    using origin [OF that] by blast
  have "dom (sources_of t m') = dom (sources_of t m)"
  proof (intro equalityI subsetI)
    fix s assume "s \<in> dom (sources_of t m')"
    then obtain src' where "m' s = Some src'" "ss_stream_type src' = t" by auto
    with kept [OF this(1)] show "s \<in> dom (sources_of t m)" by auto
  next
    fix s assume "s \<in> dom (sources_of t m)"
    then obtain src where src: "m s = Some src" "ss_stream_type src = t" by auto
    with n have "s \<in> dom m'" unfolding notified_def by (metis domI)
    then obtain src' where "m' s = Some src'" by auto
    moreover from kept [OF this] src have "ss_stream_type src' = t" by auto
    ultimately show "s \<in> dom (sources_of t m')" by auto
  qed
  moreover have "\<exists>src. sources_of t m s = Some src
      \<and> src' = (if s \<in> set us then src\<lparr>ss_awaiting_frame := False\<rparr> else src)
      \<and> (s \<in> set us \<and> ss_awaiting_frame src \<longrightarrow> s \<in> set tasks')" if s: "sources_of t m' s = Some src'" for s src'
  proof -
    from s obtain src where src: "m s = Some src" "ss_stream_type src = t"
      "src' = (if s \<in> set ss then src\<lparr>ss_awaiting_frame := False\<rparr> else src)"
      "s \<in> set ss \<and> ss_awaiting_frame src \<longrightarrow> s \<in> set tasks'"
      using origin [of s src'] by auto
    then have "s \<in> set us" using active by auto
    with src assms(3) show ?thesis by auto
  qed
  ultimately show ?thesis using n by (simp add: notified_def)
qed

lemma fold_notify_tasks:
  "fold notify_by_id ss (Inr (m, tasks)) = Inr (m', tasks') \<Longrightarrow> set tasks' \<subseteq> set tasks \<union> set ss"
proof (induction ss arbitrary: m tasks)
  case (Cons s ss)
  have "notify_by_id s' (Inl e) = Inl e" for s' e by (simp add: notify_by_id_def)
  then have stuck: "fold notify_by_id xs (Inl e) = Inl e" for xs e by (induction xs) simp_all
  obtain r where r: "notify_by_id s (Inr (m, tasks)) = r" by blast
  with Cons.prems stuck obtain m1 tasks1 where r1: "r = Inr (m1, tasks1)" by (cases r) auto
  with r have "set tasks1 \<subseteq> insert s (set tasks)"
    by (auto simp: notify_by_id_def notify_frame_available_def split: option.splits if_splits)
  with Cons.IH [of m1 tasks1] Cons.prems r r1 show ?case by auto
qed simp

lemma live_trigger_keeps:
  assumes inv: "live_inv w"
  shows "\<exists>sources tasks. handle_frame_trigger notify_by_id (lv_server w) (Inr (lv_sources w, lv_tasks w)) = Inr (sources, tasks)
    \<and> live_inv (w\<lparr>lv_server := (lv_server w)\<lparr>srv_frame_event := False\<rparr>, lv_sources := sources, lv_tasks := tasks\<rparr>)"
proof -
  let ?qs = "map_values (srv_frame_queues (lv_server w))"
  let ?ss = "concat (map fq_active_sources ?qs)"
  have "distinct ?ss"
    by (rule distinct_map_values) (use active_sources [OF inv] in \<open>fastforce simp: sources_of_def split: option.splits if_splits\<close>)+
  moreover have ss: "set ?ss = (\<Union>t. set (fq_active_sources (queue_at t (lv_server w))))"
    by (fastforce simp: set_map_values ran_def queue_at_def new_frame_queue_def split: option.splits)
  have active: "set (fq_active_sources (queue_at t (lv_server w))) = dom (sources_of t (lv_sources w))" for t
    using sys_invD(3) [OF live_invD(3) [OF inv, of t]] by simp
  have alive: "set ?ss \<subseteq> dom (lv_sources w)" unfolding ss active by auto
  ultimately obtain sources tasks where fold: "fold notify_by_id ?ss (Inr (lv_sources w, lv_tasks w)) = Inr (sources, tasks)"
    and n: "notified ?ss (lv_sources w) (lv_tasks w) sources tasks"
    using notify_all by blast
  let ?w = "w\<lparr>lv_server := (lv_server w)\<lparr>srv_frame_event := False\<rparr>, lv_sources := sources, lv_tasks := tasks\<rparr>"
  have "sys_inv (view t ?w)" for t
  proof -
    have "set (fq_active_sources (queue_at t (lv_server w))) \<subseteq> set ?ss" unfolding ss by blast
    note notified_sources_of [OF n active this]
    with notified_inv [OF live_invD(3) [OF inv, of t], of "sources_of t sources" tasks] show ?thesis
      by (simp add: view_def sent_on_def)
  qed
  moreover have "set tasks \<subseteq> dom sources"
    using fold_notify_tasks [OF fold] alive live_invD(4) [OF inv] n unfolding notified_def by blast
  ultimately have "live_inv ?w" using inv by (simp add: live_inv_def)
  with fold show ?thesis by (simp add: handle_frame_trigger_def fold_notify_queues)
qed

section \<open>Administration\<close>

text \<open>What an operation of the main thread does to each stream: nothing, or, on a stream without clients,
  an empty queue.\<close>

lemma admin_queue:
  assumes inv: "live_inv w" and "admin_enabled x w" and step: "srv_step x (lv_server w) = Inr srv'"
  shows "queue_at t srv' = queue_at t (lv_server w)
    \<or> sources_of t (lv_sources w) = Map.empty \<and> (\<exists>n. queue_at t srv' = new_frame_queue n)"
proof (cases x)
  case (Start port a b c)
  from live_invD(1) [OF inv] show ?thesis
    by (cases rule: start_cases [of _ port a b c]) (use Start step in \<open>auto simp: queue_at_def\<close>)
next
  case Stop
  with assms(2) step show ?thesis
    by (cases "srv_running (lv_server w)") (auto simp: stop_eq [OF live_invD(1) [OF inv]] queue_at_def)
next
  case (AddStream t1 name ok)
  show ?thesis
  proof (cases rule: add_stream_cases [of t1 name ok "lv_server w"])
    case refused
    with AddStream step show ?thesis by auto
  next
    case (added codec)
    have "srv_frame_queues (lv_server w) t1 = None"
      using added(3) live_invD(1) [OF inv] by (auto simp: srv_inv_def)
    note empty = no_stream_no_source [OF inv this]
    from added(4) AddStream step have "srv_frame_queues srv' = (srv_frame_queues (lv_server w))
        (t1 \<mapsto> new_frame_queue (cf_frame_queue_size (srv_config (lv_server w))))" by auto
    with empty show ?thesis by (cases "t = t1") (auto simp: queue_at_def)
  qed
next
  case (RemoveStream t1)
  with step have "srv_frame_queues srv' t = srv_frame_queues (lv_server w) t \<or> t = t1 \<and> srv_frame_queues srv' t = None"
    by (cases "srv_sessions (lv_server w) t1") (auto simp: remove_stream_def split: if_splits)
  with RemoveStream assms(2) show ?thesis by (auto simp: queue_at_def)
qed (use assms(2) in simp_all)

lemma admin_rest:
  assumes inv: "live_inv w" and "admin_enabled x w" and step: "srv_step x (lv_server w) = Inr srv'"
  shows "srv_frame_event srv' = srv_frame_event (lv_server w)"
    and "srv_sessions srv' t = Some (name, sub) \<Longrightarrow> sub_stream_type sub = t"
    and "srv_scheduler srv' \<or> lv_sources w = Map.empty"
proof -
  have "srv_frame_event srv' = srv_frame_event (lv_server w)
    \<and> (\<forall>name sub. srv_sessions srv' t = Some (name, sub) \<longrightarrow> sub_stream_type sub = t)
    \<and> (srv_scheduler srv' \<or> lv_sources w = Map.empty)"
  proof (cases x)
    case (Start port a b c)
    from live_invD(1) [OF inv] show ?thesis
      by (cases rule: start_cases [of _ port a b c])
        (use Start step live_invD(1,2) [OF inv] stopped_no_source [OF inv] in \<open>auto simp: srv_inv_def\<close>)
  next
    case Stop
    with assms(2) step live_invD(2) [OF inv] show ?thesis
      by (cases "srv_running (lv_server w)") (auto simp: stop_eq [OF live_invD(1) [OF inv]])
  next
    case (AddStream t1 name1 ok)
    have rest: "srv_scheduler srv' = srv_scheduler (lv_server w)" "srv_frame_event srv' = srv_frame_event (lv_server w)"
      "srv_sessions srv' t = Some (name, sub) \<Longrightarrow> srv_sessions (lv_server w) t = Some (name, sub) \<or> sub_stream_type sub = t"
      for name sub
      using AddStream step
      by (cases rule: add_stream_cases [of t1 name1 ok "lv_server w"]; auto simp: new_subsession_def split: if_splits)+
    with live_invD(1,2) [OF inv] stopped_no_source [OF inv] show ?thesis by (auto simp: srv_inv_def)
  next
    case (RemoveStream t1)
    then have rest: "srv_scheduler srv' = srv_scheduler (lv_server w)" "srv_frame_event srv' = srv_frame_event (lv_server w)"
      "srv_sessions srv' t = Some (name, sub) \<Longrightarrow> srv_sessions (lv_server w) t = Some (name, sub)" for name sub
      using step by (cases "srv_sessions (lv_server w) t1"; auto simp: remove_stream_def split: if_splits)+
    with live_invD(1,2) [OF inv] stopped_no_source [OF inv] show ?thesis by (auto simp: srv_inv_def)
  qed (use assms(2) in simp_all)
  then show "srv_frame_event srv' = srv_frame_event (lv_server w)"
    "srv_sessions srv' t = Some (name, sub) \<Longrightarrow> sub_stream_type sub = t"
    "srv_scheduler srv' \<or> lv_sources w = Map.empty" by blast+
qed

lemma live_admin_keeps:
  assumes inv: "live_inv w" and "admin_enabled x w"
  shows "\<exists>w'. live_admin x w = Inr w' \<and> live_inv w' \<and> lv_frames w' = lv_frames w"
proof -
  have "op_ok x" using assms(2) by (cases x) simp_all
  with live_invD(1,6) [OF inv] obtain srv where srv: "srv_step x (lv_server w) = Inr srv" "srv_inv srv" "srv_clean srv"
    using srv_step_inv by blast
  note queue = admin_queue [OF inv assms(2) srv(1)] and rest = admin_rest [OF inv assms(2) srv(1)]
  let ?w = "w\<lparr>lv_server := if srv_scheduler srv then srv else srv\<lparr>srv_frame_event := False\<rparr>\<rparr>"
  have event: "srv_frame_event (lv_server ?w) = srv_frame_event (lv_server w) \<or> lv_sources w = Map.empty"
    using rest(1,3) by auto
  have queue': "queue_at t (lv_server ?w) = queue_at t srv" for t by simp
  have "sys_inv (view t ?w)" for t
    using queue [of t]
  proof
    assume "queue_at t srv = queue_at t (lv_server w)"
    with event queue' show ?thesis
      by (intro sys_inv_more [OF live_invD(3) [OF inv, of t], where ns = "[]"]) (auto simp: sent_on_def)
  next
    assume *: "sources_of t (lv_sources w) = Map.empty \<and> (\<exists>n. queue_at t srv = new_frame_queue n)"
    then obtain n where "view t ?w = (view t w)\<lparr>y_queue := new_frame_queue n, y_trigger := srv_frame_event (lv_server ?w)\<rparr>"
      by (auto simp: view_def sent_on_def)
    with * sys_inv_reset [OF live_invD(3) [OF inv, of t]] show ?thesis by simp
  qed
  with inv srv rest(2) have "live_inv ?w" by (simp add: live_inv_def)
  with srv(1) show ?thesis by (simp add: live_admin_def)
qed

section \<open>Every step keeps the invariant\<close>

text \<open>The frames are those of the \<open>StreamFrame\<close> constructor.\<close>

fun frames_given :: "live_action \<Rightarrow> StreamFrame list" where
  "frames_given (Frame now f) = [f]"
| "frames_given _ = []"

lemma live_deliver_doGetNextFrame:
  "live_deliver s doGetNextFrame src w = live_deliver s deliver_frame (src\<lparr>ss_awaiting_frame := True\<rparr>) w"
proof -
  have "ss_stream_type (src\<lparr>ss_awaiting_frame := True\<rparr>) = ss_stream_type src"
    "ss_max_size (src\<lparr>ss_awaiting_frame := True\<rparr>) = ss_max_size src" by simp_all
  then show ?thesis unfolding live_deliver_def doGetNextFrame_def by (simp only:)
qed

lemma live_read_keeps:
  assumes inv: "live_inv w" and r: "live_step (Read s buf) w = Some r"
  shows "\<exists>w'. r = Inr w' \<and> live_inv w' \<and> lv_frames w' = lv_frames w"
proof -
  from r obtain src where src: "lv_sources w s = Some src" and buf: "length buf < 2 ^ 32"
    and d: "live_deliver s doGetNextFrame (src\<lparr>ss_to := buf, ss_max_size := word_of_nat (length buf),
      ss_currently_awaiting := True\<rparr>) w = Some r"
    by (auto split: option.splits if_splits)
  let ?src = "src\<lparr>ss_to := buf, ss_max_size := word_of_nat (length buf), ss_currently_awaiting := True, ss_awaiting_frame := True\<rparr>"
  have "live_deliver s deliver_frame ?src (w\<lparr>lv_tasks := lv_tasks w\<rparr>) = Some r"
    using d by (simp add: live_deliver_doGetNextFrame)
  then show ?thesis
    by (rule live_deliver_keeps [OF inv _ _ src, rotated -1])
      (use buf word_less_of_nat_len [of "length buf", where 'a = 32] stream_inv_but(1) [OF live_invD(3) [OF inv]] in simp_all)
qed

lemma live_task_keeps:
  assumes inv: "live_inv w" and r: "live_step RunTask w = Some r"
  shows "\<exists>w'. r = Inr w' \<and> live_inv w' \<and> lv_frames w' = lv_frames w"
proof -
  from r obtain s tasks where t: "lv_tasks w = s # tasks" by (auto split: list.splits)
  with live_invD(4) [OF inv] obtain src where src: "lv_sources w s = Some src" by auto
  with r t have d: "live_deliver s deliver_frame src (w\<lparr>lv_tasks := tasks\<rparr>) = Some r" by simp
  have own: "length (ss_to src) = unat (ss_max_size src)"
    using sys_invD(4) [OF live_invD(3) [OF inv], of "ss_stream_type src" s src] src by (simp add: source_ok_def)
  have "stream_inv_but s (view u (w\<lparr>lv_tasks := tasks\<rparr>))" for u
    using live_invD(3) [OF inv, of u] t by (auto simp: stream_inv_but_def sys_inv_def source_ok_def sent_on_def)
  from live_deliver_keeps [OF inv this _ src refl own d] t show ?thesis by auto
qed

lemma live_stop_reading_keeps:
  assumes inv: "live_inv w" and src: "lv_sources w s = Some src"
  shows "live_inv (w\<lparr>lv_sources := (lv_sources w)(s \<mapsto> doStopGettingFrames (src\<lparr>ss_currently_awaiting := False\<rparr>))\<rparr>)"
    (is "live_inv ?w")
proof -
  have "sys_inv (view t ?w)" for t
  proof (cases "t = ss_stream_type src")
    case True
    with live_invD(3) [OF inv, of t] src show ?thesis
      by (auto simp: sys_inv_def source_ok_def doStopGettingFrames_def sent_on_def)
  next
    case False
    with src have "(sources_of t (lv_sources w))(s := None) = sources_of t (lv_sources w)"
      by (auto simp: fun_eq_iff sources_of_def)
    with False have "view t ?w = view t w" by (simp add: view_def sent_on_def doStopGettingFrames_def)
    with live_invD(3) [OF inv] show ?thesis by simp
  qed
  with inv src show ?thesis by (auto simp: live_inv_def)
qed

lemma live_step_keeps:
  assumes inv: "live_inv w" and wf: "\<And>f. f \<in> set (frames_given x) \<Longrightarrow> wf_frame f" and r: "live_step x w = Some r"
  shows "\<exists>w'. r = Inr w' \<and> live_inv w' \<and> lv_frames w' = lv_frames w @ frames_given x"
proof (cases x)
  case (Admin y)
  with r live_admin_keeps [OF inv, of y] show ?thesis by (auto split: if_splits)
next
  case (Frame now f)
  with r have "r = live_frame now f w" by (simp split: if_splits)
  with Frame wf live_frame_keeps [OF inv, of f now] show ?thesis by simp
next
  case (Signal t)
  with r live_signal_keeps [OF inv] show ?thesis by (auto simp: live_signal_def Let_def split: if_splits)
next
  case (Client t cid)
  with r obtain w' where w': "live_connect t cid w = Some w'" "r = Inr w'" by auto
  then have "lv_frames w' = lv_frames w"
    by (auto simp: live_connect_def Let_def split: option.splits prod.splits if_splits)
  with Client w' live_connect_keeps [OF inv] show ?thesis by auto
next
  case (Leave s)
  with r live_close_keeps [OF inv, of s] show ?thesis by (auto simp: live_close_def Let_def split: if_splits)
next
  case (Read s buf)
  with r live_read_keeps [OF inv] show ?thesis by simp
next
  case (StopReading s)
  with r live_stop_reading_keeps [OF inv, of s] show ?thesis by auto
next
  case HandleTrigger
  with r live_trigger_keeps [OF inv] show ?thesis by (auto split: if_splits)
next
  case RunTask
  with r live_task_keeps [OF inv] show ?thesis by simp
qed

definition frames_of :: "live_action list \<Rightarrow> StreamFrame list" where
  "frames_of xs = concat (map frames_given xs)"

lemma frames_of_simps [simp]: "frames_of [] = []" "frames_of (x # xs) = frames_given x @ frames_of xs"
  by (simp_all add: frames_of_def)

lemma live_run_keeps:
  "live_inv w \<Longrightarrow> (\<And>f. f \<in> set (frames_of xs) \<Longrightarrow> wf_frame f) \<Longrightarrow> live_run xs w = Some r \<Longrightarrow>
     \<exists>w'. r = Inr w' \<and> live_inv w' \<and> lv_frames w' = lv_frames w @ frames_of xs"
proof (induction xs arbitrary: w)
  case (Cons x xs)
  from Cons.prems(3) obtain r1 where r1: "live_step x w = Some r1" by (auto split: option.splits)
  obtain w1 where w1: "r1 = Inr w1" "live_inv w1" "lv_frames w1 = lv_frames w @ frames_given x"
    using live_step_keeps [OF Cons.prems(1) _ r1] Cons.prems(2) by auto
  have "live_run xs w1 = Some r" using Cons.prems(3) r1 w1(1) by simp
  with Cons.IH [OF w1(2)] Cons.prems(2) w1(3) show ?case by auto
qed auto

section \<open>A run\<close>

text \<open>A client of the sub stream asks for data before there is any; a frame comes, and the client gets
  its NAL unit and asks again.\<close>

definition watch_acts :: "live_action list" where
  "watch_acts = [Admin (Start 8554 True True True), Admin (AddStream VIDEO_SUB ''sub'' True),
     Client VIDEO_SUB 7, Read 0 [0, 0]]"

definition serve_acts :: "live_action list" where
  "serve_acts = [Signal VIDEO_SUB, HandleTrigger, RunTask, Read 0 [0, 0]]"

definition watching :: live_server where
  "watching = new_live_server\<lparr>
     lv_server := new_server\<lparr>srv_rtsp_server := True, srv_env := True, srv_scheduler := True, srv_running := True,
       srv_event_thread := True,
       srv_sessions :=
         [VIDEO_SUB \<mapsto> (''sub'', (new_subsession VIDEO_SUB H264 1 True)\<lparr>sub_active_client_sessions := {7}\<rparr>)],
       srv_frame_queues := [VIDEO_SUB \<mapsto> register_source 0 (new_frame_queue 5)],
       srv_parameter_sets := [VIDEO_SUB \<mapsto> empty_cache], srv_stream_codecs := [VIDEO_SUB \<mapsto> H264],
       srv_live := {LibScheduler, LibEnv, LibServer, LibSession VIDEO_SUB}\<rparr>,
     lv_sources := [0 \<mapsto> (new_source VIDEO_SUB H264)\<lparr>ss_to := [0, 0], ss_max_size := 2, ss_currently_awaiting := True,
       ss_awaiting_frame := True\<rparr>],
     lv_next_id := 1, lv_owner := (\<lambda>_. 0)(0 := 7)\<rparr>"

lemma watch_run: "live_run watch_acts new_live_server = Some (Inr watching)"
  by (simp add: watch_acts_def watching_def new_live_server_def live_admin_def start_def new_server_def add_stream_def
      live_connect_def createNewStreamSource_def new_subsession_def upd_session_def upd_queue_def
      live_deliver_def doGetNextFrame_def deliver_frame_def pop_nal_unit_def register_source_def new_frame_queue_def
      new_source_def insert_commute)

text \<open>The frame is any one of the sub stream that has a single NAL unit which fits the buffer.\<close>

definition one_nal :: "StreamFrame \<Rightarrow> RtspNalUnit \<Rightarrow> bool" where
  "one_nal f n \<longleftrightarrow> wf_frame f \<and> sf_type f = VIDEO_SUB \<and> length (nu_data n) \<le> 2
   \<and> (\<exists>pn. frame_nals H264 (sf_timestamp f) (is_idr f) (frame_packs f) = [pn] \<and> n = nal_unit_of (sf_timestamp f) pn)"

definition watched :: "StreamFrame \<Rightarrow> RtspNalUnit \<Rightarrow> ParameterSetCache \<Rightarrow> live_server" where
  "watched f n cache = watching\<lparr>lv_server := (lv_server watching)\<lparr>srv_parameter_sets := [VIDEO_SUB \<mapsto> cache],
     srv_frame_queues := [VIDEO_SUB \<mapsto> (register_source 0 (new_frame_queue 5))\<lparr>fq_queue := [[n]]\<rparr>]\<rparr>,
     lv_unsignalled := {VIDEO_SUB}, lv_frames := [f]\<rparr>"

lemma frame_run:
  assumes "one_nal f n"
  shows "\<exists>cache. live_step (Frame 0 f) watching = Some (Inr (watched f n cache))"
proof -
  from assms obtain pn where nals: "frame_nals H264 (sf_timestamp f) (is_idr f) (frame_packs f) = [pn]"
    and f: "wf_frame f" "sf_type f = VIDEO_SUB" "nal_unit_of (sf_timestamp f) pn = n"
    by (auto simp: one_nal_def)
  have "push_total 0 [n] (register_source 0 (new_frame_queue 5)) = (register_source 0 (new_frame_queue 5))\<lparr>fq_queue := [[n]]\<rparr>"
    by (simp add: push_total_def push_access_unit_def make_room.simps register_source_def new_frame_queue_def)
  with f(2,3) nals show ?thesis
    using process_frame_nals_eq [OF f(1), where s = "lv_server watching" and codec = H264
        and q = "register_source 0 (new_frame_queue 5)" and cache = empty_cache and now = 0]
    by (intro exI [of _ "update_cache pn empty_cache"])
      (simp add: live_frame_def watched_def watching_def new_live_server_def new_frame_queue_valid
        has_active_sources_def register_source_sources)
qed

lemma serve_run:
  assumes "length (nu_data n) \<le> 2"
  shows "\<exists>w src. live_run serve_acts (watched f n cache) = Some (Inr w) \<and> map dl_nal (sent_on VIDEO_SUB w) = [n]
     \<and> lv_sources w 0 = Some src \<and> ss_currently_awaiting src \<and> ss_stream_type src = VIDEO_SUB
     \<and> lv_unsignalled w = {} \<and> \<not> srv_frame_event (lv_server w) \<and> lv_tasks w = []"
  using assms
  by (simp add: serve_acts_def watched_def watching_def new_live_server_def live_signal_def new_server_def
      handle_frame_trigger_def notify_active_sources_def map_values_def stream_types_def map_filter_simps
      register_source_def new_frame_queue_def notify_by_id_def notify_frame_available_def live_deliver_def
      deliver_frame_def doGetNextFrame_def pop_nal_unit_def copy_out_def new_source_def sent_on_def upd_queue_def Let_def)

section \<open>Properties\<close>


text \<open>
  C7: no client is left waiting beside a filled queue: when the workers have raised their triggers
  and the event loop has nothing left to do, a source that still waits belongs to a stream whose queue is
  empty.
\<close>

theorem clients_no_lost_wakeup:
  assumes "\<And>f. f \<in> set (frames_of xs) \<Longrightarrow> wf_frame f"
    and "live_run xs new_live_server = Some (Inr w)"
    and "lv_sources w s = Some src" and "ss_currently_awaiting src" and "ss_stream_type src \<notin> lv_unsignalled w"
    and "\<not> srv_frame_event (lv_server w)" and "lv_tasks w = []"
  shows "\<exists>q. srv_frame_queues (lv_server w) (ss_stream_type src) = Some q \<and> fq_nals q = []"
proof -
  have inv: "live_inv w" using live_run_keeps [OF new_live_inv assms(1,2)] by auto
  have "fq_nals (queue_at (ss_stream_type src) (lv_server w)) = []"
    using sys_invD(4) [OF live_invD(3) [OF inv, of "ss_stream_type src"], of s src] assms(3-7)
    by (simp add: source_ok_def)
  with live_source(1) [OF inv assms(3)] show ?thesis by (auto simp: queue_at_def)
qed

lemma live_run_append:
  "live_run (xs @ ys) w = (case live_run xs w of Some (Inr w') \<Rightarrow> live_run ys w' | r \<Rightarrow> r)"
  by (induction xs arbitrary: w) (auto split: option.splits sum.splits)

definition sub_frame :: StreamFrame where
  "sub_frame = demo_frame\<lparr>sf_type := VIDEO_SUB, sf_codec := H264\<rparr>"

definition sub_nal :: RtspNalUnit where
  "sub_nal = nal_unit_of 7 (make_nal H264 7 (is_idr sub_frame) [0x26, 0x01])"

lemma sub_frame_nal: "one_nal sub_frame sub_nal"
proof -
  have packs: "frame_packs sub_frame = frame_packs demo_frame" by (simp add: sub_frame_def frame_packs_def)
  have "wf_frame sub_frame" using demo_frame_wf by (simp add: wf_frame_def packs) (simp add: sub_frame_def)
  moreover have "frame_nals H264 7 (is_idr sub_frame) (frame_packs sub_frame)
      = [make_nal H264 7 (is_idr sub_frame) [0x26, 0x01]]"
    by (simp add: frame_nals_def packs demo_frame_packs demo_payloads)
  moreover have "sf_type sub_frame = VIDEO_SUB" "sf_timestamp sub_frame = 7" by (simp_all add: sub_frame_def demo_frame_def)
  ultimately show ?thesis by (simp add: one_nal_def sub_nal_def nal_unit_of_def)
qed

abbreviation sub_acts :: "live_action list" where
  "sub_acts \<equiv> watch_acts @ Frame 0 sub_frame # serve_acts"

lemma sub_acts_run:
  "\<exists>w src. live_run sub_acts new_live_server = Some (Inr w) \<and> map dl_nal (sent_on VIDEO_SUB w) = [sub_nal]
     \<and> lv_sources w 0 = Some src \<and> ss_currently_awaiting src \<and> ss_stream_type src = VIDEO_SUB
     \<and> lv_unsignalled w = {} \<and> \<not> srv_frame_event (lv_server w) \<and> lv_tasks w = []"
proof -
  obtain cache where "live_step (Frame 0 sub_frame) watching = Some (Inr (watched sub_frame sub_nal cache))"
    using frame_run [OF sub_frame_nal] by blast
  then have "live_run sub_acts new_live_server = live_run serve_acts (watched sub_frame sub_nal cache)"
    by (simp add: live_run_append watch_run del: live_step.simps)
  with serve_run [of sub_nal sub_frame cache] sub_frame_nal show ?thesis by (simp add: one_nal_def)
qed

lemma sub_acts_frames: "frames_of sub_acts = [sub_frame]" "f \<in> set (frames_of sub_acts) \<Longrightarrow> wf_frame f"
proof -
  show "frames_of sub_acts = [sub_frame]" by (simp add: frames_of_def watch_acts_def serve_acts_def)
  then show "f \<in> set (frames_of sub_acts) \<Longrightarrow> wf_frame f" using sub_frame_nal by (simp add: one_nal_def)
qed


theorem clients_no_lost_wakeup_witness:
  "\<exists>w q. live_run sub_acts new_live_server = Some (Inr w)
     \<and> srv_frame_queues (lv_server w) VIDEO_SUB = Some q \<and> fq_nals q = []"
proof -
  obtain w src where run: "live_run sub_acts new_live_server = Some (Inr w)"
    and w: "lv_sources w 0 = Some src" "ss_currently_awaiting src"
    "ss_stream_type src = VIDEO_SUB" "lv_unsignalled w = {}" "\<not> srv_frame_event (lv_server w)" "lv_tasks w = []"
    using sub_acts_run by (elim exE conjE) (rule that; assumption)
  from clients_no_lost_wakeup [OF sub_acts_frames(2) run w(1,2)] w(3-6) obtain q where
    "srv_frame_queues (lv_server w) VIDEO_SUB = Some q" "fq_nals q = []" by auto
  with run show ?thesis by blast
qed

end
