(* ===== verification/Client_End_To_End.thy ===== *)
theory Client_End_To_End
  imports Stream_End_To_End Rtsp_Clients
begin

text \<open>
  The server with its clients as a consumer of the pipeline: the third instance of
  \<open>frame_consumer\<close>, which takes the path from the encoder's packs to the buffers of the sinks that
  live555 hands out.
\<close>

section \<open>The server and its clients as a consumer\<close>






section \<open>NAL units of pictures\<close>





section \<open>Property\<close>






end
