(* ===== verification/Test_Writer.thy ===== *)
theory Test_Writer
  imports Stream_End_To_End
begin

text \<open>
  \<open>test/stream/stream_test.cpp\<close>, which \<open>main\<close> calls: the consumer that writes every frame of a stream
  to a file from inside its callback, and what happens on one stream while \<open>stream_test\<close> runs: the
  fetcher, the distributor and the workers act, the main thread unregisters the consumer and then
  closes the file.  \<open>fopen\<close> and \<open>fwrite\<close> answer what they like.
\<close>

section \<open>The writer of a channel\<close>

text \<open>\<open>cw_fp\<close>: the \<open>FILE\<close> pointer is not null.  \<open>cw_file\<close> is the file at the path, as far as it has been written.\<close>

record ChannelWriter =
  cw_fp :: bool
  cw_path :: string
  cw_label :: string
  cw_stream_type :: StreamType
  cw_frame_count :: u64
  cw_bytes_written :: u64
  cw_file :: "u8 list"

definition new_ChannelWriter :: "string \<Rightarrow> string \<Rightarrow> StreamType \<Rightarrow> ChannelWriter" where
  "new_ChannelWriter p lbl st =
     \<lparr>cw_fp = False, cw_path = p, cw_label = lbl, cw_stream_type = st, cw_frame_count = 0, cw_bytes_written = 0,
      cw_file = []\<rparr>"

definition cw_open :: "bool \<Rightarrow> ChannelWriter \<Rightarrow> bool \<times> ChannelWriter" where
  "cw_open fopen_ok w =
     (let w = w\<lparr>cw_fp := fopen_ok\<rparr>
      in if \<not> cw_fp w then (False, w) else (True, w\<lparr>cw_file := []\<rparr>))"

definition cw_close :: "ChannelWriter \<Rightarrow> ChannelWriter" where
  "cw_close w = (if cw_fp w then w\<lparr>cw_fp := False\<rparr> else w)"

text \<open>\<open>fwrite(pk.data, 1, pk.len, fp)\<close> writes and counts at most what is \<open>accepted\<close>.\<close>

definition fwrite :: "nat \<Rightarrow> FramePack \<Rightarrow> ChannelWriter \<Rightarrow> (nat \<times> ChannelWriter) checked" where
  "fwrite accepted pk w =
     (if \<not> cw_fp w then Inl NullDeref
      else if fp_len pk = 0 then Inr (0, w)
      else case fp_data pk of
          None \<Rightarrow> Inl NullDeref
        | Some bytes \<Rightarrow>
            if length bytes < unat (fp_len pk) then Inl OutOfBounds
            else let n = min accepted (unat (fp_len pk))
              in Inr (n, w\<lparr>cw_file := cw_file w @ take n bytes\<rparr>))"

text \<open>The loop of \<open>frame_writer_cb\<close>, from index \<open>i\<close> with \<open>n\<close> iterations left.\<close>

fun write_packs :: "(nat \<Rightarrow> nat) \<Rightarrow> nat \<Rightarrow> nat \<Rightarrow> FramePack list \<Rightarrow> ChannelWriter \<Rightarrow> ChannelWriter checked" where
  "write_packs accepted i 0 packs w = Inr w"
| "write_packs accepted i (Suc n) packs w =
     (if length packs \<le> i then Inl OutOfBounds
      else case fwrite (accepted i) (packs ! i) w of
          Inl e \<Rightarrow> Inl e
        | Inr (written, w) \<Rightarrow>
            write_packs accepted (Suc i) n packs (w\<lparr>cw_bytes_written := cw_bytes_written w + word_of_nat written\<rparr>))"

definition frame_writer_cb :: "(nat \<Rightarrow> nat) \<Rightarrow> StreamFrame \<Rightarrow> ChannelWriter \<Rightarrow> ChannelWriter checked" where
  "frame_writer_cb accepted frame w =
     (case write_packs accepted 0 (unat (fd_pack_count (sf_data frame))) (fd_packs (sf_data frame)) w of
        Inl e \<Rightarrow> Inl e
      | Inr w \<Rightarrow> Inr (w\<lparr>cw_frame_count := cw_frame_count w + 1\<rparr>))"

subsection \<open>What the callback writes\<close>

fun accepted_chunks :: "(nat \<Rightarrow> nat) \<Rightarrow> nat \<Rightarrow> FramePack list \<Rightarrow> u8 list list" where
  "accepted_chunks accepted i [] = []"
| "accepted_chunks accepted i (pk # pks) = take (accepted i) (pack_bytes pk) # accepted_chunks accepted (Suc i) pks"

lemma fwrite_eq:
  "pack_copyable pk \<Longrightarrow> cw_fp w \<Longrightarrow>
     fwrite n pk w = (let chunk = take n (pack_bytes pk) in Inr (length chunk, w\<lparr>cw_file := cw_file w @ chunk\<rparr>))"
  by (auto simp: fwrite_def pack_copyable_def pack_bytes_def Let_def min.commute split: option.splits)

lemma write_packs_eq:
  "i + n \<le> length packs \<Longrightarrow> list_all pack_copyable (take n (drop i packs)) \<Longrightarrow> cw_fp w \<Longrightarrow>
     write_packs accepted i n packs w =
       (let bytes = concat (accepted_chunks accepted i (take n (drop i packs)))
        in Inr (w\<lparr>cw_bytes_written := cw_bytes_written w + word_of_nat (length bytes), cw_file := cw_file w @ bytes\<rparr>))"
proof (induction n arbitrary: i w)
  case (Suc n)
  have split: "take (Suc n) (drop i packs) = packs ! i # take n (drop (Suc i) packs)"
    using Suc.prems(1) by (simp add: drop_nth_Cons)
  have ok: "pack_copyable (packs ! i)" "list_all pack_copyable (take n (drop (Suc i) packs))"
    using Suc.prems(2) by (simp_all add: split)
  show ?case
    using Suc.prems(1,3) ok by (simp add: split fwrite_eq Suc.IH Let_def add.assoc)
qed simp

lemma chunks_prefix: "list_all2 prefix (accepted_chunks accepted i pks) (map pack_bytes pks)"
  by (induction pks arbitrary: i) (simp_all add: take_is_prefix)

lemma chunks_whole:
  "(\<And>i. 2 ^ 32 \<le> accepted i) \<Longrightarrow> accepted_chunks accepted i pks = map pack_bytes pks"
proof (induction pks arbitrary: i)
  case (Cons pk pks)
  have "length (pack_bytes pk) \<le> unat (fp_len pk)" by (auto simp: pack_bytes_def split: option.split)
  also have "\<dots> \<le> 2 ^ 32" by (rule less_imp_le, rule order.strict_trans2 [OF unsigned_less]) simp
  also have "\<dots> \<le> accepted i" by (rule Cons.prems)
  finally show ?case using Cons by simp
qed simp

lemma frame_writer_cb_eq:
  assumes "good_frame f" and "cw_fp w"
  shows "frame_writer_cb accepted f w =
    (let bytes = concat (accepted_chunks accepted 0 (frame_packs f))
     in Inr (w\<lparr>cw_frame_count := cw_frame_count w + 1,
               cw_bytes_written := cw_bytes_written w + word_of_nat (length bytes), cw_file := cw_file w @ bytes\<rparr>))"
proof -
  have "unat (fd_pack_count (sf_data f)) \<le> length (fd_packs (sf_data f))" "list_all pack_copyable (frame_packs f)"
    using assms(1) by (simp_all add: good_frame_def wf_frame_def)
  with assms(2) show ?thesis
    by (simp add: frame_writer_cb_def write_packs_eq frame_packs_def Let_def)
qed

section \<open>The writer as a consumer\<close>

text \<open>
  The slot at address \<open>w\<close> has the writer's callback, other slots those of other consumers.  \<open>answer now i\<close>
  is how many bytes \<open>fwrite\<close> accepts of pack \<open>i\<close> in the callback made at time \<open>now\<close>.  The writer has no
  thread of its own.
\<close>

definition writer_cb ::
  "nat \<Rightarrow> (int \<Rightarrow> nat \<Rightarrow> nat) \<Rightarrow> nat \<Rightarrow> int \<Rightarrow> StreamFrame \<Rightarrow> ChannelWriter \<Rightarrow> (bool \<times> ChannelWriter) checked option" where
  "writer_cb w answer a now f c =
     (if a = w then Some (map_sum id (\<lambda>c. (False, c)) (frame_writer_cb (answer now) f c)) else Some (Inr (False, c)))"

definition no_thread :: "unit \<Rightarrow> ChannelWriter \<Rightarrow> ChannelWriter checked option" where
  "no_thread x c = None"

definition disk_ok :: "(int \<Rightarrow> nat \<Rightarrow> nat) \<Rightarrow> bool" where
  "disk_ok answer \<longleftrightarrow> (\<forall>now i. 2 ^ 32 \<le> answer now i)"

text \<open>What the callbacks on the frames \<open>fs\<close> have written: of every pack a prefix, or all of it.\<close>

definition wrote :: "(int \<Rightarrow> nat \<Rightarrow> nat) \<Rightarrow> StreamFrame list \<Rightarrow> ChannelWriter \<Rightarrow> bool" where
  "wrote answer fs c \<longleftrightarrow>
     (\<exists>chunks. list_all2 prefix chunks (concat (map frame_payloads fs)) \<and> cw_file c = concat chunks
        \<and> (disk_ok answer \<longrightarrow> chunks = concat (map frame_payloads fs)))
   \<and> cw_frame_count c = word_of_nat (length fs) \<and> cw_bytes_written c = word_of_nat (length (cw_file c))"

lemma wrote_callback:
  assumes c: "wrote answer fs c" "cw_fp c" and f: "good_frame f"
  shows "\<exists>c'. frame_writer_cb (answer now) f c = Inr c' \<and> wrote answer (fs @ [f]) c' \<and> cw_fp c'"
proof -
  let ?new = "accepted_chunks (answer now) 0 (frame_packs f)"
  let ?c = "c\<lparr>cw_frame_count := cw_frame_count c + 1,
      cw_bytes_written := cw_bytes_written c + word_of_nat (length (concat ?new)), cw_file := cw_file c @ concat ?new\<rparr>"
  from c(1) obtain chunks where chunks: "list_all2 prefix chunks (concat (map frame_payloads fs))"
    "cw_file c = concat chunks" "disk_ok answer \<longrightarrow> chunks = concat (map frame_payloads fs)"
    unfolding wrote_def by blast
  have "list_all2 prefix (chunks @ ?new) (concat (map frame_payloads (fs @ [f])))"
    using chunks(1) chunks_prefix [of "answer now" 0 "frame_packs f"]
    by (simp add: frame_payloads_def list_all2_appendI)
  moreover have "disk_ok answer \<longrightarrow> chunks @ ?new = concat (map frame_payloads (fs @ [f]))"
    using chunks(3) chunks_whole [of "answer now" 0 "frame_packs f"] by (simp add: frame_payloads_def disk_ok_def)
  ultimately have "\<exists>cs. list_all2 prefix cs (concat (map frame_payloads (fs @ [f]))) \<and> cw_file ?c = concat cs
      \<and> (disk_ok answer \<longrightarrow> cs = concat (map frame_payloads (fs @ [f])))"
    using chunks(2) by (intro exI [of _ "chunks @ ?new"]) simp
  moreover have "cw_frame_count ?c = word_of_nat (length (fs @ [f]))" "cw_bytes_written ?c = word_of_nat (length (cw_file ?c))"
    using c(1) by (simp_all add: wrote_def)
  ultimately have "wrote answer (fs @ [f]) ?c" unfolding wrote_def by blast
  with frame_writer_cb_eq [OF f c(2), of "answer now"] c(2) show ?thesis by (simp add: Let_def)
qed

definition writer_good :: "nat \<Rightarrow> (int \<Rightarrow> nat \<Rightarrow> nat) \<Rightarrow> (nat \<times> StreamFrame) list \<Rightarrow> ChannelWriter \<Rightarrow> bool" where
  "writer_good w answer h c \<longleftrightarrow> wrote answer (calls_at w h) c \<and> cw_fp c"

interpretation test_writer: frame_consumer "writer_cb w answer" no_thread "writer_good w answer" for w answer
proof unfold_locales
  fix h c f a now r assume *: "writer_good w answer h c" "good_frame f" "writer_cb w answer a now f c = Some r"
  show "\<exists>threw c'. r = Inr (threw, c') \<and> writer_good w answer (h @ [(a, f)]) c'"
  proof (cases "a = w")
    case True
    from * wrote_callback [of answer "calls_at w h" c f now] obtain c' where
      "frame_writer_cb (answer now) f c = Inr c'" "wrote answer (calls_at w h @ [f]) c'" "cw_fp c'"
      by (auto simp: writer_good_def)
    with * True show ?thesis by (auto simp: writer_cb_def writer_good_def)
  next
    case False
    with * show ?thesis by (auto simp: writer_cb_def writer_good_def)
  qed
qed (simp add: no_thread_def)

text \<open>Once the file is closed, the callback must not run any more: \<open>closed_cb\<close> has none at \<open>w\<close>.\<close>

definition closed_cb :: "nat \<Rightarrow> nat \<Rightarrow> int \<Rightarrow> StreamFrame \<Rightarrow> ChannelWriter \<Rightarrow> (bool \<times> ChannelWriter) checked option" where
  "closed_cb w a now f c = (if a = w then None else Some (Inr (False, c)))"

definition closed_good :: "nat \<Rightarrow> (int \<Rightarrow> nat \<Rightarrow> nat) \<Rightarrow> (nat \<times> StreamFrame) list \<Rightarrow> ChannelWriter \<Rightarrow> bool" where
  "closed_good w answer h c \<longleftrightarrow> wrote answer (calls_at w h) c \<and> \<not> cw_fp c"

interpretation closed_writer: frame_consumer "closed_cb w" no_thread "closed_good w answer" for w answer
  by unfold_locales (auto simp: closed_cb_def closed_good_def no_thread_def split: if_splits)

lemma sys_step_closed:
  assumes "sl_worker (d_heap (ss_dist y) ! w) = WDone"
  shows "sys_step (writer_cb w answer) no_thread x y = sys_step (closed_cb w) no_thread x y"
  using assms
  by (cases x) (auto simp: callback_step_def writer_cb_def closed_cb_def split: worker.split)

lemma cw_close_good: "writer_good w answer h c \<Longrightarrow> closed_good w answer h (cw_close c)"
  by (simp add: writer_good_def closed_good_def cw_close_def wrote_def)

section \<open>One stream during the test\<close>

text \<open>
  Between its registration and the end of the test the consumer of one stream goes through these
  phases.  \<open>ts_slot\<close> is the address of its slot in the distributor and \<open>ts_cid\<close> its id.
\<close>

datatype test_phase = Recording | Unregistering | Closed

record test_stream =
  ts_sys :: "ChannelWriter stream_sys"
  ts_slot :: nat
  ts_cid :: u32
  ts_phase :: test_phase

datatype test_action = Thread "unit sys_action" | UnregisterWriter | CloseWriter

text \<open>
  The threads that run during the test: the fetcher's, the workers, and the main thread inside
  \<open>unregister_consumer\<close>.  Only the main thread registers and removes consumers, starts and stops
  fetchers, and it is in \<open>stream_test\<close>.
\<close>

fun main_only :: "'f action \<Rightarrow> bool" where
  "main_only (AddConsumer config) = True"
| "main_only (RemoveConsumer t cid) = True"
| "main_only (Destroy t) = True"
| "main_only _ = False"

fun test_thread :: "unit sys_action \<Rightarrow> bool" where
  "test_thread (FetcherStart fd) = False"
| "test_thread FetcherStop = False"
| "test_thread (FetcherTurn ret env frame t0 now) = True"
| "test_thread (DistAct x) = (\<not> main_only x)"
| "test_thread (Callback a now) = True"
| "test_thread (ConsumerAct x) = True"

text \<open>The main thread is thread 0 of \<open>unregister_consumer\<close>; it closes the file when the call has returned.\<close>

fun test_step :: "(int \<Rightarrow> nat \<Rightarrow> nat) \<Rightarrow> test_action \<Rightarrow> test_stream \<Rightarrow> test_stream checked option" where
  "test_step answer (Thread x) s =
     (if test_thread x
      then map_option (map_sum id (\<lambda>y. s\<lparr>ts_sys := y\<rparr>)) (sys_step (writer_cb (ts_slot s) answer) no_thread x (ts_sys s))
      else None)"
| "test_step answer UnregisterWriter s =
     (if ts_phase s = Recording
      then Some (Inr (s\<lparr>ts_sys := (ts_sys s)\<lparr>ss_dist := remove_consumer 0 (ts_cid s) (ss_dist (ts_sys s))\<rparr>,
                        ts_phase := Unregistering\<rparr>))
      else None)"
| "test_step answer CloseWriter s =
     (if ts_phase s = Unregistering \<and> d_shut (ss_dist (ts_sys s)) 0 = None
      then Some (Inr (s\<lparr>ts_sys := (ts_sys s)\<lparr>ss_consumers := cw_close (ss_consumers (ts_sys s))\<rparr>, ts_phase := Closed\<rparr>))
      else None)"

fun test_run :: "(int \<Rightarrow> nat \<Rightarrow> nat) \<Rightarrow> test_action list \<Rightarrow> test_stream \<Rightarrow> test_stream checked option" where
  "test_run answer [] s = Some (Inr s)"
| "test_run answer (x # xs) s =
     (case test_step answer x s of
        None \<Rightarrow> None
      | Some (Inl e) \<Rightarrow> Some (Inl e)
      | Some (Inr s') \<Rightarrow> test_run answer xs s')"

fun test_act_ok :: "test_action \<Rightarrow> bool" where
  "test_act_ok (Thread x) = act_ok x"
| "test_act_ok _ = True"

fun thread_act :: "test_action \<Rightarrow> unit sys_action list" where
  "thread_act (Thread x) = [x]"
| "thread_act _ = []"

definition test_pictures :: "test_action list \<Rightarrow> u8 list list list" where
  "test_pictures xs = pictures (concat (map thread_act xs))"

subsection \<open>The distributor during the test\<close>

text \<open>What the distributor does in a step of the threads.\<close>

lemma thread_step_dist:
  assumes "test_thread x" and "sys_step cb no_thread x y = Some (Inr y')"
  shows "ss_dist y' = ss_dist y \<or> (\<exists>z. \<not> main_only z \<and> dist_step z (ss_dist y) = Some (ss_dist y'))"
proof (cases x)
  case (FetcherTurn ret env frame t0 now)
  with assms(2) have "ss_dist y' = ss_dist y \<or> (\<exists>sf. d_push (ss_dist y) 0 = None \<and> ss_dist y' = push_begin 0 sf (ss_dist y))"
    by (auto simp: fetcher_turn_step_def split: if_splits sum.splits prod.splits option.splits)
  then show ?thesis by (metis main_only.simps(5) dist_step.simps(5))
next
  case (DistAct z)
  with assms show ?thesis by (auto split: if_splits)
next
  case (Callback a now)
  with assms(2) obtain threw where "dist_step (CallbackEnd a threw) (ss_dist y) = Some (ss_dist y')"
    by (auto simp: callback_step_def simp del: dist_step.simps
        split: if_splits worker.splits sum.splits prod.splits option.splits)
  then show ?thesis by (metis main_only.simps(8))
next
  case (ConsumerAct z)
  with assms(2) show ?thesis by (simp add: no_thread_def)
qed (use assms in auto)

lemma quiet_step:
  assumes "dist_step z d = Some d'" and "\<not> main_only z"
  shows "length (d_heap d') = length (d_heap d)" and "d_slots d' = d_slots d"
    and "d_shut d t = None \<Longrightarrow> d_shut d' t = None"
  using assms
  by (cases z; auto simp: push_begin_def shut_step_def push_step_def
      split: option.splits shutdown.splits pusher.splits list.splits if_splits)+

text \<open>The main thread removes the slot \<open>w\<close>, or has removed it and its worker has ended.\<close>

definition removing :: "nat \<Rightarrow> 'f dist \<Rightarrow> bool" where
  "removing w d \<longleftrightarrow>
     (case d_shut d 0 of
        None \<Rightarrow> sl_worker (d_heap d ! w) = WDone
      | Some h \<Rightarrow> h \<in> {ShStore w [] True, ShNotify w [] True, ShJoin w [] True}
          \<or> h = ShClear w \<and> sl_worker (d_heap d ! w) = WDone)"

lemma done_kept:
  assumes "addrs_ok d" and "dist_step z d = Some d'" and "\<not> main_only z"
    and "sl_worker (d_heap d ! w) = WDone"
  shows "sl_worker (d_heap d' ! w) = WDone"
proof -
  have "slot_step (d_heap d ! w) (d_heap d' ! w)"
    by (rule heap_step_slot [OF assms(1,2)]) (use assms(3) in auto)
  then show ?thesis using assms(4) by (rule slot_step_done)
qed

lemma removing_step:
  assumes rem: "removing w d" and ok: "addrs_ok d" and step: "dist_step z d = Some d'" and z: "\<not> main_only z"
  shows "removing w d'"
proof (cases "z = ShutStep 0")
  case True
  with rem step show ?thesis
    by (cases "w < length (d_heap d)")
      (auto simp: removing_def shut_step_def upd_slot_def not_less list_update_beyond
         split: option.splits shutdown.splits if_splits)
next
  case False
  have "d_shut d' 0 = d_shut d 0"
    using step z False
    by (cases z) (auto simp: push_begin_def shut_step_def push_step_def
      split: option.splits shutdown.splits pusher.splits list.splits if_splits)
  with rem done_kept [OF ok step z, of w] show ?thesis by (auto simp: removing_def split: option.splits)
qed

lemma remove_consumer_starts:
  assumes ids: "ids_ok d" and addrs: "addrs_ok d" and w: "w \<in> set (d_slots d)" "cid = word_of_nat w"
    and bound: "length (d_heap d) < 2 ^ 32"
  shows "remove_consumer t cid d =
    d\<lparr>d_slots := remove1 w (d_slots d), d_shut := (d_shut d)(t \<mapsto> ShStore w [] True)\<rparr>"
proof -
  have "a = w" if "a \<in> set (d_slots d)" "sl_consumer_id (d_heap d ! a) = cid" for a
  proof -
    have a: "a < length (d_heap d)" "w < length (d_heap d)" using that(1) w(1) addrs by (auto simp: addrs_ok_def)
    with ids that(2) w(2) have "(word_of_nat a :: u32) = word_of_nat w" by (simp add: ids_ok_def)
    then have "a mod 2 ^ 32 = w mod 2 ^ 32" by (simp add: word_of_nat_eq_iff take_bit_eq_mod)
    with a bound show ?thesis by simp
  qed
  moreover have "w < length (d_heap d)" using w(1) addrs by (auto simp: addrs_ok_def)
  then have "\<exists>a\<in>set (d_slots d). sl_consumer_id (d_heap d ! a) = cid"
    using w ids unfolding ids_ok_def by blast
  then obtain a where "find (\<lambda>a. sl_consumer_id (d_heap d ! a) = cid) (d_slots d) = Some a"
    by (cases "find (\<lambda>a. sl_consumer_id (d_heap d ! a) = cid) (d_slots d)") (auto simp: find_None_iff)
  moreover from this have "a \<in> set (d_slots d)" "sl_consumer_id (d_heap d ! a) = cid"
    by (auto simp: find_Some_iff)
  ultimately show ?thesis by (simp add: remove_consumer_def)
qed

subsection \<open>Invariant\<close>

definition phase_inv :: "VencChannel \<times> StreamType \<times> CodecType \<Rightarrow> (int \<Rightarrow> nat \<Rightarrow> nat) \<Rightarrow> test_stream \<Rightarrow> bool" where
  "phase_inv ids answer s \<longleftrightarrow>
     (let d = ss_dist (ts_sys s); w = ts_slot s
      in case ts_phase s of
           Recording \<Rightarrow> stream_inv ids (writer_good w answer) (ts_sys s) \<and> d_shut d 0 = None
         | Unregistering \<Rightarrow> stream_inv ids (writer_good w answer) (ts_sys s) \<and> removing w d
         | Closed \<Rightarrow> stream_inv ids (closed_good w answer) (ts_sys s) \<and> d_shut d 0 = None
             \<and> sl_worker (d_heap d ! w) = WDone)"

text \<open>\<open>old\<close>: the consumers that were there before.\<close>

definition test_inv :: "VencChannel \<times> StreamType \<times> CodecType \<Rightarrow> (int \<Rightarrow> nat \<Rightarrow> nat) \<Rightarrow> nat list \<Rightarrow> test_stream \<Rightarrow> bool" where
  "test_inv ids answer old s \<longleftrightarrow>
     phase_inv ids answer s \<and> ft_running (ss_fetcher (ts_sys s))
   \<and> length (d_heap (ss_dist (ts_sys s))) < 2 ^ 32 \<and> ts_cid s = word_of_nat (ts_slot s) \<and> ts_slot s \<notin> set old
   \<and> d_slots (ss_dist (ts_sys s)) = old @ (if ts_phase s = Recording then [ts_slot s] else [])"

lemma phase_inv_base: "phase_inv ids answer s \<Longrightarrow> sys_base (ts_sys s)"
  by (auto simp: phase_inv_def stream_inv_def Let_def split: test_phase.splits)

lemma sys_base_addrs: "sys_base y \<Longrightarrow> addrs_ok (ss_dist y) \<and> ids_ok (ss_dist y)"
  using dist_reachable_inv [of "ss_dist y"] by (simp add: sys_base_def dist_inv_def)

lemma thread_step_keeps:
  assumes inv: "phase_inv ids answer s" and ok: "act_ok x"
    and r: "sys_step (writer_cb (ts_slot s) answer) no_thread x (ts_sys s) = Some r"
  obtains y good where "r = Inr y" "stream_inv ids (good (ts_slot s) answer) y"
    "good = (if ts_phase s = Closed then closed_good else writer_good)"
    "map frame_payloads (ss_fetched y) = map frame_payloads (ss_fetched (ts_sys s)) @ pictures [x]"
proof (cases "ts_phase s = Closed")
  case True
  with inv have closed: "stream_inv ids (closed_good (ts_slot s) answer) (ts_sys s)"
    and "sl_worker (d_heap (ss_dist (ts_sys s)) ! ts_slot s) = WDone" by (simp_all add: phase_inv_def Let_def)
  with r have "sys_step (closed_cb (ts_slot s)) no_thread x (ts_sys s) = Some r" by (simp add: sys_step_closed)
  from closed_writer.sys_step_keeps [OF closed ok this] True that show thesis by auto
next
  case False
  with inv have "stream_inv ids (writer_good (ts_slot s) answer) (ts_sys s)"
    by (cases "ts_phase s") (simp_all add: phase_inv_def Let_def)
  from test_writer.sys_step_keeps [OF this ok r] False that show thesis by auto
qed

lemma phase_inv_thread:
  assumes inv: "phase_inv ids answer s" and ok: "act_ok x" and x: "test_thread x"
    and r: "sys_step (writer_cb (ts_slot s) answer) no_thread x (ts_sys s) = Some (Inr y)"
  shows "phase_inv ids answer (s\<lparr>ts_sys := y\<rparr>)"
    and "length (d_heap (ss_dist y)) = length (d_heap (ss_dist (ts_sys s)))"
proof -
  let ?d = "ss_dist (ts_sys s)" and ?w = "ts_slot s"
  from inv ok r obtain good where good: "stream_inv ids (good ?w answer) y"
    "good = (if ts_phase s = Closed then closed_good else writer_good)"
    by (rule thread_step_keeps) auto
  have addrs: "addrs_ok ?d" using sys_base_addrs [OF phase_inv_base [OF inv]] by simp
  from thread_step_dist [OF x r] show "length (d_heap (ss_dist y)) = length (d_heap ?d)"
    using quiet_step(1) by auto
  from thread_step_dist [OF x r] show "phase_inv ids answer (s\<lparr>ts_sys := y\<rparr>)"
  proof
    assume "ss_dist y = ?d"
    with inv good show ?thesis by (cases "ts_phase s") (simp_all add: phase_inv_def Let_def)
  next
    assume "\<exists>z. \<not> main_only z \<and> dist_step z ?d = Some (ss_dist y)"
    then obtain z where z: "dist_step z ?d = Some (ss_dist y)" "\<not> main_only z" by blast
    note kept = quiet_step [OF z] done_kept [OF addrs z, of ?w] removing_step [OF _ addrs z, of ?w]
    from inv good kept show ?thesis by (cases "ts_phase s") (simp_all add: phase_inv_def Let_def)
  qed
qed

text \<open>A turn of the fetcher does not end it.\<close>

lemma run_turn_running: "run_turn ret env frame t0 now f = Inr (r, f', calls) \<Longrightarrow> ft_running f' = ft_running f"
  by (auto simp: run_turn_def fetchFrame_def releaseFrame_def Let_def split: if_splits sum.splits prod.splits)

lemma thread_step_running:
  assumes "test_thread x" and "sys_step cb no_thread x y = Some (Inr y')"
  shows "ft_running (ss_fetcher y') = ft_running (ss_fetcher y)"
proof (cases x)
  case (FetcherTurn ret env frame t0 now)
  with assms(2) show ?thesis
    by (auto simp: fetcher_turn_step_def dest: run_turn_running split: if_splits sum.splits prod.splits option.splits)
next
  case (Callback a now)
  with assms(2) show ?thesis
    by (auto simp: callback_step_def simp del: dist_step.simps
        split: if_splits worker.splits sum.splits prod.splits option.splits)
qed (use assms in \<open>auto simp: no_thread_def split: if_splits\<close>)

lemma unregister_keeps:
  assumes inv: "test_inv ids answer old s" and phase: "ts_phase s = Recording"
  shows "test_inv ids answer old (s\<lparr>ts_sys := (ts_sys s)\<lparr>ss_dist := remove_consumer 0 (ts_cid s) (ss_dist (ts_sys s))\<rparr>,
    ts_phase := Unregistering\<rparr>)"
proof -
  let ?d = "ss_dist (ts_sys s)" and ?w = "ts_slot s"
  have stream: "stream_inv ids (writer_good ?w answer) (ts_sys s)" and shut: "d_shut ?d 0 = None"
    and slots: "d_slots ?d = old @ [?w]" "?w \<notin> set old" and cid: "ts_cid s = word_of_nat ?w"
    and bound: "length (d_heap ?d) < 2 ^ 32"
    using inv phase by (simp_all add: test_inv_def phase_inv_def Let_def)
  have ok: "ids_ok ?d" "addrs_ok ?d" using sys_base_addrs [of "ts_sys s"] stream by (simp_all add: stream_inv_def)
  have removed: "remove_consumer 0 (ts_cid s) ?d = ?d\<lparr>d_slots := old, d_shut := (d_shut ?d)(0 \<mapsto> ShStore ?w [] True)\<rparr>"
    using remove_consumer_starts [OF ok _ cid bound] slots by (simp add: remove1_append)
  have "sys_base ((ts_sys s)\<lparr>ss_dist := remove_consumer 0 (ts_cid s) ?d\<rparr>)"
    by (rule sys_base_dist [where x = "RemoveConsumer 0 (ts_cid s)"]) (use stream shut in \<open>simp_all add: stream_inv_def\<close>)
  then have "stream_inv ids (writer_good ?w answer) ((ts_sys s)\<lparr>ss_dist := remove_consumer 0 (ts_cid s) ?d\<rparr>)"
    using stream by (simp add: stream_inv_def)
  with inv show ?thesis by (simp add: test_inv_def phase_inv_def Let_def removed [unfolded cid] removing_def)
qed

lemma test_step_keeps:
  assumes inv: "test_inv ids answer old s" and ok: "test_act_ok x" and r: "test_step answer x s = Some r"
  shows "\<exists>s'. r = Inr s' \<and> test_inv ids answer old s'
    \<and> map frame_payloads (ss_fetched (ts_sys s'))
        = map frame_payloads (ss_fetched (ts_sys s)) @ pictures (thread_act x)"
proof (cases x)
  case (Thread z)
  with r obtain ry where z: "test_thread z" "sys_step (writer_cb (ts_slot s) answer) no_thread z (ts_sys s) = Some ry"
    "r = map_sum id (\<lambda>y. s\<lparr>ts_sys := y\<rparr>) ry"
    by (auto split: if_splits)
  have phase: "phase_inv ids answer s" and z_ok: "act_ok z" using inv ok Thread by (simp_all add: test_inv_def)
  from thread_step_keeps [OF phase z_ok z(2)] obtain y where y: "ry = Inr y"
    "map frame_payloads (ss_fetched y) = map frame_payloads (ss_fetched (ts_sys s)) @ pictures [z]"
    by blast
  note step = z(2) [unfolded y(1)]
  have "d_slots (ss_dist y) = d_slots (ss_dist (ts_sys s))"
    using thread_step_dist [OF z(1) step] quiet_step(2) by auto
  with inv phase_inv_thread [OF phase z_ok z(1) step] thread_step_running [OF z(1) step]
  have "test_inv ids answer old (s\<lparr>ts_sys := y\<rparr>)" by (simp add: test_inv_def)
  with y z(3) Thread show ?thesis by simp
next
  case UnregisterWriter
  with r unregister_keeps [OF inv] show ?thesis by (auto split: if_splits)
next
  case CloseWriter
  with r have s: "ts_phase s = Unregistering" "d_shut (ss_dist (ts_sys s)) 0 = None"
    "r = Inr (s\<lparr>ts_sys := (ts_sys s)\<lparr>ss_consumers := cw_close (ss_consumers (ts_sys s))\<rparr>, ts_phase := Closed\<rparr>)"
    by (auto split: if_splits)
  with inv CloseWriter show ?thesis
    by (simp add: test_inv_def phase_inv_def Let_def stream_inv_def removing_def cw_close_good)
qed

lemma test_run_keeps:
  "test_inv ids answer old s \<Longrightarrow> (\<And>x. x \<in> set xs \<Longrightarrow> test_act_ok x) \<Longrightarrow> test_run answer xs s = Some r \<Longrightarrow>
     \<exists>s'. r = Inr s' \<and> test_inv ids answer old s'
       \<and> map frame_payloads (ss_fetched (ts_sys s')) = map frame_payloads (ss_fetched (ts_sys s)) @ test_pictures xs"
proof (induction xs arbitrary: s)
  case Nil
  then show ?case by (auto simp: test_pictures_def)
next
  case (Cons x xs)
  from Cons.prems(3) obtain r1 where r1: "test_step answer x s = Some r1" by (auto split: option.splits)
  have "test_act_ok x" using Cons.prems(2) by simp
  from test_step_keeps [OF Cons.prems(1) this r1] obtain s1 where s1: "r1 = Inr s1" "test_inv ids answer old s1"
    "map frame_payloads (ss_fetched (ts_sys s1)) = map frame_payloads (ss_fetched (ts_sys s)) @ pictures (thread_act x)"
    by blast
  have "test_run answer xs s1 = Some r" using Cons.prems(3) r1 s1(1) by simp
  from Cons.IH [OF s1(2) _ this] Cons.prems(2) obtain s' where "r = Inr s'" "test_inv ids answer old s'"
    "map frame_payloads (ss_fetched (ts_sys s')) = map frame_payloads (ss_fetched (ts_sys s1)) @ test_pictures xs" by auto
  moreover have "pictures (as @ bs) = pictures as @ pictures bs" for as bs :: "unit sys_action list"
    by (induction as) simp_all
  ultimately show ?case using s1(3) by (simp add: test_pictures_def)
qed

subsection \<open>The registered consumer\<close>

text \<open>
  The stream at the beginning: the fetcher's thread has got its file descriptor, and the writer's slot
  is the last one.  The consumers that were there before have got nothing yet.
\<close>

definition test_stream_begin :: "int \<Rightarrow> u32 \<Rightarrow> StreamFetcher \<Rightarrow> StreamFrame dist \<Rightarrow> ChannelWriter \<Rightarrow> test_stream" where
  "test_stream_begin fd cid f d c =
     \<lparr>ts_sys = \<lparr>ss_fetcher = run_begin fd f, ss_dist = d, ss_consumers = c, ss_fetched = [], ss_calls = []\<rparr>,
      ts_slot = last (d_slots d), ts_cid = cid, ts_phase = Recording\<rparr>"

definition idle_dist :: "'f dist \<Rightarrow> bool" where
  "idle_dist d \<longleftrightarrow> dist_reachable d \<and> d_push d = Map.empty \<and> d_shut d = Map.empty \<and> length (d_heap d) < 2 ^ 31
     \<and> (\<forall>a < length (d_heap d). sl_pushed (d_heap d ! a) = [] \<and> sl_taken (d_heap d ! a) = []
          \<and> busy_frame (sl_worker (d_heap d ! a)) = [])"

lemma idle_dist_add:
  assumes idle: "idle_dist d" and add: "add_consumer config d = (cid, d')"
  shows "dist_reachable d'" and "d_push d' = Map.empty" and "d_shut d' = Map.empty" and "length (d_heap d') < 2 ^ 32"
    and "\<And>a. a < length (d_heap d') \<Longrightarrow> sl_pushed (d_heap d' ! a) = [] \<and> sl_taken (d_heap d' ! a) = []
          \<and> busy_frame (sl_worker (d_heap d' ! a)) = []"
    and "cid = word_of_nat (last (d_slots d'))" and "d_slots d' = d_slots d @ [last (d_slots d')]"
    and "last (d_slots d') \<notin> set (d_slots d)"
proof -
  have d: "dist_reachable d" "length (d_heap d) < 2 ^ 31" using idle by (simp_all add: idle_dist_def)
  then have inv: "ids_ok d" "addrs_ok d" using dist_reachable_inv by (auto simp: dist_inv_def)
  show "dist_reachable d'" by (rule dist_next [OF d(1), of "AddConsumer config"]) (simp add: add)
  show "d_push d' = Map.empty" "d_shut d' = Map.empty" "length (d_heap d') < 2 ^ 32"
    "\<And>a. a < length (d_heap d') \<Longrightarrow> sl_pushed (d_heap d' ! a) = [] \<and> sl_taken (d_heap d' ! a) = []
          \<and> busy_frame (sl_worker (d_heap d' ! a)) = []"
    using add idle d(2) by (auto simp: add_consumer_def idle_dist_def Let_def nth_append)
  show "cid = word_of_nat (last (d_slots d'))" "d_slots d' = d_slots d @ [last (d_slots d')]"
    "last (d_slots d') \<notin> set (d_slots d)"
    using add inv by (auto simp: add_consumer_def Let_def ids_ok_def addrs_ok_def)
qed

lemma test_stream_begin_inv:
  assumes idle: "idle_dist d" and add: "add_consumer config d = (cid, d')"
    and f: "fetcher_ready f" "ft_running f" and "0 \<le> fd" and c: "cw_fp c" "wrote answer [] c"
  shows "test_inv (fetcher_ids f) answer (d_slots d) (test_stream_begin fd cid f d' c)"
proof -
  note d' = idle_dist_add [OF idle add]
  let ?y = "ts_sys (test_stream_begin fd cid f d' c)"
  have "sys_base ?y"
    using d'(1,2,5)
    by (simp add: test_stream_begin_def sys_base_def one_pusher_def sys_order_def arrived_def calls_of_def)
  then have "stream_inv (fetcher_ids f) (writer_good w answer) ?y" for w
    using f \<open>0 \<le> fd\<close> c
    by (simp add: stream_inv_def) (simp add: test_stream_begin_def run_begin_def writer_good_def fetcher_ready_def fetcher_ids_def)
  with d' f \<open>0 \<le> fd\<close> show ?thesis
    by (simp add: test_inv_def phase_inv_def Let_def) (simp add: test_stream_begin_def run_begin_def)
qed

text \<open>The file, whatever happened.\<close>

lemma test_inv_file:
  assumes "test_inv ids answer old s" and "map frame_payloads (ss_fetched (ts_sys s)) = pics"
  shows "\<exists>fs. subseq (map frame_payloads fs) pics \<and> wrote answer fs (ss_consumers (ts_sys s))"
    and "cw_fp (ss_consumers (ts_sys s)) \<longleftrightarrow> ts_phase s \<noteq> Closed"
proof -
  let ?c = "ss_consumers (ts_sys s)"
  have wrote: "wrote answer (calls_of (ts_slot s) (ts_sys s)) ?c" and fp: "cw_fp ?c \<longleftrightarrow> ts_phase s \<noteq> Closed"
    using assms(1) unfolding test_inv_def
    by (cases "ts_phase s"; simp add: phase_inv_def stream_inv_def writer_good_def closed_good_def calls_of_def Let_def)+
  show "cw_fp ?c \<longleftrightarrow> ts_phase s \<noteq> Closed" by (rule fp)
  have "subseq (calls_of (ts_slot s) (ts_sys s)) (ss_fetched (ts_sys s))"
    by (rule sys_base_calls, rule phase_inv_base [of ids answer]) (use assms(1) in \<open>simp add: test_inv_def\<close>)
  from subseq_map [OF this, of frame_payloads] wrote assms(2)
  show "\<exists>fs. subseq (map frame_payloads fs) pics \<and> wrote answer fs ?c" by blast
qed

subsection \<open>A schedule in which the test ends\<close>

text \<open>The worker of the writer sees the flag before it looks at its queue, and ends.\<close>

definition quick_test :: "nat \<Rightarrow> test_action list" where
  "quick_test w =
     [UnregisterWriter, Thread (DistAct (ShutStep 0)), Thread (DistAct (WorkerStep w)), Thread (DistAct (ShutStep 0)),
      Thread (DistAct (ShutStep 0)), Thread (DistAct (ShutStep 0)), CloseWriter]"

lemma quick_test_ok: "x \<in> set (quick_test w) \<Longrightarrow> test_act_ok x"
  by (auto simp: quick_test_def)

text \<open>The distributor afterwards.\<close>

definition ended :: "'f dist \<Rightarrow> 'f dist" where
  "ended d = d\<lparr>d_heap := butlast (d_heap d) @ [slot_clear ((last (d_heap d))\<lparr>sl_running := False, sl_worker := WDone\<rparr>)],
     d_slots := butlast (d_slots d), d_shut := (d_shut d)(0 := None)\<rparr>"

lemma quick_test_run:
  assumes d: "d_heap d = heap @ [sl]" "sl_worker sl = WLoop" "d_slots d = slots @ [w]" "w = length heap" "w \<notin> set slots"
    and ok: "ids_ok d" "addrs_ok d" "length (d_heap d) < 2 ^ 32" and cid: "cid = word_of_nat w"
  shows "test_run answer (quick_test w) \<lparr>ts_sys = \<lparr>ss_fetcher = f, ss_dist = d, ss_consumers = c, ss_fetched = fs, ss_calls = cs\<rparr>,
      ts_slot = w, ts_cid = cid, ts_phase = Recording\<rparr>
    = Some (Inr \<lparr>ts_sys = \<lparr>ss_fetcher = f, ss_dist = ended d, ss_consumers = cw_close c, ss_fetched = fs, ss_calls = cs\<rparr>,
      ts_slot = w, ts_cid = cid, ts_phase = Closed\<rparr>)"
proof -
  have "remove_consumer 0 cid d = d\<lparr>d_slots := slots, d_shut := (d_shut d)(0 \<mapsto> ShStore w [] True)\<rparr>"
    using remove_consumer_starts [OF ok(1,2) _ cid ok(3), of 0] d(3,5) by (simp add: remove1_append)
  with d(1,2,4) show ?thesis
    by (simp add: quick_test_def shut_step_def upd_slot_def worker_func_def slot_notify_def mutex_free_def ended_def d(3))
qed

text \<open>Runs of the threads before it.\<close>

lemma test_run_append:
  "test_run answer (xs @ ys) s = (case test_run answer xs s of Some (Inr s') \<Rightarrow> test_run answer ys s' | r \<Rightarrow> r)"
  by (induction xs arbitrary: s) (auto split: option.splits sum.splits)

lemma test_run_threads:
  "list_all test_thread xs \<Longrightarrow> test_run answer (map Thread xs) s =
     map_option (map_sum id (\<lambda>y. s\<lparr>ts_sys := y\<rparr>)) (sys_run (writer_cb (ts_slot s) answer) no_thread xs (ts_sys s))"
  by (induction xs arbitrary: s) (auto split: option.splits sum.splits)

end
