(* ===== verification/Logger.thy ===== *)
theory Logger
  imports Eye_Prelude
begin

text \<open>
  \<open>modules/core/src/logger.cpp\<close> and \<open>include/logger.h\<close>: the wrapper of zlog.  The file system
  (\<open>access\<close>, \<open>mkdir\<close>) and zlog are arguments; a category is a number.  What goes to the console is
  not modelled.
\<close>

section \<open>Directories\<close>

datatype mkdir_result = MkOk | MkExists | MkFailed

text \<open>
  The loop of \<open>ensure_dir\<close> over the positions of \<open>path\<close>: at a slash it creates the directory named
  by the bytes before it, unless that exists.
\<close>

fun ensure_parents ::
  "('fs \<Rightarrow> string \<Rightarrow> bool) \<Rightarrow> ('fs \<Rightarrow> string \<Rightarrow> mkdir_result \<times> 'fs) \<Rightarrow> string \<Rightarrow> nat list \<Rightarrow> 'fs \<Rightarrow> bool \<times> 'fs" where
  "ensure_parents access mkdir path [] fs = (True, fs)"
| "ensure_parents access mkdir path (i # is) fs =
     (if path ! i = CHR ''/'' then
        if \<not> access fs (take i path) then
          (case mkdir fs (take i path) of
             (MkFailed, fs) \<Rightarrow> (False, fs)
           | (_, fs) \<Rightarrow> ensure_parents access mkdir path is fs)
        else ensure_parents access mkdir path is fs
      else ensure_parents access mkdir path is fs)"

definition ensure_dir ::
  "('fs \<Rightarrow> string \<Rightarrow> bool) \<Rightarrow> ('fs \<Rightarrow> string \<Rightarrow> mkdir_result \<times> 'fs) \<Rightarrow> string \<Rightarrow> 'fs \<Rightarrow> bool \<times> 'fs" where
  "ensure_dir access mkdir path fs =
     (if access fs path then (True, fs)
      else if 256 \<le> length path then (False, fs)
      else case ensure_parents access mkdir path [1..<length path] fs of
          (False, fs) \<Rightarrow> (False, fs)
        | (True, fs) \<Rightarrow>
            (case mkdir fs path of (MkFailed, fs) \<Rightarrow> (False, fs) | (_, fs) \<Rightarrow> (True, fs)))"

section \<open>Categories\<close>

definition LOG_CATEGORY_LIST :: "string list" where
  "LOG_CATEGORY_LIST = [''HIMPP'', ''TEST'', ''STREAM'', ''RTSP'']"

record Logger =
  lg_initialized :: bool
  lg_cats :: "string \<rightharpoonup> nat"
  lg_thread :: bool
  lg_stop_flag :: bool
  lg_zlog_open :: bool

definition new_logger :: Logger where
  "new_logger = \<lparr>lg_initialized = False, lg_cats = Map.empty, lg_thread = False, lg_stop_flag = True,
     lg_zlog_open = False\<rparr>"

text \<open>\<open>zlog\<close> is \<open>zlog_get_category\<close>; \<open>emplace\<close> does not replace an entry.\<close>

definition preload_categories :: "(string \<Rightarrow> nat option) \<Rightarrow> Logger \<Rightarrow> Logger" where
  "preload_categories zlog l =
     l\<lparr>lg_cats := fold (\<lambda>name cats. case zlog name of
          Some zc \<Rightarrow> if cats name = None then cats(name \<mapsto> zc) else cats
        | None \<Rightarrow> cats) LOG_CATEGORY_LIST Map.empty\<rparr>"

definition LOG_DIR :: string where
  "LOG_DIR = ''/data/eyeLog''"

text \<open>
  The log directory is asked for first; without it the initialisation goes on.  A second
  \<open>std::thread\<close> over a joinable one would end the process.
\<close>

definition logger_init ::
  "('fs \<Rightarrow> string \<Rightarrow> bool) \<Rightarrow> ('fs \<Rightarrow> string \<Rightarrow> mkdir_result \<times> 'fs) \<Rightarrow> int \<Rightarrow> (string \<Rightarrow> nat option)
     \<Rightarrow> 'fs \<times> Logger \<Rightarrow> (bool \<times> 'fs \<times> Logger) checked" where
  "logger_init access mkdir zlog_init_ret zlog fl =
     (case fl of (fs, l) \<Rightarrow>
      let (_, fs) = ensure_dir access mkdir LOG_DIR fs
      in if lg_initialized l then Inr (True, fs, l)
         else if zlog_init_ret \<noteq> 0 then Inr (False, fs, l)
         else let l = preload_categories zlog (l\<lparr>lg_initialized := True, lg_zlog_open := True\<rparr>);
                  l = l\<lparr>lg_stop_flag := False\<rparr>
          in if lg_thread l then Inl Terminated else Inr (True, fs, l\<lparr>lg_thread := True\<rparr>))"

definition logger_fini :: "Logger \<Rightarrow> Logger" where
  "logger_fini l =
     (if \<not> lg_initialized l then l
      else let l = l\<lparr>lg_stop_flag := True\<rparr>;
               l = (if lg_thread l then l\<lparr>lg_thread := False\<rparr> else l)
       in l\<lparr>lg_zlog_open := False, lg_initialized := False, lg_cats := Map.empty\<rparr>)"

definition get_category :: "string option \<Rightarrow> Logger \<Rightarrow> nat option" where
  "get_category cat l =
     (if \<not> lg_initialized l then None
      else case cat of None \<Rightarrow> None | Some name \<Rightarrow> lg_cats l name)"

definition reload_log_config :: "int \<Rightarrow> (string \<Rightarrow> nat option) \<Rightarrow> Logger \<Rightarrow> int \<times> Logger" where
  "reload_log_config zlog_reload_ret zlog l =
     (if zlog_reload_ret \<noteq> 0 then (- 1, l) else (0, preload_categories zlog l))"

text \<open>
  One turn of \<open>check_config_task\<close>: \<open>None\<close> once the stop flag is seen; otherwise the new state and
  whether the update file was removed.
\<close>

definition check_config_turn :: "bool \<Rightarrow> int \<Rightarrow> (string \<Rightarrow> nat option) \<Rightarrow> Logger \<Rightarrow> (Logger \<times> bool) option" where
  "check_config_turn update_exists zlog_reload_ret zlog l =
     (if lg_stop_flag l then None
      else if update_exists then Some (snd (reload_log_config zlog_reload_ret zlog l), True)
      else Some (l, False))"

text \<open>The macros \<open>LOGGER_INFO\<close> and the like: the message reaches zlog when the category is known.\<close>

definition log_message :: "string \<Rightarrow> Logger \<Rightarrow> bool" where
  "log_message cat l \<longleftrightarrow> get_category (Some cat) l \<noteq> None"

section \<open>Invariant\<close>

definition logger_inv :: "Logger \<Rightarrow> bool" where
  "logger_inv l \<longleftrightarrow>
     lg_thread l = lg_initialized l \<and> lg_zlog_open l = lg_initialized l \<and> lg_stop_flag l = (\<not> lg_initialized l)
   \<and> dom (lg_cats l) \<subseteq> set LOG_CATEGORY_LIST \<and> (\<not> lg_initialized l \<longrightarrow> lg_cats l = Map.empty)"

datatype lg_op =
    LgInit int "string \<Rightarrow> nat option"
  | LgFini
  | LgCheck bool int "string \<Rightarrow> nat option"

fun lg_step ::
  "('fs \<Rightarrow> string \<Rightarrow> bool) \<Rightarrow> ('fs \<Rightarrow> string \<Rightarrow> mkdir_result \<times> 'fs) \<Rightarrow> lg_op
     \<Rightarrow> 'fs \<times> Logger \<Rightarrow> ('fs \<times> Logger) checked" where
  "lg_step access mkdir (LgInit ret zlog) fl = map_sum id snd (logger_init access mkdir ret zlog fl)"
| "lg_step access mkdir LgFini (fs, l) = Inr (fs, logger_fini l)"
| "lg_step access mkdir (LgCheck upd ret zlog) (fs, l) =
     Inr (fs, case check_config_turn upd ret zlog l of None \<Rightarrow> l | Some (l', _) \<Rightarrow> l')"

fun lg_run ::
  "('fs \<Rightarrow> string \<Rightarrow> bool) \<Rightarrow> ('fs \<Rightarrow> string \<Rightarrow> mkdir_result \<times> 'fs) \<Rightarrow> lg_op list
     \<Rightarrow> 'fs \<times> Logger \<Rightarrow> ('fs \<times> Logger) checked" where
  "lg_run access mkdir [] fl = Inr fl"
| "lg_run access mkdir (x # xs) fl =
     (case lg_step access mkdir x fl of Inl e \<Rightarrow> Inl e | Inr fl' \<Rightarrow> lg_run access mkdir xs fl')"

lemma preload_cats:
  "lg_cats (preload_categories zlog l) name = (if name \<in> set LOG_CATEGORY_LIST then zlog name else None)"
  by (auto simp: preload_categories_def LOG_CATEGORY_LIST_def split: option.splits)

lemma preload_fields [simp]:
  "lg_initialized (preload_categories zlog l) = lg_initialized l" "lg_thread (preload_categories zlog l) = lg_thread l"
  "lg_stop_flag (preload_categories zlog l) = lg_stop_flag l" "lg_zlog_open (preload_categories zlog l) = lg_zlog_open l"
  by (simp_all add: preload_categories_def)

lemma preload_dom: "dom (lg_cats (preload_categories zlog l)) \<subseteq> set LOG_CATEGORY_LIST"
  by (auto simp: preload_cats split: if_splits)

lemma lg_step_inv:
  assumes "logger_inv l"
  shows "\<exists>fs' l'. lg_step access mkdir x (fs, l) = Inr (fs', l') \<and> logger_inv l'"
proof (cases x)
  case (LgInit ret zlog)
  obtain ok fs' where "ensure_dir access mkdir LOG_DIR fs = (ok, fs')" by fastforce
  with LgInit assms preload_dom show ?thesis by (simp add: logger_init_def logger_inv_def)
next
  case LgFini
  with assms show ?thesis by (simp add: logger_fini_def logger_inv_def Let_def)
next
  case (LgCheck upd ret zlog)
  with assms preload_dom show ?thesis
    by (simp add: check_config_turn_def reload_log_config_def logger_inv_def)
qed

lemma lg_run_inv: "logger_inv l \<Longrightarrow> \<exists>fs' l'. lg_run access mkdir xs (fs, l) = Inr (fs', l') \<and> logger_inv l'"
proof (induction xs arbitrary: fs l)
  case Nil
  then show ?case by simp
next
  case (Cons x xs)
  then obtain fs1 l1 where "lg_step access mkdir x (fs, l) = Inr (fs1, l1)" "logger_inv l1"
    using lg_step_inv [of l access mkdir x fs] by blast
  with Cons show ?case by simp
qed

section \<open>Properties\<close>

text \<open>
  Whatever sequence of initialisations, shutdowns and configuration checks runs, the process
  is never terminated by a joinable thread, the thread and zlog are open exactly while the logger
  is initialised, and a message reaches zlog only in a declared category of an initialised logger:
  one logged under \<open>LOG_CAT_HIMPP\<close>, which is not declared, is always dropped.
\<close>

theorem logger_categories:
  "\<exists>fs' l. lg_run access mkdir xs (fs, new_logger) = Inr (fs', l)
     \<and> lg_thread l = lg_initialized l \<and> lg_zlog_open l = lg_initialized l
     \<and> (log_message cat l \<longrightarrow> lg_initialized l \<and> cat \<in> set LOG_CATEGORY_LIST)
     \<and> \<not> log_message ''LOG_CAT_HIMPP'' l"
proof -
  have "logger_inv new_logger" by (simp add: logger_inv_def new_logger_def)
  then obtain fs' l where l: "lg_run access mkdir xs (fs, new_logger) = Inr (fs', l)" "logger_inv l"
    using lg_run_inv [of new_logger access mkdir xs fs] by metis
  then have dom: "dom (lg_cats l) \<subseteq> set LOG_CATEGORY_LIST" by (simp add: logger_inv_def)
  then have "''LOG_CAT_HIMPP'' \<notin> dom (lg_cats l)" by (auto simp: LOG_CATEGORY_LIST_def)
  with l dom show ?thesis
    by (auto simp: logger_inv_def log_message_def get_category_def)
qed

definition set_mkdir :: "string set \<Rightarrow> string \<Rightarrow> mkdir_result \<times> string set" where
  "set_mkdir fs p = (if p \<in> fs then (MkExists, fs) else (MkOk, insert p fs))"

definition set_access :: "string set \<Rightarrow> string \<Rightarrow> bool" where
  "set_access fs p \<longleftrightarrow> p \<in> fs"

theorem logger_categories_witness:
  "\<exists>fs' l. lg_run set_access set_mkdir [LgInit 0 (\<lambda>_. Some 1)] ({LOG_DIR}, new_logger) = Inr (fs', l)
     \<and> log_message ''RTSP'' l \<and> lg_initialized l"
proof -
  obtain fs' l where
    l: "lg_run set_access set_mkdir [LgInit 0 (\<lambda>_. Some 1)] ({LOG_DIR}, new_logger) = Inr (fs', l)"
      "log_message ''RTSP'' l"
    by (simp add: logger_init_def new_logger_def log_message_def get_category_def preload_cats
        LOG_CATEGORY_LIST_def ensure_dir_def set_access_def)
  with logger_categories [of set_access set_mkdir "[LgInit 0 (\<lambda>_. Some 1)]" "{LOG_DIR}" "''RTSP''"]
  show ?thesis by auto
qed

lemma ensure_parents_access:
  assumes made: "\<And>fs p. fst (mkdir fs p) \<noteq> MkFailed \<Longrightarrow> access (snd (mkdir fs p)) p"
    and keeps: "\<And>fs p q. access fs q \<Longrightarrow> access (snd (mkdir fs p)) q"
  shows "ensure_parents access mkdir path is fs = (ok, fs') \<Longrightarrow>
    (access fs q \<longrightarrow> access fs' q) \<and>
    (ok \<longrightarrow> (\<forall>i \<in> set is. path ! i = CHR ''/'' \<longrightarrow> access fs' (take i path)))"
proof (induction "is" arbitrary: fs q)
  case Nil
  then show ?case by simp
next
  case (Cons i "is")
  show ?case
  proof (cases "path ! i = CHR ''/'' \<and> \<not> access fs (take i path)")
    case False
    with Cons.prems have "ensure_parents access mkdir path is fs = (ok, fs')" by (auto split: if_splits)
    from Cons.IH [OF this, of q] Cons.IH [OF this, of "take i path"] False show ?thesis by auto
  next
    case True
    obtain r fs1 where m: "mkdir fs (take i path) = (r, fs1)" by fastforce
    show ?thesis
    proof (cases "r = MkFailed")
      case failed: True
      with True m Cons.prems keeps [of fs q "take i path"] show ?thesis by auto
    next
      case False
      with True m Cons.prems have "ensure_parents access mkdir path is fs1 = (ok, fs')"
        by (cases r) auto
      from Cons.IH [OF this, of q] Cons.IH [OF this, of "take i path"]
      show ?thesis using made [of fs "take i path"] keeps [of fs q "take i path"] m False by auto
    qed
  qed
qed

text \<open>
  When \<open>ensure_dir\<close> returns true, the directory exists, and so does every directory on the way
  to it that a slash of the path names (unless the path was there from the start); nothing that
  existed is lost, and a path of 256 bytes or more is refused without touching the file system.
\<close>

theorem ensure_dir_creates:
  assumes "\<And>fs p. fst (mkdir fs p) \<noteq> MkFailed \<Longrightarrow> access (snd (mkdir fs p)) p"
    and "\<And>fs p q. access fs q \<Longrightarrow> access (snd (mkdir fs p)) q"
    and "ensure_dir access mkdir path fs = (ok, fs')"
  shows "(ok \<longrightarrow> access fs' path)
    \<and> (ok \<and> \<not> access fs path \<longrightarrow>
        (\<forall>i. 1 \<le> i \<and> i < length path \<and> path ! i = CHR ''/'' \<longrightarrow> access fs' (take i path)))
    \<and> (access fs q \<longrightarrow> access fs' q)
    \<and> (\<not> access fs path \<and> 256 \<le> length path \<longrightarrow> \<not> ok \<and> fs' = fs)"
proof (cases "access fs path \<or> 256 \<le> length path")
  case True
  with assms(3) show ?thesis by (auto simp: ensure_dir_def split: if_splits)
next
  case False
  obtain ok1 fs1 where p: "ensure_parents access mkdir path [1..<length path] fs = (ok1, fs1)" by fastforce
  obtain r fs2 where m: "mkdir fs1 path = (r, fs2)" by fastforce
  have r: "ok = (ok1 \<and> r \<noteq> MkFailed)" "fs' = (if ok1 then fs2 else fs1)"
    using assms(3) False p m
    by (auto simp: ensure_dir_def split: if_splits bool.splits mkdir_result.splits prod.splits)
  have step: "access fs q \<longrightarrow> access fs1 q" for q
    using ensure_parents_access [of mkdir access, OF assms(1,2) p] by blast
  have parents: "access fs1 (take i path)"
    if "ok1" "1 \<le> i" "i < length path" "path ! i = CHR ''/''" for i
    using ensure_parents_access [of mkdir access, OF assms(1,2) p] that by auto
  have keep: "access fs1 q \<longrightarrow> access fs2 q" for q using assms(2) [of fs1 q path] m by simp
  have "r \<noteq> MkFailed \<longrightarrow> access fs2 path" using assms(1) [of fs1 path] m by simp
  with False step parents keep show ?thesis unfolding r by auto
qed

theorem ensure_dir_creates_witness:
  "set_access (snd (ensure_dir set_access set_mkdir ''/data/eyeLog'' {})) ''/data/eyeLog''
   \<and> set_access (snd (ensure_dir set_access set_mkdir ''/data/eyeLog'' {})) ''/data''"
proof -
  obtain ok fs' where e: "ensure_dir set_access set_mkdir ''/data/eyeLog'' {} = (ok, fs')" by fastforce
  have "fst (ensure_dir set_access set_mkdir ''/data/eyeLog'' {})"
    by (simp add: ensure_dir_def set_mkdir_def set_access_def upt_rec numeral_eq_Suc)
  with e have ok by simp
  have laws: "\<And>fs p. fst (set_mkdir fs p) \<noteq> MkFailed \<Longrightarrow> set_access (snd (set_mkdir fs p)) p"
    "\<And>fs p q. set_access fs q \<Longrightarrow> set_access (snd (set_mkdir fs p)) q"
    by (simp_all add: set_mkdir_def set_access_def)
  note created = ensure_dir_creates [where access = set_access and mkdir = set_mkdir, OF laws e]
  have i: "''/data/eyeLog'' ! 5 = CHR ''/''" "take 5 ''/data/eyeLog'' = ''/data''"
    "1 \<le> (5::nat)" "5 < length ''/data/eyeLog''"
    by (simp_all add: numeral_eq_Suc)
  have "\<not> set_access {} ''/data/eyeLog''" by (simp add: set_access_def)
  with created [of "[]"] \<open>ok\<close>
  have "set_access fs' ''/data/eyeLog''"
    "\<forall>i. 1 \<le> i \<and> i < length ''/data/eyeLog'' \<and> ''/data/eyeLog'' ! i = CHR ''/'' \<longrightarrow>
       set_access fs' (take i ''/data/eyeLog'')"
    by blast+
  with i e show ?thesis by (metis snd_conv)
qed

end
