(* ===== verification/Venc_Param.thy ===== *)
theory Venc_Param
  imports Eye_Types
begin

text \<open>
  \<open>modules/platform/hi3516cv610/src/hi_venc_param.cpp\<close>: the encoder parameters per codec and
  rate-control mode.  The structs are those of \<open>ot_common_venc.h\<close> and \<open>ot_common_rc.h\<close>; the
  H.265 structs are typedefs of the H.264 ones there, so a record serves both.  A union is a
  datatype with one constructor per arm that the program writes, and \<open>ZeroRc\<close>, \<open>ZeroAttr\<close> and
  \<open>ZeroGop\<close> for the zero bytes of a freshly initialised one.
\<close>

section \<open>Rate control\<close>

datatype ot_venc_rc_mode =
    RC_MODE_ZERO
  | OT_VENC_RC_MODE_H264_ABR | OT_VENC_RC_MODE_H264_CBR | OT_VENC_RC_MODE_H264_VBR
  | OT_VENC_RC_MODE_H264_AVBR | OT_VENC_RC_MODE_H264_QVBR | OT_VENC_RC_MODE_H264_CVBR
  | OT_VENC_RC_MODE_H264_FIXQP | OT_VENC_RC_MODE_H264_QPMAP
  | OT_VENC_RC_MODE_MJPEG_CBR | OT_VENC_RC_MODE_MJPEG_VBR | OT_VENC_RC_MODE_MJPEG_FIXQP
  | OT_VENC_RC_MODE_H265_ABR | OT_VENC_RC_MODE_H265_CBR | OT_VENC_RC_MODE_H265_VBR
  | OT_VENC_RC_MODE_H265_AVBR | OT_VENC_RC_MODE_H265_QVBR | OT_VENC_RC_MODE_H265_CVBR
  | OT_VENC_RC_MODE_H265_FIXQP | OT_VENC_RC_MODE_H265_QPMAP
  | OT_VENC_RC_MODE_SVAC3_ABR | OT_VENC_RC_MODE_SVAC3_CBR | OT_VENC_RC_MODE_SVAC3_VBR
  | OT_VENC_RC_MODE_SVAC3_AVBR | OT_VENC_RC_MODE_SVAC3_QVBR | OT_VENC_RC_MODE_SVAC3_CVBR
  | OT_VENC_RC_MODE_SVAC3_FIXQP | OT_VENC_RC_MODE_SVAC3_QPMAP

record rc_fixqp =
  fixqp_gop :: u32
  fixqp_src_frame_rate :: u32
  fixqp_dst_frame_rate :: u32
  fixqp_i_qp :: u32
  fixqp_p_qp :: u32
  fixqp_b_qp :: u32

record rc_abr =
  abr_gop :: u32
  abr_stats_time :: u32
  abr_src_frame_rate :: u32
  abr_dst_frame_rate :: u32
  abr_bit_rate :: u32
  abr_vbv_buf_delay :: u32

text \<open>\<open>cbr\<close>, \<open>vbr\<close>, \<open>avbr\<close> and \<open>qvbr\<close> have one bit rate (plain, maximal, maximal, target).\<close>

record rc_xbr =
  xbr_gop :: u32
  xbr_stats_time :: u32
  xbr_src_frame_rate :: u32
  xbr_dst_frame_rate :: u32
  xbr_bit_rate :: u32

record rc_cvbr =
  cvbr_gop :: u32
  cvbr_stats_time :: u32
  cvbr_src_frame_rate :: u32
  cvbr_dst_frame_rate :: u32
  cvbr_max_bit_rate :: u32
  cvbr_short_term_stats_time :: u32
  cvbr_long_term_stats_time :: u32
  cvbr_long_term_max_bit_rate :: u32
  cvbr_long_term_min_bit_rate :: u32

record rc_qpmap =
  qpmap_gop :: u32
  qpmap_stats_time :: u32
  qpmap_src_frame_rate :: u32
  qpmap_dst_frame_rate :: u32

datatype ot_venc_rc_qpmap_mode =
    OT_VENC_RC_QPMAP_MODE_MEAN_QP | OT_VENC_RC_QPMAP_MODE_MIN_QP | OT_VENC_RC_QPMAP_MODE_MAX_QP

record rc_mjpeg_fixqp =
  mj_src_frame_rate :: u32
  mj_dst_frame_rate :: u32
  mj_qfactor :: u32

record rc_mjpeg =
  mjb_stats_time :: u32
  mjb_src_frame_rate :: u32
  mjb_dst_frame_rate :: u32
  mjb_bit_rate :: u32

datatype rc_union =
    ZeroRc
  | H264Abr rc_abr | H264Cbr rc_xbr | H264Vbr rc_xbr | H264Avbr rc_xbr | H264Qvbr rc_xbr
  | H264Cvbr rc_cvbr | H264Fixqp rc_fixqp | H264Qpmap rc_qpmap
  | H265Abr rc_abr | H265Cbr rc_xbr | H265Vbr rc_xbr | H265Avbr rc_xbr | H265Qvbr rc_xbr
  | H265Cvbr rc_cvbr | H265Fixqp rc_fixqp | H265Qpmap rc_qpmap ot_venc_rc_qpmap_mode
  | MjpegCbr rc_mjpeg | MjpegVbr rc_mjpeg | MjpegFixqp rc_mjpeg_fixqp

record ot_venc_rc_attr =
  rc_mode :: ot_venc_rc_mode
  rc_arm :: rc_union

section \<open>Channel attributes\<close>

datatype ot_payload_type =
    PT_ZERO | OT_PT_H264 | OT_PT_H265 | OT_PT_MJPEG | OT_PT_JPEG | OT_PT_SVAC3 | OT_PT_OTHER nat

datatype ot_venc_pic_recv_mode = OT_VENC_PIC_RECV_SINGLE | OT_VENC_PIC_RECV_MULTI

datatype venc_attr_union =
    ZeroAttr
  | H264Attr bool u32   \<comment> \<open>\<open>rcn_ref_share_buf_en\<close>, \<open>frame_buf_ratio\<close>\<close>
  | H265Attr bool u32
  | JpegAttr bool u8 ot_venc_pic_recv_mode   \<comment> \<open>\<open>dcf_en\<close>, \<open>mpf_cfg.large_thumbnail_num\<close>, \<open>recv_mode\<close>\<close>

record ot_venc_attr =
  va_type :: ot_payload_type
  va_max_pic_width :: u32
  va_max_pic_height :: u32
  va_buf_size :: u32
  va_profile :: u32
  va_is_by_frame :: bool
  va_pic_width :: u32
  va_pic_height :: u32
  va_arm :: venc_attr_union

datatype ot_venc_gop_mode =
    OT_VENC_GOP_MODE_NORMAL_P | OT_VENC_GOP_MODE_DUAL_P | OT_VENC_GOP_MODE_SMART_P
  | OT_VENC_GOP_MODE_ADV_SMART_P | OT_VENC_GOP_MODE_BIPRED_B | OT_VENC_GOP_MODE_LOW_DELAY_B
  | OT_VENC_GOP_MODE_SMART_CRR | OT_VENC_GOP_MODE_BUTT

datatype ot_venc_crr_recode_strategy = OT_VENC_CRR_RECODE_DISABLE | OT_VENC_CRR_RECODE_NORMAL

datatype gop_union =
    ZeroGop
  | NormalP int            \<comment> \<open>\<open>ip_qp_delta\<close>\<close>
  | SmartP u32 int int     \<comment> \<open>\<open>bg_interval\<close>, \<open>bg_qp_delta\<close>, \<open>vi_qp_delta\<close>\<close>
  | SmartCrr u32 int int int int ot_venc_crr_recode_strategy
      \<comment> \<open>\<open>bg_interval\<close>, \<open>bg_qp_delta\<close>, \<open>vi_qp_delta\<close>, \<open>crr_split_num\<close>, \<open>crr_delay_num\<close>, \<open>strategy\<close>\<close>
  | DualP u32 int int      \<comment> \<open>\<open>sp_interval\<close>, \<open>sp_qp_delta\<close>, \<open>ip_qp_delta\<close>\<close>
  | BipredB u32 int int    \<comment> \<open>\<open>b_frame_num\<close>, \<open>b_qp_delta\<close>, \<open>ip_qp_delta\<close>\<close>

record ot_venc_gop_attr =
  gop_mode :: ot_venc_gop_mode
  gop_arm :: gop_union

record ot_venc_chn_attr =
  venc_attr :: ot_venc_attr
  rc_attr :: ot_venc_rc_attr
  gop_attr :: ot_venc_gop_attr

text \<open>\<open>ot_venc_chn_attr venc_chn_attr = {}\<close>.\<close>

definition zero_chn_attr :: ot_venc_chn_attr where
  "zero_chn_attr =
     \<lparr>venc_attr = \<lparr>va_type = PT_ZERO, va_max_pic_width = 0, va_max_pic_height = 0, va_buf_size = 0,
        va_profile = 0, va_is_by_frame = False, va_pic_width = 0, va_pic_height = 0, va_arm = ZeroAttr\<rparr>,
      rc_attr = \<lparr>rc_mode = RC_MODE_ZERO, rc_arm = ZeroRc\<rparr>,
      gop_attr = \<lparr>gop_mode = OT_VENC_GOP_MODE_NORMAL_P, gop_arm = ZeroGop\<rparr>\<rparr>"

text \<open>
  The expression \<open>((td_u64)k * (pic_width * pic_height)) / (1920 * 1080)\<close>: the product of the
  sides is taken in 32 bits, the rest in 64, and the result is stored in 32.
\<close>

definition fhd_bit_rate :: "u64 \<Rightarrow> ot_venc_chn_attr \<Rightarrow> u32" where
  "fhd_bit_rate k attr =
     ucast ((k * ucast (va_pic_width (venc_attr attr) * va_pic_height (venc_attr attr))) div (1920 * 1080 :: u64))"

definition set_rc :: "ot_venc_rc_mode \<Rightarrow> rc_union \<Rightarrow> ot_venc_chn_attr \<Rightarrow> ot_venc_chn_attr" where
  "set_rc mode arm attr = attr\<lparr>rc_attr := \<lparr>rc_mode = mode, rc_arm = arm\<rparr>\<rparr>"

section \<open>H.265\<close>

definition comm_venc_h265_abr_param_init :: "ot_venc_chn_attr \<Rightarrow> u32 \<Rightarrow> u32 \<Rightarrow> u32 \<Rightarrow> ot_venc_chn_attr" where
  "comm_venc_h265_abr_param_init attr gop stats_time frame_rate =
     set_rc OT_VENC_RC_MODE_H265_ABR
       (H265Abr \<lparr>abr_gop = gop, abr_stats_time = stats_time, abr_src_frame_rate = frame_rate,
          abr_dst_frame_rate = frame_rate, abr_bit_rate = fhd_bit_rate 3072 attr, abr_vbv_buf_delay = 50\<rparr>) attr"

definition comm_venc_h265_cbr_param_init :: "ot_venc_chn_attr \<Rightarrow> u32 \<Rightarrow> u32 \<Rightarrow> u32 \<Rightarrow> ot_venc_chn_attr" where
  "comm_venc_h265_cbr_param_init attr gop stats_time frame_rate =
     set_rc OT_VENC_RC_MODE_H265_CBR
       (H265Cbr \<lparr>xbr_gop = gop, xbr_stats_time = stats_time, xbr_src_frame_rate = frame_rate,
          xbr_dst_frame_rate = frame_rate, xbr_bit_rate = fhd_bit_rate 3072 attr\<rparr>) attr"

definition comm_venc_h265_fixqp_param_init :: "ot_venc_chn_attr \<Rightarrow> u32 \<Rightarrow> u32 \<Rightarrow> ot_venc_chn_attr" where
  "comm_venc_h265_fixqp_param_init attr gop frame_rate =
     set_rc OT_VENC_RC_MODE_H265_FIXQP
       (H265Fixqp \<lparr>fixqp_gop = gop, fixqp_src_frame_rate = frame_rate, fixqp_dst_frame_rate = frame_rate,
          fixqp_i_qp = 25, fixqp_p_qp = 30, fixqp_b_qp = 32\<rparr>) attr"

definition comm_venc_h265_vbr_param_init :: "ot_venc_chn_attr \<Rightarrow> u32 \<Rightarrow> u32 \<Rightarrow> u32 \<Rightarrow> ot_venc_chn_attr" where
  "comm_venc_h265_vbr_param_init attr gop stats_time frame_rate =
     set_rc OT_VENC_RC_MODE_H265_VBR
       (H265Vbr \<lparr>xbr_gop = gop, xbr_stats_time = stats_time, xbr_src_frame_rate = frame_rate,
          xbr_dst_frame_rate = frame_rate, xbr_bit_rate = fhd_bit_rate 3072 attr\<rparr>) attr"

definition comm_venc_h265_avbr_param_init :: "ot_venc_chn_attr \<Rightarrow> u32 \<Rightarrow> u32 \<Rightarrow> u32 \<Rightarrow> ot_venc_chn_attr" where
  "comm_venc_h265_avbr_param_init attr gop stats_time frame_rate =
     set_rc OT_VENC_RC_MODE_H265_AVBR
       (H265Avbr \<lparr>xbr_gop = gop, xbr_stats_time = stats_time, xbr_src_frame_rate = frame_rate,
          xbr_dst_frame_rate = frame_rate, xbr_bit_rate = fhd_bit_rate 3072 attr\<rparr>) attr"

text \<open>Maximal, long-term maximal and long-term minimal bit rate.\<close>

definition comm_venc_set_h265_cvbr_bit_rate :: "ot_venc_chn_attr \<Rightarrow> rc_cvbr \<Rightarrow> u32 \<Rightarrow> PicSize \<Rightarrow> rc_cvbr" where
  "comm_venc_set_h265_cvbr_bit_rate attr cvbr frame_rate sz =
     (case sz of
        PIC_D1_NTSC \<Rightarrow>
          cvbr\<lparr>cvbr_max_bit_rate := 1024 + 512 * frame_rate div 30,
            cvbr_long_term_max_bit_rate := 1024 + 512 * frame_rate div 30,
            cvbr_long_term_min_bit_rate := 256\<rparr>
      | PIC_720P \<Rightarrow>
          cvbr\<lparr>cvbr_max_bit_rate := 1024 * 2 + 1024 * frame_rate div 30,
            cvbr_long_term_max_bit_rate := 1024 * 2 + 1024 * frame_rate div 30,
            cvbr_long_term_min_bit_rate := 512\<rparr>
      | PIC_1080P \<Rightarrow>
          cvbr\<lparr>cvbr_max_bit_rate := 1024 * 2 + 2048 * frame_rate div 30,
            cvbr_long_term_max_bit_rate := 1024 * 2 + 2048 * frame_rate div 30,
            cvbr_long_term_min_bit_rate := 1024\<rparr>
      | PIC_2304X1296 \<Rightarrow>
          cvbr\<lparr>cvbr_max_bit_rate := 1024 * 3 + 3072 * frame_rate div 30,
            cvbr_long_term_max_bit_rate := 1024 * 3 + 3072 * frame_rate div 30,
            cvbr_long_term_min_bit_rate := 1024 * 2\<rparr>
      | PIC_2592X1944 \<Rightarrow>
          cvbr\<lparr>cvbr_max_bit_rate := 1024 * 4 + 3072 * frame_rate div 30,
            cvbr_long_term_max_bit_rate := 1024 * 3 + 3072 * frame_rate div 30,
            cvbr_long_term_min_bit_rate := 1024 * 2\<rparr>
      | PIC_3840X2160 \<Rightarrow>
          cvbr\<lparr>cvbr_max_bit_rate := 1024 * 8 + 5120 * frame_rate div 30,
            cvbr_long_term_max_bit_rate := 1024 * 5 + 5120 * frame_rate div 30,
            cvbr_long_term_min_bit_rate := 1024 * 3\<rparr>
      | PIC_4000X3000 \<Rightarrow>
          cvbr\<lparr>cvbr_max_bit_rate := 1024 * 12 + 5120 * frame_rate div 30,
            cvbr_long_term_max_bit_rate := 1024 * 10 + 5120 * frame_rate div 30,
            cvbr_long_term_min_bit_rate := 1024 * 4\<rparr>
      | PIC_7680X4320 \<Rightarrow>
          cvbr\<lparr>cvbr_max_bit_rate := 1024 * 24 + 5120 * frame_rate div 30,
            cvbr_long_term_max_bit_rate := 1024 * 15 + 5120 * frame_rate div 30,
            cvbr_long_term_min_bit_rate := 1024 * 5\<rparr>
      | _ \<Rightarrow>
          cvbr\<lparr>cvbr_max_bit_rate := fhd_bit_rate 3072 attr,
            cvbr_long_term_max_bit_rate := fhd_bit_rate 3072 attr,
            cvbr_long_term_min_bit_rate := 1024 * 5\<rparr>)"

text \<open>The local struct is uninitialised before the bit rates are set: its bytes are \<open>junk\<close>.\<close>

definition comm_venc_h265_cvbr_param_init ::
  "rc_cvbr \<Rightarrow> ot_venc_chn_attr \<Rightarrow> u32 \<Rightarrow> u32 \<Rightarrow> u32 \<Rightarrow> PicSize \<Rightarrow> ot_venc_chn_attr" where
  "comm_venc_h265_cvbr_param_init junk attr gop stats_time frame_rate sz =
     (let cvbr = junk\<lparr>cvbr_gop := gop, cvbr_stats_time := stats_time, cvbr_src_frame_rate := frame_rate,
            cvbr_dst_frame_rate := frame_rate, cvbr_long_term_stats_time := 1,
            cvbr_short_term_stats_time := stats_time\<rparr>;
          cvbr = comm_venc_set_h265_cvbr_bit_rate attr cvbr frame_rate sz
      in set_rc OT_VENC_RC_MODE_H265_CVBR (H265Cvbr cvbr) attr)"

definition comm_venc_h265_qvbr_param_init :: "ot_venc_chn_attr \<Rightarrow> u32 \<Rightarrow> u32 \<Rightarrow> u32 \<Rightarrow> ot_venc_chn_attr" where
  "comm_venc_h265_qvbr_param_init attr gop stats_time frame_rate =
     set_rc OT_VENC_RC_MODE_H265_QVBR
       (H265Qvbr \<lparr>xbr_gop = gop, xbr_stats_time = stats_time, xbr_src_frame_rate = frame_rate,
          xbr_dst_frame_rate = frame_rate, xbr_bit_rate = fhd_bit_rate 3072 attr\<rparr>) attr"

definition comm_venc_h265_qpmap_param_init :: "ot_venc_chn_attr \<Rightarrow> u32 \<Rightarrow> u32 \<Rightarrow> u32 \<Rightarrow> ot_venc_chn_attr" where
  "comm_venc_h265_qpmap_param_init attr gop stats_time frame_rate =
     set_rc OT_VENC_RC_MODE_H265_QPMAP
       (H265Qpmap \<lparr>qpmap_gop = gop, qpmap_stats_time = stats_time, qpmap_src_frame_rate = frame_rate,
          qpmap_dst_frame_rate = frame_rate\<rparr> OT_VENC_RC_QPMAP_MODE_MEAN_QP) attr"

section \<open>H.264\<close>

definition comm_venc_h264_abr_param_init :: "ot_venc_chn_attr \<Rightarrow> u32 \<Rightarrow> u32 \<Rightarrow> u32 \<Rightarrow> ot_venc_chn_attr" where
  "comm_venc_h264_abr_param_init attr gop stats_time frame_rate =
     set_rc OT_VENC_RC_MODE_H264_ABR
       (H264Abr \<lparr>abr_gop = gop, abr_stats_time = stats_time, abr_src_frame_rate = frame_rate,
          abr_dst_frame_rate = frame_rate, abr_bit_rate = fhd_bit_rate 4096 attr, abr_vbv_buf_delay = 50\<rparr>) attr"

definition comm_venc_h264_cbr_param_init :: "ot_venc_chn_attr \<Rightarrow> u32 \<Rightarrow> u32 \<Rightarrow> u32 \<Rightarrow> ot_venc_chn_attr" where
  "comm_venc_h264_cbr_param_init attr gop stats_time frame_rate =
     set_rc OT_VENC_RC_MODE_H264_CBR
       (H264Cbr \<lparr>xbr_gop = gop, xbr_stats_time = stats_time, xbr_src_frame_rate = frame_rate,
          xbr_dst_frame_rate = frame_rate, xbr_bit_rate = fhd_bit_rate 4096 attr\<rparr>) attr"

definition comm_venc_h264_fixqp_param_init :: "ot_venc_chn_attr \<Rightarrow> u32 \<Rightarrow> u32 \<Rightarrow> ot_venc_chn_attr" where
  "comm_venc_h264_fixqp_param_init attr gop frame_rate =
     set_rc OT_VENC_RC_MODE_H264_FIXQP
       (H264Fixqp \<lparr>fixqp_gop = gop, fixqp_src_frame_rate = frame_rate, fixqp_dst_frame_rate = frame_rate,
          fixqp_i_qp = 25, fixqp_p_qp = 30, fixqp_b_qp = 32\<rparr>) attr"

definition comm_venc_h264_vbr_param_init :: "ot_venc_chn_attr \<Rightarrow> u32 \<Rightarrow> u32 \<Rightarrow> u32 \<Rightarrow> ot_venc_chn_attr" where
  "comm_venc_h264_vbr_param_init attr gop stats_time frame_rate =
     set_rc OT_VENC_RC_MODE_H264_VBR
       (H264Vbr \<lparr>xbr_gop = gop, xbr_stats_time = stats_time, xbr_src_frame_rate = frame_rate,
          xbr_dst_frame_rate = frame_rate, xbr_bit_rate = fhd_bit_rate 4096 attr\<rparr>) attr"

definition comm_venc_h264_avbr_param_init :: "ot_venc_chn_attr \<Rightarrow> u32 \<Rightarrow> u32 \<Rightarrow> u32 \<Rightarrow> ot_venc_chn_attr" where
  "comm_venc_h264_avbr_param_init attr gop stats_time frame_rate =
     set_rc OT_VENC_RC_MODE_H264_AVBR
       (H264Avbr \<lparr>xbr_gop = gop, xbr_stats_time = stats_time, xbr_src_frame_rate = frame_rate,
          xbr_dst_frame_rate = frame_rate, xbr_bit_rate = fhd_bit_rate 4096 attr\<rparr>) attr"

text \<open>Maximal, long-term maximal and long-term minimal bit rate.\<close>

definition comm_venc_set_h264_cvbr_bit_rate :: "ot_venc_chn_attr \<Rightarrow> rc_cvbr \<Rightarrow> u32 \<Rightarrow> PicSize \<Rightarrow> rc_cvbr" where
  "comm_venc_set_h264_cvbr_bit_rate attr cvbr frame_rate sz =
     (case sz of
        PIC_D1_NTSC \<Rightarrow>
          cvbr\<lparr>cvbr_max_bit_rate := 1024 + 512 * frame_rate div 30,
            cvbr_long_term_max_bit_rate := 1024 + 512 * frame_rate div 30,
            cvbr_long_term_min_bit_rate := 256\<rparr>
      | PIC_720P \<Rightarrow>
          cvbr\<lparr>cvbr_max_bit_rate := 1024 * 2 + 1024 * frame_rate div 30,
            cvbr_long_term_max_bit_rate := 1024 * 2 + 1024 * frame_rate div 30,
            cvbr_long_term_min_bit_rate := 512\<rparr>
      | PIC_1080P \<Rightarrow>
          cvbr\<lparr>cvbr_max_bit_rate := 1024 * 2 + 2048 * frame_rate div 30,
            cvbr_long_term_max_bit_rate := 1024 * 2 + 2048 * frame_rate div 30,
            cvbr_long_term_min_bit_rate := 1024\<rparr>
      | PIC_2304X1296 \<Rightarrow>
          cvbr\<lparr>cvbr_max_bit_rate := 1024 * 3 + 3072 * frame_rate div 30,
            cvbr_long_term_max_bit_rate := 1024 * 3 + 3072 * frame_rate div 30,
            cvbr_long_term_min_bit_rate := 1024 * 2\<rparr>
      | PIC_2592X1944 \<Rightarrow>
          cvbr\<lparr>cvbr_max_bit_rate := 1024 * 4 + 3072 * frame_rate div 30,
            cvbr_long_term_max_bit_rate := 1024 * 3 + 3072 * frame_rate div 30,
            cvbr_long_term_min_bit_rate := 1024 * 2\<rparr>
      | PIC_3840X2160 \<Rightarrow>
          cvbr\<lparr>cvbr_max_bit_rate := 1024 * 8 + 5120 * frame_rate div 30,
            cvbr_long_term_max_bit_rate := 1024 * 5 + 5120 * frame_rate div 30,
            cvbr_long_term_min_bit_rate := 1024 * 3\<rparr>
      | PIC_4000X3000 \<Rightarrow>
          cvbr\<lparr>cvbr_max_bit_rate := 1024 * 12 + 5120 * frame_rate div 30,
            cvbr_long_term_max_bit_rate := 1024 * 10 + 5120 * frame_rate div 30,
            cvbr_long_term_min_bit_rate := 1024 * 4\<rparr>
      | PIC_7680X4320 \<Rightarrow>
          cvbr\<lparr>cvbr_max_bit_rate := 1024 * 24 + 5120 * frame_rate div 30,
            cvbr_long_term_max_bit_rate := 1024 * 15 + 5120 * frame_rate div 30,
            cvbr_long_term_min_bit_rate := 1024 * 5\<rparr>
      | _ \<Rightarrow>
          cvbr\<lparr>cvbr_max_bit_rate := fhd_bit_rate 4096 attr,
            cvbr_long_term_max_bit_rate := fhd_bit_rate 4096 attr,
            cvbr_long_term_min_bit_rate := 1024 * 5\<rparr>)"

text \<open>The local struct is uninitialised before the bit rates are set: its bytes are \<open>junk\<close>.\<close>

definition comm_venc_h264_cvbr_param_init ::
  "rc_cvbr \<Rightarrow> ot_venc_chn_attr \<Rightarrow> u32 \<Rightarrow> u32 \<Rightarrow> u32 \<Rightarrow> PicSize \<Rightarrow> ot_venc_chn_attr" where
  "comm_venc_h264_cvbr_param_init junk attr gop stats_time frame_rate sz =
     (let cvbr = junk\<lparr>cvbr_gop := gop, cvbr_stats_time := stats_time, cvbr_src_frame_rate := frame_rate,
            cvbr_dst_frame_rate := frame_rate, cvbr_long_term_stats_time := 1,
            cvbr_short_term_stats_time := stats_time\<rparr>;
          cvbr = comm_venc_set_h264_cvbr_bit_rate attr cvbr frame_rate sz
      in set_rc OT_VENC_RC_MODE_H264_CVBR (H264Cvbr cvbr) attr)"

definition comm_venc_h264_qvbr_param_init :: "ot_venc_chn_attr \<Rightarrow> u32 \<Rightarrow> u32 \<Rightarrow> u32 \<Rightarrow> ot_venc_chn_attr" where
  "comm_venc_h264_qvbr_param_init attr gop stats_time frame_rate =
     set_rc OT_VENC_RC_MODE_H264_QVBR
       (H264Qvbr \<lparr>xbr_gop = gop, xbr_stats_time = stats_time, xbr_src_frame_rate = frame_rate,
          xbr_dst_frame_rate = frame_rate, xbr_bit_rate = fhd_bit_rate 4096 attr\<rparr>) attr"

definition comm_venc_h264_qpmap_param_init :: "ot_venc_chn_attr \<Rightarrow> u32 \<Rightarrow> u32 \<Rightarrow> u32 \<Rightarrow> ot_venc_chn_attr" where
  "comm_venc_h264_qpmap_param_init attr gop stats_time frame_rate =
     set_rc OT_VENC_RC_MODE_H264_QPMAP
       (H264Qpmap \<lparr>qpmap_gop = gop, qpmap_stats_time = stats_time, qpmap_src_frame_rate = frame_rate,
          qpmap_dst_frame_rate = frame_rate\<rparr>) attr"

section \<open>MJPEG and JPEG\<close>

definition comm_venc_mjpeg_fixqp_param_init :: "ot_venc_chn_attr \<Rightarrow> u32 \<Rightarrow> ot_venc_chn_attr" where
  "comm_venc_mjpeg_fixqp_param_init attr frame_rate =
     set_rc OT_VENC_RC_MODE_MJPEG_FIXQP
       (MjpegFixqp \<lparr>mj_src_frame_rate = frame_rate, mj_dst_frame_rate = frame_rate, mj_qfactor = 50\<rparr>) attr"

definition comm_venc_mjpeg_cbr_param_init :: "ot_venc_chn_attr \<Rightarrow> u32 \<Rightarrow> u32 \<Rightarrow> ot_venc_chn_attr" where
  "comm_venc_mjpeg_cbr_param_init attr stats_time frame_rate =
     set_rc OT_VENC_RC_MODE_MJPEG_CBR
       (MjpegCbr \<lparr>mjb_stats_time = stats_time, mjb_src_frame_rate = frame_rate,
          mjb_dst_frame_rate = frame_rate, mjb_bit_rate = fhd_bit_rate 20480 attr\<rparr>) attr"

definition comm_venc_mjpeg_vbr_param_init :: "ot_venc_chn_attr \<Rightarrow> u32 \<Rightarrow> u32 \<Rightarrow> ot_venc_chn_attr" where
  "comm_venc_mjpeg_vbr_param_init attr stats_time frame_rate =
     set_rc OT_VENC_RC_MODE_MJPEG_VBR
       (MjpegVbr \<lparr>mjb_stats_time = stats_time, mjb_src_frame_rate = frame_rate,
          mjb_dst_frame_rate = frame_rate, mjb_bit_rate = fhd_bit_rate 20480 attr\<rparr>) attr"

definition comm_venc_jpeg_param_init :: "ot_venc_chn_attr \<Rightarrow> td_s32 \<times> ot_venc_chn_attr" where
  "comm_venc_jpeg_param_init attr =
     (TD_SUCCESS, attr\<lparr>venc_attr := (venc_attr attr)\<lparr>va_arm := JpegAttr False 0 OT_VENC_PIC_RECV_SINGLE\<rparr>\<rparr>)"

section \<open>Bit rates\<close>

definition FHD_PIXELS :: nat where
  "FHD_PIXELS = 2073600"

abbreviation (input) OT_VENC_MIN_BITRATE :: u32 where
  "OT_VENC_MIN_BITRATE \<equiv> 2"

abbreviation (input) OT_VENC_MAX_BITRATE :: u32 where
  "OT_VENC_MAX_BITRATE \<equiv> 160 * 1024"

definition has_size :: "Size \<Rightarrow> ot_venc_chn_attr \<Rightarrow> bool" where
  "has_size z attr \<longleftrightarrow> va_pic_width (venc_attr attr) = width z \<and> va_pic_height (venc_attr attr) = height z"

definition pixels :: "Size \<Rightarrow> nat" where
  "pixels z = unat (width z) * unat (height z)"

lemma fhd_bit_rate_unat:
  assumes "pic_lookup sz = Some z" and "has_size z attr" and "unat k \<le> 20480"
  shows "unat (fhd_bit_rate k attr) = unat k * pixels z div FHD_PIXELS"
proof -
  have px: "pixels z \<le> 33177600" using pic_lookup_bound [OF assms(1)] by (simp add: pixels_def)
  have 1: "unat (ucast (width z * height z) :: u64) = pixels z"
    using px by (simp add: unsigned_ucast_eq unat_word_ariths pixels_def take_bit_nat_eq_self)
  have b: "unat k * pixels z \<le> 20480 * 33177600" using px assms(3) by (intro mult_le_mono) auto
  then have 2: "unat (k * ucast (width z * height z) :: u64) = unat k * pixels z"
    by (simp add: unat_word_ariths 1)
  have "unat k * pixels z div FHD_PIXELS \<le> 20480 * 33177600 div FHD_PIXELS"
    using b by (rule div_le_mono)
  then have 3: "unat k * pixels z div FHD_PIXELS < 2 ^ 32" by (simp add: FHD_PIXELS_def)
  have "unat ((k * ucast (width z * height z)) div (1920 * 1080) :: u64) = unat k * pixels z div FHD_PIXELS"
    by (simp add: unat_div 2 FHD_PIXELS_def)
  with 3 assms(2) show ?thesis
    by (simp add: fhd_bit_rate_def has_size_def unsigned_ucast_eq take_bit_nat_eq_self)
qed

lemma frame_rate_unat:
  fixes a k fr :: u32
  assumes "unat fr \<le> 240" and "unat k \<le> 5120" and "unat a \<le> 24576"
  shows "unat (a + k * fr div 30) = unat a + unat k * unat fr div 30"
proof -
  have b: "unat k * unat fr \<le> 5120 * 240" using assms by (intro mult_le_mono) auto
  then have 1: "unat (k * fr) = unat k * unat fr" by (simp add: unat_word_ariths)
  have "unat k * unat fr div 30 \<le> 5120 * 240 div 30" using b by (rule div_le_mono)
  with assms(3) show ?thesis by (simp add: unat_word_ariths unat_div 1)
qed

section \<open>Constant variable bit rate\<close>

text \<open>The sizes with bit rates of their own.\<close>

definition cvbr_table :: "PicSize set" where
  "cvbr_table = {PIC_D1_NTSC, PIC_720P, PIC_1080P, PIC_2304X1296, PIC_2592X1944, PIC_3840X2160,
     PIC_4000X3000, PIC_7680X4320}"

text \<open>The ranges that \<open>ot_common_rc.h\<close> prescribes for the three bit rates.\<close>

definition cvbr_ok :: "rc_cvbr \<Rightarrow> bool" where
  "cvbr_ok c \<longleftrightarrow>
     OT_VENC_MIN_BITRATE \<le> cvbr_max_bit_rate c \<and> cvbr_max_bit_rate c \<le> OT_VENC_MAX_BITRATE
   \<and> OT_VENC_MIN_BITRATE \<le> cvbr_long_term_max_bit_rate c
   \<and> cvbr_long_term_max_bit_rate c \<le> cvbr_max_bit_rate c
   \<and> cvbr_long_term_min_bit_rate c \<le> cvbr_long_term_max_bit_rate c"

lemmas cvbr_defs = comm_venc_set_h265_cvbr_bit_rate_def comm_venc_set_h264_cvbr_bit_rate_def

lemma cvbr_named_ok:
  assumes "sz \<in> cvbr_table" and fr: "unat frame_rate \<le> 240"
  shows "cvbr_ok (comm_venc_set_h265_cvbr_bit_rate attr junk frame_rate sz)
    \<and> cvbr_ok (comm_venc_set_h264_cvbr_bit_rate attr junk frame_rate sz)"
proof -
  have "5120 * unat frame_rate div 30 \<le> 40960" "3072 * unat frame_rate div 30 \<le> 24576"
    "2048 * unat frame_rate div 30 \<le> 16384" "1024 * unat frame_rate div 30 \<le> 8192"
    "512 * unat frame_rate div 30 \<le> 4096"
    using fr by linarith+
  then show ?thesis
    using assms(1)
    by (auto simp: cvbr_table_def cvbr_ok_def cvbr_defs word_le_nat_alt frame_rate_unat [OF fr])
qed

lemma cvbr_default:
  assumes "sz \<notin> cvbr_table"
  shows "cvbr_ok (comm_venc_set_h265_cvbr_bit_rate attr junk frame_rate sz)
      \<longleftrightarrow> 5120 \<le> fhd_bit_rate 3072 attr \<and> fhd_bit_rate 3072 attr \<le> OT_VENC_MAX_BITRATE"
    and "cvbr_ok (comm_venc_set_h264_cvbr_bit_rate attr junk frame_rate sz)
      \<longleftrightarrow> 5120 \<le> fhd_bit_rate 4096 attr \<and> fhd_bit_rate 4096 attr \<le> OT_VENC_MAX_BITRATE"
  using assms
  by (auto simp: cvbr_table_def cvbr_ok_def cvbr_defs word_le_nat_alt split: PicSize.splits)

lemma default_rates:
  assumes "pic_lookup sz = Some z" and "has_size z attr"
  shows "5120 \<le> fhd_bit_rate 3072 attr \<longleftrightarrow> 3456000 \<le> pixels z"
    and "5120 \<le> fhd_bit_rate 4096 attr \<longleftrightarrow> 2592000 \<le> pixels z"
    and "fhd_bit_rate 3072 attr \<le> OT_VENC_MAX_BITRATE" and "fhd_bit_rate 4096 attr \<le> OT_VENC_MAX_BITRATE"
proof -
  have px: "pixels z \<le> 33177600" using pic_lookup_bound [OF assms(1)] by (simp add: pixels_def)
  have "unat (fhd_bit_rate 3072 attr) = 3072 * pixels z div FHD_PIXELS"
    "unat (fhd_bit_rate 4096 attr) = 4096 * pixels z div FHD_PIXELS"
    using fhd_bit_rate_unat [OF assms, of 3072] fhd_bit_rate_unat [OF assms, of 4096] by simp_all
  then show "5120 \<le> fhd_bit_rate 3072 attr \<longleftrightarrow> 3456000 \<le> pixels z"
    "5120 \<le> fhd_bit_rate 4096 attr \<longleftrightarrow> 2592000 \<le> pixels z"
    "fhd_bit_rate 3072 attr \<le> OT_VENC_MAX_BITRATE" "fhd_bit_rate 4096 attr \<le> OT_VENC_MAX_BITRATE"
    using px by (simp_all add: word_le_nat_alt FHD_PIXELS_def) linarith+
qed

text \<open>
  The CVBR bit rates satisfy the ranges of the header at every frame rate up to 240 for the
  sizes of the table; for every other size they do exactly when the picture has at least 3456000
  (H.265) or 2592000 (H.264) pixels, because the default arm keeps the long-term minimum of the
  largest pictures, 5 Mbit/s.
\<close>

theorem cvbr_ranges:
  assumes "pic_lookup sz = Some z" and "has_size z attr" and "unat frame_rate \<le> 240"
  shows "(cvbr_ok (comm_venc_set_h265_cvbr_bit_rate attr junk frame_rate sz)
       \<longleftrightarrow> sz \<in> cvbr_table \<or> 3456000 \<le> pixels z)
    \<and> (cvbr_ok (comm_venc_set_h264_cvbr_bit_rate attr junk frame_rate sz)
       \<longleftrightarrow> sz \<in> cvbr_table \<or> 2592000 \<le> pixels z)"
proof (cases "sz \<in> cvbr_table")
  case True
  with cvbr_named_ok [OF True assms(3)] show ?thesis by blast
next
  case False
  with default_rates [OF assms(1,2)] show ?thesis by (simp add: cvbr_default [OF False])
qed

definition no_cvbr :: rc_cvbr where
  "no_cvbr = rc_cvbr.make 0 0 0 0 0 0 0 0 0"

definition attr_of_size :: "Size \<Rightarrow> ot_venc_chn_attr" where
  "attr_of_size z = zero_chn_attr\<lparr>venc_attr := (venc_attr zero_chn_attr)
     \<lparr>va_pic_width := width z, va_pic_height := height z\<rparr>\<rparr>"

theorem cvbr_ranges_witness:
  "\<not> cvbr_ok (comm_venc_set_h265_cvbr_bit_rate (attr_of_size \<lparr>width = 640, height = 360\<rparr>) no_cvbr 30 PIC_360P)"
proof -
  have "pic_lookup PIC_360P = Some \<lparr>width = 640, height = 360\<rparr>"
    by (simp add: pic_lookup_def pic_value_def pic_enumerators_def pic_size_array_def)
  moreover have "has_size \<lparr>width = 640, height = 360\<rparr> (attr_of_size \<lparr>width = 640, height = 360\<rparr>)"
    by (simp add: has_size_def attr_of_size_def zero_chn_attr_def)
  ultimately show ?thesis
    using cvbr_ranges [of PIC_360P "\<lparr>width = 640, height = 360\<rparr>" _ 30 no_cvbr]
    by (simp add: cvbr_table_def pixels_def)
qed

end
