(* ===== verification/Mpp_Calls.thy ===== *)
theory Mpp_Calls
  imports Venc_Param
begin

text \<open>
  The MPP driver as \<open>hi_video_pipeline.cpp\<close> sees it: the calls it makes, with the arguments it
  fills in, and an environment \<open>env\<close> that answers them, possibly depending on everything called
  before.  A call and its result are appended to a trace.  Enumerators that the program only passes
  on to the driver are their names.
\<close>

section \<open>Arguments\<close>

type_synonym mpp_enum = string

record ot_mpp_chn =
  mod_id :: mpp_enum
  dev_id :: int
  chn_id :: int

record ot_pic_buf_attr =
  pb_width :: u32
  pb_height :: u32
  pb_align :: u32
  pb_bit_width :: mpp_enum
  pb_pixel_format :: mpp_enum
  pb_compress_mode :: mpp_enum
  pb_video_format :: mpp_enum

text \<open>\<open>max_pool_cnt\<close> and the common pools that are not zero, each a block size and a count.\<close>

record ot_vb_cfg =
  max_pool_cnt :: u32
  common_pool :: "(u64 \<times> u32) list"

datatype ot_vi_vpss_mode_type =
    OT_VI_OFFLINE_VPSS_OFFLINE | OT_VI_OFFLINE_VPSS_ONLINE | OT_VI_ONLINE_VPSS_OFFLINE
  | OT_VI_ONLINE_VPSS_ONLINE | OT_VI_PARALLEL_VPSS_OFFLINE | OT_VI_PARALLEL_VPSS_PARALLEL

record ot_vpss_venc_wrap_param =
  wp_all_online :: bool
  wp_frame_rate :: u32
  wp_full_lines_std :: u32
  wp_large :: Size
  wp_small :: Size

record ot_vpss_chn_buf_wrap_attr =
  wrap_en :: bool
  wrap_buf_line :: u32
  wrap_buf_size :: u32

record ot_vpss_grp_attr =
  vg_max_width :: u32
  vg_max_height :: u32
  vg_pixel_format :: mpp_enum
  vg_dynamic_range :: mpp_enum
  vg_src_frame_rate :: int
  vg_dst_frame_rate :: int

record ot_vpss_chn_attr =
  vc_mirror_en :: bool
  vc_flip_en :: bool
  vc_border_en :: bool
  vc_width :: u32
  vc_height :: u32
  vc_depth :: u32
  vc_chn_mode :: mpp_enum
  vc_video_format :: mpp_enum
  vc_dynamic_range :: mpp_enum
  vc_pixel_format :: mpp_enum
  vc_compress_mode :: mpp_enum
  vc_src_frame_rate :: int
  vc_dst_frame_rate :: int
  vc_aspect_ratio_mode :: mpp_enum

record ot_vi_sync_cfg =
  sy_vsync :: mpp_enum
  sy_vsync_neg :: mpp_enum
  sy_hsync :: mpp_enum
  sy_hsync_neg :: mpp_enum
  sy_vsync_valid :: mpp_enum
  sy_vsync_valid_neg :: mpp_enum
  sy_timing_blank :: "u32 list"

record ot_vi_dev_attr =
  vd_intf_mode :: mpp_enum
  vd_work_mode :: mpp_enum
  vd_component_mask :: "u32 list"
  vd_scan_mode :: mpp_enum
  vd_ad_chn_id :: "int list"
  vd_data_seq :: mpp_enum
  vd_sync_cfg :: ot_vi_sync_cfg
  vd_data_type :: mpp_enum
  vd_data_reverse :: bool
  vd_in_size :: Size
  vd_data_rate :: mpp_enum

record ot_vi_pipe_attr =
  pi_pipe_bypass_mode :: mpp_enum
  pi_isp_bypass :: bool
  pi_size :: Size
  pi_pixel_format :: mpp_enum
  pi_compress_mode :: mpp_enum
  pi_frame_rate_ctrl :: "int \<times> int"

record ot_vi_chn_attr =
  ic_size :: Size
  ic_pixel_format :: mpp_enum
  ic_dynamic_range :: mpp_enum
  ic_video_format :: mpp_enum
  ic_compress_mode :: mpp_enum
  ic_mirror_en :: bool
  ic_flip_en :: bool
  ic_depth :: u32
  ic_frame_rate_ctrl :: "int \<times> int"

text \<open>The fields of the 3DNR attributes that are set; the others are what the driver returned.\<close>

record ot_3dnr_attr =
  nr_enable :: bool
  nr_compress_mode :: mpp_enum
  nr_nr_type :: mpp_enum
  nr_motion_mode :: mpp_enum

record rect =
  rect_x :: int
  rect_y :: int
  rect_width :: u32
  rect_height :: u32

record ot_isp_pub_attr =
  pa_wnd_rect :: rect
  pa_sns_size :: Size
  pa_frame_rate :: nat
  pa_bayer_format :: mpp_enum
  pa_wdr_mode :: mpp_enum
  pa_sns_mode :: u8
  pa_sns_flip_en :: bool
  pa_sns_mirror_en :: bool
  pa_mipi_crop :: "bool \<times> rect"

datatype ot_venc_mod_type = OT_VENC_MOD_VENC | OT_VENC_MOD_H264 | OT_VENC_MOD_H265 | OT_VENC_MOD_JPEG

text \<open>
  \<open>mini_buf_mode\<close> is the second word of the H.264, H.265 and JPEG arms alike; the rest of the
  union is kept as the driver filled it in.
\<close>

record ot_venc_mod_param =
  mod_type :: ot_venc_mod_type
  mini_buf_mode :: u32
  mod_rest :: "u32 list"

text \<open>
  The rate-control parameters of a channel: the arm of the union that is accessed and its
  \<open>max_reencode_times\<close>; everything else is as the driver filled it in.
\<close>

record ot_venc_rc_param =
  rp_arm :: ot_venc_rc_mode
  rp_max_reencode_times :: int

record combo_dev_attr =
  cd_devno :: u32
  cd_input_mode :: mpp_enum
  cd_data_rate :: mpp_enum
  cd_img_rect :: rect
  cd_data_type :: mpp_enum
  cd_wdr_mode :: mpp_enum
  cd_lane_id :: "int list"

record ext_data_type =
  xd_devno :: u32
  xd_num :: u32
  xd_bit_width :: "u32 list"
  xd_type :: "u32 list"

section \<open>Calls\<close>

datatype ioctl_request =
    OT_MIPI_SET_HS_MODE mpp_enum | OT_MIPI_ENABLE_MIPI_CLOCK u32 | OT_MIPI_RESET_MIPI u32
  | OT_MIPI_ENABLE_SENSOR_CLOCK u32 | OT_MIPI_RESET_SENSOR u32 | OT_MIPI_SET_DEV_ATTR combo_dev_attr
  | OT_MIPI_SET_EXT_DATA_TYPE ext_data_type | OT_MIPI_UNRESET_MIPI u32 | OT_MIPI_UNRESET_SENSOR u32

datatype mpp_call =
    ss_mpi_sys_exit | ss_mpi_vb_exit | ss_mpi_vb_set_cfg ot_vb_cfg | ss_mpi_vb_init
  | ss_mpi_sys_set_cfg u32 | ss_mpi_sys_init
  | ss_mpi_sys_get_vi_vpss_mode | ss_mpi_sys_set_vi_vpss_mode "ot_vi_vpss_mode_type list"
  | ss_mpi_sys_get_vpss_venc_wrap_buf_line ot_vpss_venc_wrap_param
  | ss_mpi_sys_bind ot_mpp_chn ot_mpp_chn
  | sys_open string | sys_ioctl int ioctl_request | sys_close int
  | ss_mpi_vi_set_pipe_buf_wrap_attr int bool u32
  | ss_mpi_vi_set_dev_attr int ot_vi_dev_attr | ss_mpi_vi_enable_dev int | ss_mpi_vi_bind int int
  | ss_mpi_vi_create_pipe int ot_vi_pipe_attr | ss_mpi_vi_start_pipe int | ss_mpi_vi_destroy_pipe int
  | ss_mpi_vi_set_chn_attr int int ot_vi_chn_attr | ss_mpi_vi_enable_chn int int
  | ss_mpi_vi_get_pipe_3dnr_attr int | ss_mpi_vi_set_pipe_3dnr_attr int ot_3dnr_attr
  | ss_mpi_isp_get_ctrl_param int | ss_mpi_isp_set_ctrl_param int u32   \<comment> \<open>\<open>stat_interval\<close>\<close>
  | ss_mpi_isp_exit int | pfn_register_callback int | pfn_set_bus_info int int
  | ss_mpi_ae_register int | ss_mpi_awb_register int | ss_mpi_isp_mem_init int
  | ss_mpi_isp_set_pub_attr int ot_isp_pub_attr | ss_mpi_isp_init int | ss_mpi_isp_run int
  | ss_mpi_vpss_create_grp int ot_vpss_grp_attr
  | ss_mpi_vpss_set_chn_attr int int "ot_vpss_chn_attr option"
  | ss_mpi_vpss_set_ext_chn_attr int int
  | ss_mpi_vpss_set_chn_rotation int int
  | ss_mpi_vpss_set_chn_buf_wrap int int ot_vpss_chn_buf_wrap_attr
  | ss_mpi_vpss_enable_chn int int | ss_mpi_vpss_start_grp int
  | ss_mpi_vpss_disable_chn int int | ss_mpi_vpss_stop_grp int | ss_mpi_vpss_destroy_grp int
  | ss_mpi_venc_get_mod_param ot_venc_mod_type | ss_mpi_venc_set_mod_param ot_venc_mod_param
  | ss_mpi_venc_create_chn int ot_venc_chn_attr | ss_mpi_venc_destroy_chn int
  | ss_mpi_venc_get_chn_attr int | ss_mpi_venc_get_rc_param int
  | ss_mpi_venc_set_rc_param int ot_venc_rc_param
  | ss_mpi_venc_start_chn int int   \<comment> \<open>\<open>recv_pic_num\<close>\<close>

type_synonym mpp_trace = "(mpp_call \<times> int) list"

text \<open>
  What the driver answers after a trace: the result of a call, the values it returns through
  pointers, and the functions of the MPP headers that compute buffer sizes.  The sensor object is
  null, or says whether its two function pointers are set.
\<close>

record mpp_env =
  env_ret :: "mpp_trace \<Rightarrow> mpp_call \<Rightarrow> int"
  env_rc_mode :: "mpp_trace \<Rightarrow> int \<Rightarrow> ot_venc_rc_mode"
  env_mod_param :: "mpp_trace \<Rightarrow> ot_venc_mod_param \<Rightarrow> ot_venc_mod_param"
  env_buf_line :: "mpp_trace \<Rightarrow> u32"
  env_sns_obj :: "(bool \<times> bool) option"
  env_pic_buf_size :: "ot_pic_buf_attr \<Rightarrow> u32"
  env_wrap_buf_size :: "ot_pic_buf_attr \<Rightarrow> u32 \<Rightarrow> u32"

section \<open>The pipeline object and computations over it\<close>

text \<open>The members of \<open>videoProcessHi\<close>, whether \<open>ispThread\<close> is joinable, and the trace.\<close>

record videoProcessHi =
  wrap_enable :: bool
  video_stretch_enable :: bool
  stVpssChnBufWrap :: ot_vpss_chn_buf_wrap_attr
  ispThread :: bool
  trace :: mpp_trace

type_synonym 'a mpp = "videoProcessHi \<Rightarrow> ('a \<times> videoProcessHi) checked"

definition mpp_return :: "'a \<Rightarrow> 'a mpp" where
  "mpp_return x v = Inr (x, v)"

definition mpp_bind :: "'a mpp \<Rightarrow> ('a \<Rightarrow> 'b mpp) \<Rightarrow> 'b mpp" where
  "mpp_bind m k v = (case m v of Inl e \<Rightarrow> Inl e | Inr (x, v) \<Rightarrow> k x v)"

definition mpp_get :: "(videoProcessHi \<Rightarrow> 'a) \<Rightarrow> ('a \<Rightarrow> 'b mpp) \<Rightarrow> 'b mpp" where
  "mpp_get sel k v = k (sel v) v"

definition mpi :: "mpp_env \<Rightarrow> mpp_call \<Rightarrow> int mpp" where
  "mpi env c v = (let r = env_ret env (trace v) c in Inr (r, v\<lparr>trace := trace v @ [(c, r)]\<rparr>))"

text \<open>\<open>ret = m; if (ret != TD_SUCCESS) { fail }  k\<close>, and its variant for one driver call.\<close>

definition on_fail :: "td_s32 mpp \<Rightarrow> (td_s32 \<Rightarrow> 'b mpp) \<Rightarrow> 'b mpp \<Rightarrow> 'b mpp" where
  "on_fail m fail k = mpp_bind m (\<lambda>ret. if ret \<noteq> TD_SUCCESS then fail ret else k)"

definition then_mpi :: "mpp_env \<Rightarrow> mpp_call \<Rightarrow> 'b mpp \<Rightarrow> 'b mpp" where
  "then_mpi env c k = mpp_bind (mpi env c) (\<lambda>_. k)"

text \<open>A chain of driver calls with the same failure branch; the first failure ends it.\<close>

fun mpi_seq :: "mpp_env \<Rightarrow> (td_s32 \<Rightarrow> 'b mpp) \<Rightarrow> mpp_call list \<Rightarrow> 'b mpp \<Rightarrow> 'b mpp" where
  "mpi_seq env fail [] k = k"
| "mpi_seq env fail (c # cs) k = on_fail (mpi env c) fail (mpi_seq env fail cs k)"

lemma mpp_return_iff [simp]: "mpp_return x v = Inr (y, v') \<longleftrightarrow> y = x \<and> v' = v"
  by (auto simp: mpp_return_def)

lemma mpp_bindE:
  assumes "mpp_bind m k v = Inr (y, v')"
  obtains x w where "m v = Inr (x, w)" "k x w = Inr (y, v')"
  using assms by (auto simp: mpp_bind_def split: sum.splits)

lemma on_failE:
  assumes "on_fail m fail k v = Inr (y, v')"
  obtains (fails) ret w where "m v = Inr (ret, w)" "ret \<noteq> 0" "fail ret w = Inr (y, v')"
    | (goes_on) w where "m v = Inr (0, w)" "k w = Inr (y, v')"
proof -
  from assms obtain x w where x: "m v = Inr (x, w)"
    "(if x \<noteq> TD_SUCCESS then fail x else k) w = Inr (y, v')"
    unfolding on_fail_def by (rule mpp_bindE)
  show thesis
  proof (cases "x = 0")
    case True
    then show thesis using x by (intro goes_on) auto
  next
    case False
    then show thesis using x by (intro fails) auto
  qed
qed

section \<open>Stopping at the first failure\<close>

text \<open>
  The calls that take something down; and the entries of a trace that report a failure the program
  looks at: it ignores the results of the former, of the sensor callbacks, of \<open>close\<close> and of
  reading the 3DNR attributes.
\<close>

fun cleanup :: "mpp_call \<Rightarrow> bool" where
  "cleanup (sys_close fd) = True"
| "cleanup (ss_mpi_vi_destroy_pipe p) = True"
| "cleanup (ss_mpi_vpss_disable_chn g c) = True"
| "cleanup (ss_mpi_vpss_stop_grp g) = True"
| "cleanup (ss_mpi_vpss_destroy_grp g) = True"
| "cleanup (ss_mpi_venc_destroy_chn c) = True"
| "cleanup c = False"

fun ignored :: "mpp_call \<Rightarrow> bool" where
  "ignored (pfn_register_callback p) = True"
| "ignored (pfn_set_bus_info p b) = True"
| "ignored (ss_mpi_vi_get_pipe_3dnr_attr p) = True"
| "ignored (ss_mpi_sys_get_vpss_venc_wrap_buf_line w) = True"
| "ignored c = cleanup c"

fun failed :: "mpp_call \<times> int \<Rightarrow> bool" where
  "failed (sys_open path, r) = (r < 0)"
| "failed (c, r) = (\<not> ignored c \<and> r \<noteq> 0)"

lemma cleanup_ignored: "cleanup c \<Longrightarrow> ignored c"
  by (cases c rule: cleanup.cases) auto

lemma cleanup_not_failed: "cleanup c \<Longrightarrow> \<not> failed (c, r)"
  using cleanup_ignored [of c] by (cases "(c, r)" rule: failed.cases) auto

definition all_ok :: "mpp_trace \<Rightarrow> bool" where
  "all_ok tr \<longleftrightarrow> list_all (\<lambda>e. \<not> failed e) tr"

text \<open>After an entry that failed only clean-up calls follow.\<close>

fun prompt :: "mpp_trace \<Rightarrow> bool" where
  "prompt [] = True"
| "prompt (e # es) = (if failed e then list_all (\<lambda>e. cleanup (fst e)) es else prompt es)"

lemma all_ok_simps [simp]: "all_ok []" "all_ok (e # es) \<longleftrightarrow> \<not> failed e \<and> all_ok es"
  "all_ok (xs @ ys) \<longleftrightarrow> all_ok xs \<and> all_ok ys"
  by (auto simp: all_ok_def)

lemma cleanups_ok: "list_all (\<lambda>e. cleanup (fst e)) es \<Longrightarrow> all_ok es"
  using cleanup_not_failed by (induction es) auto

lemma prompt_cleanups: "list_all (\<lambda>e. cleanup (fst e)) es \<Longrightarrow> prompt es"
  using cleanup_not_failed by (induction es) auto

lemma prompt_append:
  "all_ok xs \<Longrightarrow> prompt (xs @ ys) = prompt ys"
  by (induction xs) auto

lemma prompt_append_cleanups:
  "prompt xs \<Longrightarrow> list_all (\<lambda>e. cleanup (fst e)) ys \<Longrightarrow> prompt (xs @ ys)"
  by (induction xs) (auto simp: prompt_cleanups)

text \<open>
  A computation is prompt when it stops at its first failure, up to clean-up calls, and returns 0
  only if nothing failed; with a complete sensor object it does so exactly then.  Every result in
  its trace is one the driver gave.
\<close>

definition sensor_ok :: "mpp_env \<Rightarrow> bool" where
  "sensor_ok env \<longleftrightarrow> env_sns_obj env = Some (True, True)"

definition answered :: "mpp_env \<Rightarrow> mpp_trace \<Rightarrow> bool" where
  "answered env tr \<longleftrightarrow> list_all (\<lambda>e. \<exists>before. snd e = env_ret env before (fst e)) tr"

lemma answered_simps [simp]: "answered env []"
  "answered env (e # es) \<longleftrightarrow> (\<exists>before. snd e = env_ret env before (fst e)) \<and> answered env es"
  "answered env (xs @ ys) \<longleftrightarrow> answered env xs \<and> answered env ys"
  by (auto simp: answered_def)

definition outcome :: "mpp_env \<Rightarrow> td_s32 \<Rightarrow> mpp_trace \<Rightarrow> bool" where
  "outcome env r tr \<longleftrightarrow> prompt tr \<and> answered env tr \<and> (r = 0 \<longrightarrow> all_ok tr) \<and> (sensor_ok env \<and> all_ok tr \<longrightarrow> r = 0)"

definition prompt_run :: "mpp_env \<Rightarrow> td_s32 mpp \<Rightarrow> bool" where
  "prompt_run env m \<longleftrightarrow> (\<forall>v r v'. m v = Inr (r, v') \<longrightarrow>
     (\<exists>tr. trace v' = trace v @ tr \<and> outcome env r tr))"

definition cleanups :: "mpp_env \<Rightarrow> mpp_trace \<Rightarrow> bool" where
  "cleanups env tr \<longleftrightarrow> list_all (\<lambda>e. cleanup (fst e)) tr \<and> answered env tr"

definition cleanup_run :: "mpp_env \<Rightarrow> 'a mpp \<Rightarrow> bool" where
  "cleanup_run env m \<longleftrightarrow> (\<forall>v r v'. m v = Inr (r, v') \<longrightarrow> (\<exists>tr. trace v' = trace v @ tr \<and> cleanups env tr))"

definition fails_with :: "(td_s32 \<Rightarrow> bool) \<Rightarrow> td_s32 mpp \<Rightarrow> bool" where
  "fails_with P m \<longleftrightarrow> (\<forall>v r v'. m v = Inr (r, v') \<longrightarrow> P r)"

definition fail_run :: "mpp_env \<Rightarrow> td_s32 mpp \<Rightarrow> bool" where
  "fail_run env m \<longleftrightarrow> cleanup_run env m \<and> fails_with (\<lambda>r. r \<noteq> 0) m"

named_theorems prompt_rules "prompt computations, one rule per combinator"

lemma fail_runE:
  assumes "fail_run env m" and "m v = Inr (r, v')"
  obtains tr where "trace v' = trace v @ tr" "cleanups env tr" "r \<noteq> 0"
  using assms unfolding fail_run_def cleanup_run_def fails_with_def by blast

lemma fail_runI:
  "(\<And>v r v'. m v = Inr (r, v') \<Longrightarrow> \<exists>tr. trace v' = trace v @ tr \<and> cleanups env tr \<and> r \<noteq> 0) \<Longrightarrow> fail_run env m"
  unfolding fail_run_def cleanup_run_def fails_with_def by blast

lemma then_mpiE:
  assumes "then_mpi env c k v = Inr (r, v')"
  obtains "k (v\<lparr>trace := trace v @ [(c, env_ret env (trace v) c)]\<rparr>) = Inr (r, v')"
  using assms by (auto simp: then_mpi_def mpp_bind_def mpi_def Let_def)

lemma fail_run_return [prompt_rules]: "r \<noteq> 0 \<Longrightarrow> fail_run env (mpp_return r)"
  by (rule fail_runI) (auto simp: cleanups_def)

lemma fail_run_then_mpi [prompt_rules]:
  assumes "cleanup c" and "fail_run env k" shows "fail_run env (then_mpi env c k)"
proof (rule fail_runI)
  fix v r v' assume "then_mpi env c k v = Inr (r, v')"
  then have "k (v\<lparr>trace := trace v @ [(c, env_ret env (trace v) c)]\<rparr>) = Inr (r, v')" by (rule then_mpiE)
  with assms(2) obtain tr where
    "trace v' = trace (v\<lparr>trace := trace v @ [(c, env_ret env (trace v) c)]\<rparr>) @ tr" "cleanups env tr" "r \<noteq> 0"
    by (rule fail_runE)
  with assms(1) show "\<exists>tr. trace v' = trace v @ tr \<and> cleanups env tr \<and> r \<noteq> 0"
    by (intro exI [of _ "(c, env_ret env (trace v) c) # tr"]) (auto simp: cleanups_def)
qed

lemma fail_run_bind [prompt_rules]:
  assumes m: "cleanup_run env m" and k: "\<And>x. fail_run env (k x)" shows "fail_run env (mpp_bind m k)"
proof (rule fail_runI)
  fix v r v' assume "mpp_bind m k v = Inr (r, v')"
  then obtain x w where "m v = Inr (x, w)" and kx: "k x w = Inr (r, v')" by (rule mpp_bindE)
  with m obtain tr where "trace w = trace v @ tr" "cleanups env tr" unfolding cleanup_run_def by blast
  moreover from k kx obtain tr' where "trace v' = trace w @ tr'" "cleanups env tr'" "r \<noteq> 0" by (rule fail_runE)
  ultimately show "\<exists>tr. trace v' = trace v @ tr \<and> cleanups env tr \<and> r \<noteq> 0"
    by (intro exI [of _ "tr @ tr'"]) (auto simp: cleanups_def)
qed

lemma prompt_runE:
  assumes "prompt_run env m" and "m v = Inr (r, v')"
  obtains tr where "trace v' = trace v @ tr" "outcome env r tr"
  using assms unfolding prompt_run_def by blast

lemma prompt_runI:
  "(\<And>v r v'. m v = Inr (r, v') \<Longrightarrow> \<exists>tr. trace v' = trace v @ tr \<and> outcome env r tr) \<Longrightarrow> prompt_run env m"
  unfolding prompt_run_def by blast

lemma outcome_after:
  "all_ok xs \<Longrightarrow> answered env xs \<Longrightarrow> outcome env r ys \<Longrightarrow> outcome env r (xs @ ys)"
  by (simp add: outcome_def prompt_append)

lemma outcome_cleanups:
  "outcome env x xs \<Longrightarrow> x \<noteq> 0 \<Longrightarrow> cleanups env ys \<Longrightarrow> r \<noteq> 0 \<Longrightarrow> outcome env r (xs @ ys)"
  by (auto simp: outcome_def cleanups_def prompt_append_cleanups)

lemma prompt_run_return [prompt_rules]: "prompt_run env (mpp_return TD_SUCCESS)"
  by (rule prompt_runI) (auto simp: outcome_def)

lemma prompt_run_mpi [prompt_rules]:
  assumes "\<not> ignored c" and "\<And>path. c \<noteq> sys_open path" shows "prompt_run env (mpi env c)"
proof -
  have "failed (c, r) \<longleftrightarrow> r \<noteq> 0" for r
    using assms by (cases "(c, r)" rule: failed.cases) auto
  then show ?thesis
    by (intro prompt_runI) (auto simp: mpi_def Let_def outcome_def)
qed

lemma prompt_run_on_fail [prompt_rules]:
  assumes m: "prompt_run env m" and f: "\<And>r. r \<noteq> 0 \<Longrightarrow> fail_run env (fail r)" and k: "prompt_run env k"
  shows "prompt_run env (on_fail m fail k)"
proof (rule prompt_runI)
  fix v r v' assume "on_fail m fail k v = Inr (r, v')"
  then show "\<exists>tr. trace v' = trace v @ tr \<and> outcome env r tr"
  proof (cases rule: on_failE)
    case (fails ret w)
    obtain tr where tr: "trace w = trace v @ tr" "outcome env ret tr" using m fails(1) by (rule prompt_runE)
    obtain tr' where tr': "trace v' = trace w @ tr'" "cleanups env tr'" "r \<noteq> 0"
      using f [OF fails(2)] fails(3) by (rule fail_runE)
    from tr tr' outcome_cleanups [OF tr(2) fails(2) tr'(2,3)] show ?thesis by simp
  next
    case (goes_on w)
    obtain tr where tr: "trace w = trace v @ tr" "outcome env 0 tr" using m goes_on(1) by (rule prompt_runE)
    obtain tr' where tr': "trace v' = trace w @ tr'" "outcome env r tr'" using k goes_on(2) by (rule prompt_runE)
    have "all_ok tr" "answered env tr" using tr(2) by (simp_all add: outcome_def)
    from outcome_after [OF this tr'(2)] tr(1) tr'(1) show ?thesis by simp
  qed
qed

lemma prompt_run_then_mpi [prompt_rules]:
  assumes "ignored c" and k: "prompt_run env k" shows "prompt_run env (then_mpi env c k)"
proof (rule prompt_runI)
  fix v r v' assume "then_mpi env c k v = Inr (r, v')"
  let ?e = "(c, env_ret env (trace v) c)"
  from \<open>then_mpi env c k v = Inr (r, v')\<close> have "k (v\<lparr>trace := trace v @ [?e]\<rparr>) = Inr (r, v')" by (rule then_mpiE)
  with k obtain tr where tr: "trace v' = trace (v\<lparr>trace := trace v @ [?e]\<rparr>) @ tr" "outcome env r tr"
    by (rule prompt_runE)
  have "\<not> failed ?e" using assms(1) by (cases "?e" rule: failed.cases) auto
  then have "outcome env r ([?e] @ tr)" using tr(2) by (intro outcome_after) auto
  with tr(1) show "\<exists>tr. trace v' = trace v @ tr \<and> outcome env r tr" by simp
qed

lemma prompt_run_open [prompt_rules]:
  assumes k: "\<And>fd. 0 \<le> fd \<Longrightarrow> prompt_run env (k fd)"
  shows "prompt_run env (mpp_bind (mpi env (sys_open path)) (\<lambda>fd. if fd < 0 then mpp_return TD_FAILURE else k fd))"
proof (rule prompt_runI)
  fix v v' :: videoProcessHi and r :: int
  let ?fd = "env_ret env (trace v) (sys_open path)"
  let ?e = "(sys_open path, ?fd)"
  assume "mpp_bind (mpi env (sys_open path)) (\<lambda>fd. if fd < 0 then mpp_return TD_FAILURE else k fd) v = Inr (r, v')"
  then have m: "(if ?fd < 0 then mpp_return TD_FAILURE else k ?fd) (v\<lparr>trace := trace v @ [?e]\<rparr>) = Inr (r, v')"
    by (simp add: mpp_bind_def mpi_def Let_def)
  show "\<exists>tr. trace v' = trace v @ tr \<and> outcome env r tr"
  proof (cases "?fd < 0")
    case True
    with m show ?thesis by (auto simp: outcome_def)
  next
    case False
    with m obtain tr where tr: "trace v' = (trace v @ [?e]) @ tr" "outcome env r tr"
      using prompt_runE [OF k [of ?fd], of "v\<lparr>trace := trace v @ [?e]\<rparr>" r v'] by auto
    have "outcome env r ([?e] @ tr)" using tr(2) False by (intro outcome_after) auto
    with tr(1) show ?thesis by simp
  qed
qed

lemma prompt_run_get [prompt_rules]:
  assumes "\<And>x. prompt_run env (k x)" shows "prompt_run env (mpp_get sel k)"
  using assms unfolding prompt_run_def mpp_get_def by blast

lemma prompt_run_if [prompt_rules]:
  "(b \<Longrightarrow> prompt_run env m) \<Longrightarrow> (\<not> b \<Longrightarrow> prompt_run env k) \<Longrightarrow> prompt_run env (if b then m else k)"
  by simp

lemma prompt_run_seq [prompt_rules]:
  assumes "list_all (\<lambda>c. \<not> ignored c \<and> (\<forall>path. c \<noteq> sys_open path)) cs"
    and "\<And>r. r \<noteq> 0 \<Longrightarrow> fail_run env (fail r)" and "prompt_run env k"
  shows "prompt_run env (mpi_seq env fail cs k)"
  using assms by (induction cs) (auto intro!: prompt_rules)

section \<open>Definedness\<close>

text \<open>
  A steady computation always has a result and leaves the members of the object alone; a starting
  one has a result unless the ISP thread is already there.
\<close>

definition steady :: "'a mpp \<Rightarrow> bool" where
  "steady m \<longleftrightarrow> (\<forall>v. \<exists>x v'. m v = Inr (x, v') \<and> ispThread v' = ispThread v
     \<and> wrap_enable v' = wrap_enable v \<and> video_stretch_enable v' = video_stretch_enable v)"

definition starting :: "'a mpp \<Rightarrow> bool" where
  "starting m \<longleftrightarrow> (\<forall>v. \<not> ispThread v \<longrightarrow> (\<exists>x v'. m v = Inr (x, v')))"

named_theorems steady_rules "defined computations, one rule per combinator"

lemma steady_return [steady_rules]: "steady (mpp_return x)"
  by (simp add: steady_def)

lemma steady_mpi [steady_rules]: "steady (mpi env c)"
  by (simp add: steady_def mpi_def Let_def)

lemma steady_bind [steady_rules]:
  assumes "steady m" and "\<And>x. steady (k x)" shows "steady (mpp_bind m k)"
  unfolding steady_def
proof
  fix v
  obtain x w where w: "m v = Inr (x, w)" "ispThread w = ispThread v" "wrap_enable w = wrap_enable v"
    "video_stretch_enable w = video_stretch_enable v"
    using assms(1) unfolding steady_def by blast
  obtain y v' where "k x w = Inr (y, v')" "ispThread v' = ispThread w" "wrap_enable v' = wrap_enable w"
    "video_stretch_enable v' = video_stretch_enable w"
    using assms(2) [of x] unfolding steady_def by blast
  with w show "\<exists>x v'. mpp_bind m k v = Inr (x, v') \<and> ispThread v' = ispThread v
      \<and> wrap_enable v' = wrap_enable v \<and> video_stretch_enable v' = video_stretch_enable v"
    by (simp add: mpp_bind_def)
qed

lemma steady_if [steady_rules]: "(b \<Longrightarrow> steady m) \<Longrightarrow> (\<not> b \<Longrightarrow> steady k) \<Longrightarrow> steady (if b then m else k)"
  by simp

lemma steady_on_fail [steady_rules]:
  "steady m \<Longrightarrow> (\<And>r. steady (fail r)) \<Longrightarrow> steady k \<Longrightarrow> steady (on_fail m fail k)"
  unfolding on_fail_def by (intro steady_rules)

lemma steady_then_mpi [steady_rules]: "steady k \<Longrightarrow> steady (then_mpi env c k)"
  unfolding then_mpi_def by (intro steady_rules)

lemma steady_get [steady_rules]: "(\<And>x. steady (k x)) \<Longrightarrow> steady (mpp_get sel k)"
  unfolding steady_def mpp_get_def by blast

lemma steady_seq [steady_rules]:
  "(\<And>r. steady (fail r)) \<Longrightarrow> steady k \<Longrightarrow> steady (mpi_seq env fail cs k)"
  by (induction cs) (auto intro!: steady_rules)

lemma steady_starting: "steady m \<Longrightarrow> starting m"
  unfolding steady_def starting_def by blast

lemma starting_before: "starting m \<Longrightarrow> (\<And>r. steady (fail r)) \<Longrightarrow> steady k \<Longrightarrow> starting (on_fail m fail k)"
  unfolding starting_def
proof (intro allI impI)
  fix v :: videoProcessHi assume m: "\<forall>v. \<not> ispThread v \<longrightarrow> (\<exists>x v'. m v = Inr (x, v'))"
    and steady: "\<And>r. steady (fail r)" "steady k" and "\<not> ispThread v"
  then obtain x w where w: "m v = Inr (x, w)" by blast
  obtain y v' where "fail x w = Inr (y, v')" using steady(1) [of x] unfolding steady_def by blast
  moreover obtain z v'' where "k w = Inr (z, v'')" using steady(2) unfolding steady_def by blast
  ultimately show "\<exists>x v'. on_fail m fail k v = Inr (x, v')"
    by (simp add: on_fail_def mpp_bind_def w)
qed

lemma starting_after:
  assumes "steady m" and "\<And>r. steady (fail r)" and "starting k" shows "starting (on_fail m fail k)"
  unfolding starting_def
proof (intro allI impI)
  fix v :: videoProcessHi assume "\<not> ispThread v"
  with assms(1) obtain x w where w: "m v = Inr (x, w)" "\<not> ispThread w" unfolding steady_def by metis
  show "\<exists>x v'. on_fail m fail k v = Inr (x, v')"
  proof (cases "x = 0")
    case True
    with w assms(3) show ?thesis unfolding starting_def by (simp add: on_fail_def mpp_bind_def)
  next
    case False
    obtain y v' where "fail x w = Inr (y, v')" using assms(2) [of x] unfolding steady_def by blast
    with w False show ?thesis by (simp add: on_fail_def mpp_bind_def)
  qed
qed

lemma starting_if: "(b \<Longrightarrow> starting m) \<Longrightarrow> (\<not> b \<Longrightarrow> starting k) \<Longrightarrow> starting (if b then m else k)"
  by simp

section \<open>The calls of a successful run\<close>

text \<open>With the two members that select other modes off, as the constructor leaves them.\<close>

definition plain :: "videoProcessHi \<Rightarrow> bool" where
  "plain v \<longleftrightarrow> \<not> wrap_enable v \<and> \<not> video_stretch_enable v"

definition calls :: "td_s32 mpp \<Rightarrow> mpp_call list \<Rightarrow> bool" where
  "calls m cs \<longleftrightarrow> (\<forall>v v'. plain v \<and> m v = Inr (0, v') \<longrightarrow>
     plain v' \<and> map fst (trace v') = map fst (trace v) @ cs)"

lemma callsD:
  "calls m cs \<Longrightarrow> plain v \<Longrightarrow> m v = Inr (0, v') \<Longrightarrow> plain v'"
  "calls m cs \<Longrightarrow> plain v \<Longrightarrow> m v = Inr (0, v') \<Longrightarrow> map fst (trace v') = map fst (trace v) @ cs"
  unfolding calls_def by blast+

named_theorems calls_rules "calls of successful computations, one rule per combinator"

lemma fail_run_nonzero: "fail_run env m \<Longrightarrow> fails_with (\<lambda>r. r \<noteq> 0) m"
  by (simp add: fail_run_def)

lemma fails_with_return [calls_rules]: "r \<noteq> 0 \<Longrightarrow> fails_with (\<lambda>r. r \<noteq> 0) (mpp_return r)"
  by (simp add: fails_with_def)

lemma fails_with_then_mpi [calls_rules]:
  "fails_with P k \<Longrightarrow> fails_with P (then_mpi env c k)"
  by (simp add: fails_with_def then_mpi_def mpp_bind_def mpi_def Let_def)

lemma fails_with_bind [calls_rules]:
  "(\<And>x. fails_with P (k x)) \<Longrightarrow> fails_with P (mpp_bind m k)"
  by (simp add: fails_with_def mpp_bind_def split: sum.split)

lemma calls_return [calls_rules]: "calls (mpp_return r) []"
  by (simp add: calls_def)

lemma calls_mpi [calls_rules]: "calls (mpi env c) [c]"
  by (auto simp: calls_def mpi_def Let_def plain_def)

lemma calls_on_fail [calls_rules]:
  assumes "calls m cs" and "\<And>r. r \<noteq> 0 \<Longrightarrow> fails_with (\<lambda>r. r \<noteq> 0) (fail r)" and "calls k ds"
  shows "calls (on_fail m fail k) (cs @ ds)"
  unfolding calls_def
proof (intro allI impI)
  fix v v' assume a: "plain v \<and> on_fail m fail k v = Inr (0, v')"
  then have "on_fail m fail k v = Inr (0, v')" by simp
  then show "plain v' \<and> map fst (trace v') = map fst (trace v) @ cs @ ds"
  proof (cases rule: on_failE)
    case (fails ret w)
    with assms(2) show ?thesis unfolding fails_with_def by blast
  next
    case (goes_on w)
    with a callsD [OF assms(1) _ goes_on(1)] callsD [OF assms(3) _ goes_on(2)] show ?thesis by simp
  qed
qed

lemma calls_on_mpi [calls_rules]:
  assumes "\<And>r. r \<noteq> 0 \<Longrightarrow> fails_with (\<lambda>r. r \<noteq> 0) (fail r)" and "calls k ds"
  shows "calls (on_fail (mpi env c) fail k) (c # ds)"
  using calls_on_fail [OF calls_mpi assms] by simp

lemma calls_seq [calls_rules]:
  assumes "\<And>r. r \<noteq> 0 \<Longrightarrow> fails_with (\<lambda>r. r \<noteq> 0) (fail r)" and "calls k ds"
  shows "calls (mpi_seq env fail cs k) (cs @ ds)"
  using assms by (induction cs) (auto intro!: calls_on_mpi)

lemma calls_if [calls_rules]:
  "calls m cs \<Longrightarrow> calls k ds \<Longrightarrow> calls (if b then m else k) (if b then cs else ds)"
  by simp

lemma calls_then_mpi [calls_rules]:
  assumes "calls k cs" shows "calls (then_mpi env c k) (c # cs)"
  unfolding calls_def
proof (intro allI impI)
  fix v v' assume a: "plain v \<and> then_mpi env c k v = Inr (0, v')"
  let ?w = "v\<lparr>trace := trace v @ [(c, env_ret env (trace v) c)]\<rparr>"
  have k: "k ?w = Inr (0, v')" using a by (simp add: then_mpi_def mpp_bind_def mpi_def Let_def)
  have "plain ?w" using a by (simp add: plain_def)
  from callsD [OF assms this k] show "plain v' \<and> map fst (trace v') = map fst (trace v) @ c # cs"
    by simp
qed

lemma calls_weaken: "calls m cs \<Longrightarrow> cs = ds \<Longrightarrow> calls m ds"
  by simp

lemma calls_plain_get:
  assumes "\<And>v. plain v \<Longrightarrow> sel v = x" and "calls (k x) cs" shows "calls (mpp_get sel k) cs"
  using assms unfolding calls_def mpp_get_def by metis

section \<open>Resources\<close>

text \<open>
  File descriptors open and encoder channels existing after a trace, and the rate-control mode a
  channel was last created with.
\<close>

definition fd_step :: "mpp_call \<times> int \<Rightarrow> int list \<Rightarrow> int list" where
  "fd_step e fds =
     (case fst e of
        sys_open _ \<Rightarrow> if 0 \<le> snd e then snd e # fds else fds
      | sys_close fd \<Rightarrow> remove1 fd fds
      | _ \<Rightarrow> fds)"

definition open_fds :: "mpp_trace \<Rightarrow> int list \<Rightarrow> int list" where
  "open_fds tr = fold fd_step tr"

definition chn_step :: "mpp_call \<times> int \<Rightarrow> int set \<Rightarrow> int set" where
  "chn_step e chns =
     (case fst e of
        ss_mpi_venc_create_chn c _ \<Rightarrow> if snd e = 0 then insert c chns else chns
      | ss_mpi_venc_destroy_chn c \<Rightarrow> if snd e = 0 then chns - {c} else chns
      | _ \<Rightarrow> chns)"

definition venc_chns :: "mpp_trace \<Rightarrow> int set" where
  "venc_chns tr = fold chn_step tr {}"

definition mode_step :: "mpp_call \<times> int \<Rightarrow> (int \<Rightarrow> ot_venc_rc_mode) \<Rightarrow> int \<Rightarrow> ot_venc_rc_mode" where
  "mode_step e modes =
     (case fst e of
        ss_mpi_venc_create_chn c attr \<Rightarrow> if snd e = 0 then modes(c := rc_mode (rc_attr attr)) else modes
      | _ \<Rightarrow> modes)"

definition created_rc_mode :: "mpp_trace \<Rightarrow> int \<Rightarrow> ot_venc_rc_mode" where
  "created_rc_mode tr = fold mode_step tr (\<lambda>_. RC_MODE_ZERO)"

lemma open_fds_append: "open_fds (xs @ ys) fds = open_fds ys (open_fds xs fds)"
  by (simp add: open_fds_def)

end
