(* ===== verification/Venc_Channel.thy ===== *)
theory Venc_Channel
  imports Mpp_Calls
begin

text \<open>
  \<open>modules/platform/hi3516cv610/src/hi_video_pipeline.cpp\<close>, the struct \<open>videoImpl\<close>: attributes,
  creation and start of the encoder channels.  A parameter block that a function changes through
  its pointer is returned with the result.
\<close>

section \<open>Parameters\<close>

datatype rc_mode = RC_ABR | RC_CBR | RC_VBR | RC_AVBR | RC_CVBR | RC_QVBR | RC_QPMAP | RC_FIXQP

record venc_chn_param =
  cp_frame_rate :: u32
  cp_stats_time :: u32
  cp_gop :: u32
  cp_size :: PicSize
  cp_venc_size :: Size
  cp_profile :: u32
  cp_is_rcn_ref_share_buf :: bool
  cp_gop_attr :: ot_venc_gop_attr
  cp_type :: ot_payload_type
  cp_rc_mode :: rc_mode

datatype Pay_load_type = PAYLOAD_TYPE_H264 | PAYLOAD_TYPE_H265 | PAYLOAD_TYPE_MJPEG | PAYLOAD_TYPE_MAX

definition frame_buf_ratio_default :: u32 where
  "frame_buf_ratio_default = 75"

text \<open>\<open>OT_DEFINE_ERR(OT_ID_VENC, OT_ERR_LEVEL_ERROR, OT_ERR_NOT_SUPPORT)\<close>, 0xa008800c, as a signed number.\<close>

definition OT_ERR_VENC_NOT_SUPPORT :: td_s32 where
  "OT_ERR_VENC_NOT_SUPPORT = 0xa008800c - 2 ^ 32"

section \<open>Rate control per codec\<close>

text \<open>
  The union of codec attributes starts as zero bytes, so the arm that is written has its other
  field zero.  All eight modes are handled; the last \<open>else\<close> of the H.265 and H.264 functions is for
  numbers that are no enumerator.
\<close>

definition set_frame_buf_ratio :: "ot_payload_type \<Rightarrow> u32 \<Rightarrow> ot_venc_chn_attr \<Rightarrow> ot_venc_chn_attr" where
  "set_frame_buf_ratio type ratio attr = attr\<lparr>venc_attr := (venc_attr attr)\<lparr>va_arm :=
     (case va_arm (venc_attr attr) of
        H264Attr en _ \<Rightarrow> if type = OT_PT_H265 then H265Attr en ratio else H264Attr en ratio
      | H265Attr en _ \<Rightarrow> if type = OT_PT_H265 then H265Attr en ratio else H264Attr en ratio
      | _ \<Rightarrow> if type = OT_PT_H265 then H265Attr False ratio else H264Attr False ratio)\<rparr>\<rparr>"

definition set_rcn_ref_share_buf :: "bool \<Rightarrow> ot_venc_chn_attr \<Rightarrow> ot_venc_chn_attr" where
  "set_rcn_ref_share_buf en attr = attr\<lparr>venc_attr := (venc_attr attr)\<lparr>va_arm :=
     (case va_arm (venc_attr attr) of
        H264Attr _ ratio \<Rightarrow> H264Attr en ratio
      | H265Attr _ ratio \<Rightarrow> H265Attr en ratio
      | arm \<Rightarrow> arm)\<rparr>\<rparr>"

text \<open>\<open>junk\<close> stands for the uninitialised bytes of the local struct of the CVBR functions.\<close>

definition comm_venc_h265_param_init ::
  "rc_cvbr \<Rightarrow> ot_venc_chn_attr \<Rightarrow> venc_chn_param \<Rightarrow> td_s32 \<times> ot_venc_chn_attr" where
  "comm_venc_h265_param_init junk attr p =
     (let gop = cp_gop p; stats_time = cp_stats_time p; frame_rate = cp_frame_rate p;
          attr = set_frame_buf_ratio OT_PT_H265 frame_buf_ratio_default attr;
          attr = (case cp_rc_mode p of
              RC_ABR \<Rightarrow> comm_venc_h265_abr_param_init attr gop stats_time frame_rate
            | RC_CBR \<Rightarrow> comm_venc_h265_cbr_param_init attr gop stats_time frame_rate
            | RC_FIXQP \<Rightarrow> comm_venc_h265_fixqp_param_init attr gop frame_rate
            | RC_VBR \<Rightarrow> comm_venc_h265_vbr_param_init attr gop stats_time frame_rate
            | RC_AVBR \<Rightarrow> comm_venc_h265_avbr_param_init attr gop stats_time frame_rate
            | RC_CVBR \<Rightarrow> comm_venc_h265_cvbr_param_init junk attr gop stats_time frame_rate (cp_size p)
            | RC_QVBR \<Rightarrow> comm_venc_h265_qvbr_param_init attr gop stats_time frame_rate
            | RC_QPMAP \<Rightarrow> comm_venc_h265_qpmap_param_init attr gop frame_rate stats_time)
      in (TD_SUCCESS, set_rcn_ref_share_buf (cp_is_rcn_ref_share_buf p) attr))"

definition comm_venc_h264_param_init ::
  "rc_cvbr \<Rightarrow> ot_venc_chn_attr \<Rightarrow> venc_chn_param \<Rightarrow> td_s32 \<times> ot_venc_chn_attr" where
  "comm_venc_h264_param_init junk attr p =
     (let gop = cp_gop p; stats_time = cp_stats_time p; frame_rate = cp_frame_rate p;
          attr = set_frame_buf_ratio OT_PT_H264 frame_buf_ratio_default attr;
          attr = (case cp_rc_mode p of
              RC_ABR \<Rightarrow> comm_venc_h264_abr_param_init attr gop stats_time frame_rate
            | RC_CBR \<Rightarrow> comm_venc_h264_cbr_param_init attr gop stats_time frame_rate
            | RC_FIXQP \<Rightarrow> comm_venc_h264_fixqp_param_init attr gop frame_rate
            | RC_VBR \<Rightarrow> comm_venc_h264_vbr_param_init attr gop stats_time frame_rate
            | RC_AVBR \<Rightarrow> comm_venc_h264_avbr_param_init attr gop stats_time frame_rate
            | RC_CVBR \<Rightarrow> comm_venc_h264_cvbr_param_init junk attr gop stats_time frame_rate (cp_size p)
            | RC_QVBR \<Rightarrow> comm_venc_h264_qvbr_param_init attr gop stats_time frame_rate
            | RC_QPMAP \<Rightarrow> comm_venc_h264_qpmap_param_init attr gop frame_rate stats_time)
      in (TD_SUCCESS, set_rcn_ref_share_buf (cp_is_rcn_ref_share_buf p) attr))"

definition comm_venc_mjpeg_param_init :: "ot_venc_chn_attr \<Rightarrow> venc_chn_param \<Rightarrow> td_s32 \<times> ot_venc_chn_attr" where
  "comm_venc_mjpeg_param_init attr p =
     (case cp_rc_mode p of
        RC_FIXQP \<Rightarrow> (TD_SUCCESS, comm_venc_mjpeg_fixqp_param_init attr (cp_frame_rate p))
      | RC_CBR \<Rightarrow> (TD_SUCCESS, comm_venc_mjpeg_cbr_param_init attr (cp_stats_time p) (cp_frame_rate p))
      | RC_VBR \<Rightarrow> (TD_SUCCESS, comm_venc_mjpeg_vbr_param_init attr (cp_stats_time p) (cp_frame_rate p))
      | RC_AVBR \<Rightarrow> (TD_SUCCESS, comm_venc_mjpeg_vbr_param_init attr (cp_stats_time p) (cp_frame_rate p))
      | _ \<Rightarrow> (TD_FAILURE, attr))"

section \<open>Channel attributes\<close>

definition comm_venc_set_gop_attr ::
  "ot_payload_type \<Rightarrow> ot_venc_chn_attr \<Rightarrow> ot_venc_gop_attr \<Rightarrow> ot_venc_chn_attr" where
  "comm_venc_set_gop_attr type attr gop =
     (if type = OT_PT_MJPEG \<or> type = OT_PT_JPEG
      then attr\<lparr>gop_attr := \<lparr>gop_mode = OT_VENC_GOP_MODE_NORMAL_P, gop_arm = NormalP 0\<rparr>\<rparr>
      else let attr = attr\<lparr>gop_attr := gop\<rparr>
       in if gop_mode gop = OT_VENC_GOP_MODE_BIPRED_B \<and> type = OT_PT_H264 \<and> va_profile (venc_attr attr) = 0
          then attr\<lparr>venc_attr := (venc_attr attr)\<lparr>va_profile := 1\<rparr>\<rparr>
          else attr)"

definition OT_ALIGN_UP :: "u32 \<Rightarrow> u32 \<Rightarrow> u32" where
  "OT_ALIGN_UP x a = ((x + (a - 1)) div a) * a"

text \<open>
  \<open>smart_p.bg_interval\<close> is the first word of the union, whichever arm it holds.  A division by a
  zero \<open>gop\<close> is undefined.
\<close>

fun bg_interval :: "gop_union \<Rightarrow> u32" where
  "bg_interval ZeroGop = 0"
| "bg_interval (NormalP d) = word_of_int d"
| "bg_interval (SmartP n _ _) = n"
| "bg_interval (SmartCrr n _ _ _ _ _) = n"
| "bg_interval (DualP n _ _) = n"
| "bg_interval (BipredB n _ _) = n"

definition venc_attr_init :: "venc_chn_param \<Rightarrow> ot_venc_chn_attr \<Rightarrow> ot_venc_chn_attr" where
  "venc_attr_init p attr =
     (let w = width (cp_venc_size p); h = height (cp_venc_size p); type = cp_type p
      in attr\<lparr>venc_attr := (venc_attr attr)\<lparr>va_type := type, va_max_pic_width := w, va_max_pic_height := h,
           va_pic_width := w, va_pic_height := h,
           va_buf_size := (if type = OT_PT_MJPEG \<or> type = OT_PT_JPEG
             then OT_ALIGN_UP w 16 * OT_ALIGN_UP h 16 * 4
             else OT_ALIGN_UP (w * h * 3 div 4) 64),
           va_profile := cp_profile p, va_is_by_frame := True\<rparr>\<rparr>)"

definition comm_venc_channel_param_init ::
  "rc_cvbr \<Rightarrow> venc_chn_param \<Rightarrow> ot_venc_chn_attr \<Rightarrow> (td_s32 \<times> venc_chn_param \<times> ot_venc_chn_attr) checked" where
  "comm_venc_channel_param_init junk p attr =
     (let attr = venc_attr_init p attr;
          smart = (gop_mode (cp_gop_attr p) = OT_VENC_GOP_MODE_SMART_P)
      in if smart \<and> cp_gop p = 0 then Inl DivideByZero
         else let p = (if smart then p\<lparr>cp_stats_time := bg_interval (gop_arm (cp_gop_attr p)) div cp_gop p\<rparr> else p)
          in case cp_type p of
               OT_PT_H265 \<Rightarrow> (let (ret, attr) = comm_venc_h265_param_init junk attr p
                 in Inr (ret, p, comm_venc_set_gop_attr (cp_type p) attr (cp_gop_attr p)))
             | OT_PT_H264 \<Rightarrow> (let (ret, attr) = comm_venc_h264_param_init junk attr p
                 in Inr (ret, p, comm_venc_set_gop_attr (cp_type p) attr (cp_gop_attr p)))
             | OT_PT_MJPEG \<Rightarrow> (let (ret, attr) = comm_venc_mjpeg_param_init attr p
                 in Inr (ret, p, comm_venc_set_gop_attr (cp_type p) attr (cp_gop_attr p)))
             | OT_PT_JPEG \<Rightarrow> Inr (TD_SUCCESS, p, comm_venc_set_gop_attr (cp_type p) attr (cp_gop_attr p))
             | OT_PT_SVAC3 \<Rightarrow> Inr (TD_SUCCESS, p, comm_venc_set_gop_attr (cp_type p) attr (cp_gop_attr p))
             | _ \<Rightarrow> Inr (OT_ERR_VENC_NOT_SUPPORT, p, attr))"

section \<open>Creating and starting a channel\<close>

definition reencode_modes :: "ot_venc_rc_mode set" where
  "reencode_modes =
     {OT_VENC_RC_MODE_H264_ABR, OT_VENC_RC_MODE_H264_CBR, OT_VENC_RC_MODE_H264_VBR, OT_VENC_RC_MODE_H264_AVBR,
      OT_VENC_RC_MODE_H264_QVBR, OT_VENC_RC_MODE_H264_CVBR, OT_VENC_RC_MODE_H265_ABR, OT_VENC_RC_MODE_H265_CBR,
      OT_VENC_RC_MODE_H265_VBR, OT_VENC_RC_MODE_H265_AVBR, OT_VENC_RC_MODE_H265_QVBR, OT_VENC_RC_MODE_H265_CVBR,
      OT_VENC_RC_MODE_SVAC3_ABR, OT_VENC_RC_MODE_SVAC3_CBR, OT_VENC_RC_MODE_SVAC3_VBR, OT_VENC_RC_MODE_SVAC3_AVBR,
      OT_VENC_RC_MODE_SVAC3_QVBR, OT_VENC_RC_MODE_SVAC3_CVBR}"

text \<open>The rate-control mode is the one the driver reports for the channel.\<close>

definition comm_venc_close_reencode :: "mpp_env \<Rightarrow> int \<Rightarrow> td_s32 mpp" where
  "comm_venc_close_reencode env chn =
     mpp_get (\<lambda>v. env_rc_mode env (trace v) chn) (\<lambda>mode.
       on_fail (mpi env (ss_mpi_venc_get_chn_attr chn)) (\<lambda>_. mpp_return TD_FAILURE)
      (on_fail (mpi env (ss_mpi_venc_get_rc_param chn)) (\<lambda>_. mpp_return TD_FAILURE)
      (if mode \<notin> reencode_modes then mpp_return TD_SUCCESS
       else on_fail (mpi env (ss_mpi_venc_set_rc_param chn \<lparr>rp_arm = mode, rp_max_reencode_times = 0\<rparr>))
              (\<lambda>_. mpp_return TD_FAILURE) (mpp_return TD_SUCCESS))))"

text \<open>
  \<open>pic_size_array\<close> is read inside its bounds here: the size is checked first.  The parameter block
  is not read again after the channel was created.
\<close>

definition comm_venc_create :: "mpp_env \<Rightarrow> rc_cvbr \<Rightarrow> int \<Rightarrow> venc_chn_param \<Rightarrow> td_s32 mpp" where
  "comm_venc_create env junk chn p =
     (case pic_lookup (cp_size p) of
        None \<Rightarrow> mpp_return TD_FAILURE
      | Some z \<Rightarrow>
          (case comm_venc_channel_param_init junk (p\<lparr>cp_venc_size := z\<rparr>) zero_chn_attr of
             Inl e \<Rightarrow> (\<lambda>v. Inl e)
           | Inr (ret, p, attr) \<Rightarrow>
               if ret \<noteq> TD_SUCCESS then mpp_return ret
               else on_fail (mpi env (ss_mpi_venc_create_chn chn attr)) mpp_return
                (if cp_type p = OT_PT_JPEG then mpp_return TD_SUCCESS
                 else on_fail (comm_venc_close_reencode env chn)
                   (\<lambda>ret. then_mpi env (ss_mpi_venc_destroy_chn chn) (mpp_return ret))
                   (mpp_return TD_SUCCESS))))"

definition comm_venc_start :: "mpp_env \<Rightarrow> rc_cvbr \<Rightarrow> int \<Rightarrow> venc_chn_param \<Rightarrow> td_s32 mpp" where
  "comm_venc_start env junk chn p =
     on_fail (comm_venc_create env junk chn p) (\<lambda>_. mpp_return TD_FAILURE)
    (on_fail (mpi env (ss_mpi_venc_start_chn chn (- 1)))
       (\<lambda>_. then_mpi env (ss_mpi_venc_destroy_chn chn) (mpp_return TD_FAILURE))
       (mpp_return TD_SUCCESS))"

definition bind_vpss_venc :: "mpp_env \<Rightarrow> int \<Rightarrow> int \<Rightarrow> int \<Rightarrow> td_s32 mpp" where
  "bind_vpss_venc env vpss_grp vpss_chn venc_chn =
     on_fail (mpi env (ss_mpi_sys_bind \<lparr>mod_id = ''OT_ID_VPSS'', dev_id = vpss_grp, chn_id = vpss_chn\<rparr>
                                       \<lparr>mod_id = ''OT_ID_VENC'', dev_id = 0, chn_id = venc_chn\<rparr>))
       (\<lambda>_. mpp_return TD_FAILURE) (mpp_return TD_SUCCESS)"

section \<open>GOP, channel and module parameters\<close>

definition comm_venc_get_gop_attr :: "ot_venc_gop_mode \<Rightarrow> ot_venc_gop_attr \<Rightarrow> td_s32 \<times> ot_venc_gop_attr" where
  "comm_venc_get_gop_attr mode gop =
     (case mode of
        OT_VENC_GOP_MODE_NORMAL_P \<Rightarrow> (TD_SUCCESS, \<lparr>gop_mode = mode, gop_arm = NormalP 2\<rparr>)
      | OT_VENC_GOP_MODE_SMART_P \<Rightarrow> (TD_SUCCESS, \<lparr>gop_mode = mode, gop_arm = SmartP 180 4 2\<rparr>)
      | OT_VENC_GOP_MODE_SMART_CRR \<Rightarrow>
          (TD_SUCCESS, \<lparr>gop_mode = mode, gop_arm = SmartCrr 300 10 3 4 0 OT_VENC_CRR_RECODE_DISABLE\<rparr>)
      | OT_VENC_GOP_MODE_DUAL_P \<Rightarrow> (TD_SUCCESS, \<lparr>gop_mode = mode, gop_arm = DualP 3 2 4\<rparr>)
      | OT_VENC_GOP_MODE_BIPRED_B \<Rightarrow> (TD_SUCCESS, \<lparr>gop_mode = mode, gop_arm = BipredB 2 (- 2) 3\<rparr>)
      | _ \<Rightarrow> (TD_FAILURE, gop))"

definition maxFrameRate :: u32 where "maxFrameRate = 30"
definition subVencFrameRate :: u32 where "subVencFrameRate = 10"

text \<open>
  The array of parameter blocks is a list; \<open>chn_num\<close> is the caller's count of its elements, and the
  function writes the first three.  \<open>venc_size\<close> keeps its value.
\<close>

definition venc_set_video_param ::
  "venc_chn_param list \<Rightarrow> u32 \<Rightarrow> ot_venc_gop_attr \<Rightarrow> (td_s32 \<times> venc_chn_param list) checked" where
  "venc_set_video_param ps chn_num gop =
     (if chn_num \<le> 2 then Inr (TD_FAILURE, ps)
      else if length ps < 3 then Inl OutOfBounds
      else Inr (TD_SUCCESS, ps
        [0 := (ps ! 0)\<lparr>cp_frame_rate := maxFrameRate, cp_gop := 60, cp_stats_time := 2, cp_gop_attr := gop,
               cp_type := OT_PT_H265, cp_size := PIC_2560X1440, cp_rc_mode := RC_CBR, cp_profile := 0,
               cp_is_rcn_ref_share_buf := True\<rparr>,
         1 := (ps ! 1)\<lparr>cp_frame_rate := maxFrameRate, cp_gop := 60, cp_stats_time := 2, cp_gop_attr := gop,
               cp_type := OT_PT_H264, cp_size := PIC_720P, cp_rc_mode := RC_CBR, cp_profile := 0,
               cp_is_rcn_ref_share_buf := True\<rparr>,
         2 := (ps ! 2)\<lparr>cp_frame_rate := subVencFrameRate, cp_gop := 60, cp_stats_time := 2, cp_gop_attr := gop,
               cp_type := OT_PT_MJPEG, cp_size := PIC_360P, cp_rc_mode := RC_CBR, cp_profile := 0,
               cp_is_rcn_ref_share_buf := True\<rparr>]))"

fun comm_venc_set_mod_type :: "Pay_load_type \<Rightarrow> ot_venc_mod_param \<Rightarrow> td_s32 \<times> ot_venc_mod_param" where
  "comm_venc_set_mod_type PAYLOAD_TYPE_H264 m = (TD_SUCCESS, m\<lparr>mod_type := OT_VENC_MOD_H264\<rparr>)"
| "comm_venc_set_mod_type PAYLOAD_TYPE_H265 m = (TD_SUCCESS, m\<lparr>mod_type := OT_VENC_MOD_H265\<rparr>)"
| "comm_venc_set_mod_type PAYLOAD_TYPE_MJPEG m = (TD_SUCCESS, m\<lparr>mod_type := OT_VENC_MOD_JPEG\<rparr>)"
| "comm_venc_set_mod_type PAYLOAD_TYPE_MAX m = (TD_FAILURE, m)"

fun comm_venc_set_mini_buf :: "Pay_load_type \<Rightarrow> ot_venc_mod_param \<Rightarrow> td_s32 \<times> ot_venc_mod_param" where
  "comm_venc_set_mini_buf PAYLOAD_TYPE_MAX m = (TD_FAILURE, m)"
| "comm_venc_set_mini_buf _ m = (TD_SUCCESS, m\<lparr>mini_buf_mode := 1\<rparr>)"

text \<open>
  The loop over the payload types; the driver fills in \<open>mod_param\<close> in each turn.  Its type is set
  before the first use, so the zero it starts with does not matter.
\<close>

fun mini_buf_loop :: "mpp_env \<Rightarrow> Pay_load_type list \<Rightarrow> ot_venc_mod_param \<Rightarrow> td_s32 mpp" where
  "mini_buf_loop env [] m = mpp_return TD_SUCCESS"
| "mini_buf_loop env (t # ts) m =
     (case comm_venc_set_mod_type t m of (ret, m) \<Rightarrow>
        if ret \<noteq> TD_SUCCESS then mpp_return TD_FAILURE
        else mpp_get (\<lambda>v. env_mod_param env (trace v) m) (\<lambda>filled.
          on_fail (mpi env (ss_mpi_venc_get_mod_param (mod_type m))) (\<lambda>_. mpp_return TD_FAILURE)
         (case comm_venc_set_mini_buf t filled of (ret, m) \<Rightarrow>
            if ret \<noteq> TD_SUCCESS then mpp_return TD_FAILURE
            else on_fail (mpi env (ss_mpi_venc_set_mod_param m)) (\<lambda>_. mpp_return TD_FAILURE)
                   (mini_buf_loop env ts m))))"

definition comm_venc_mini_buf_en :: "mpp_env \<Rightarrow> td_s32 mpp" where
  "comm_venc_mini_buf_en env =
     mini_buf_loop env [PAYLOAD_TYPE_H264, PAYLOAD_TYPE_H265, PAYLOAD_TYPE_MJPEG]
       \<lparr>mod_type = OT_VENC_MOD_VENC, mini_buf_mode = 0, mod_rest = []\<rparr>"

section \<open>Well-formed attributes\<close>

fun arm_mode :: "rc_union \<Rightarrow> ot_venc_rc_mode" where
  "arm_mode ZeroRc = RC_MODE_ZERO"
| "arm_mode (H264Abr _) = OT_VENC_RC_MODE_H264_ABR" | "arm_mode (H264Cbr _) = OT_VENC_RC_MODE_H264_CBR"
| "arm_mode (H264Vbr _) = OT_VENC_RC_MODE_H264_VBR" | "arm_mode (H264Avbr _) = OT_VENC_RC_MODE_H264_AVBR"
| "arm_mode (H264Qvbr _) = OT_VENC_RC_MODE_H264_QVBR" | "arm_mode (H264Cvbr _) = OT_VENC_RC_MODE_H264_CVBR"
| "arm_mode (H264Fixqp _) = OT_VENC_RC_MODE_H264_FIXQP" | "arm_mode (H264Qpmap _) = OT_VENC_RC_MODE_H264_QPMAP"
| "arm_mode (H265Abr _) = OT_VENC_RC_MODE_H265_ABR" | "arm_mode (H265Cbr _) = OT_VENC_RC_MODE_H265_CBR"
| "arm_mode (H265Vbr _) = OT_VENC_RC_MODE_H265_VBR" | "arm_mode (H265Avbr _) = OT_VENC_RC_MODE_H265_AVBR"
| "arm_mode (H265Qvbr _) = OT_VENC_RC_MODE_H265_QVBR" | "arm_mode (H265Cvbr _) = OT_VENC_RC_MODE_H265_CVBR"
| "arm_mode (H265Fixqp _) = OT_VENC_RC_MODE_H265_FIXQP" | "arm_mode (H265Qpmap _ _) = OT_VENC_RC_MODE_H265_QPMAP"
| "arm_mode (MjpegCbr _) = OT_VENC_RC_MODE_MJPEG_CBR" | "arm_mode (MjpegVbr _) = OT_VENC_RC_MODE_MJPEG_VBR"
| "arm_mode (MjpegFixqp _) = OT_VENC_RC_MODE_MJPEG_FIXQP"

text \<open>The codec a rate-control mode belongs to, and the arm of the codec attributes.\<close>

fun mode_type :: "rc_union \<Rightarrow> ot_payload_type" where
  "mode_type ZeroRc = PT_ZERO"
| "mode_type (MjpegCbr _) = OT_PT_MJPEG" | "mode_type (MjpegVbr _) = OT_PT_MJPEG" | "mode_type (MjpegFixqp _) = OT_PT_MJPEG"
| "mode_type (H264Abr _) = OT_PT_H264" | "mode_type (H264Cbr _) = OT_PT_H264" | "mode_type (H264Vbr _) = OT_PT_H264"
| "mode_type (H264Avbr _) = OT_PT_H264" | "mode_type (H264Qvbr _) = OT_PT_H264" | "mode_type (H264Cvbr _) = OT_PT_H264"
| "mode_type (H264Fixqp _) = OT_PT_H264" | "mode_type (H264Qpmap _) = OT_PT_H264"
| "mode_type _ = OT_PT_H265"

fun gop_tagged :: "ot_venc_gop_mode \<Rightarrow> gop_union \<Rightarrow> bool" where
  "gop_tagged OT_VENC_GOP_MODE_NORMAL_P (NormalP _) = True"
| "gop_tagged OT_VENC_GOP_MODE_SMART_P (SmartP _ _ _) = True"
| "gop_tagged OT_VENC_GOP_MODE_SMART_CRR (SmartCrr _ _ _ _ _ _) = True"
| "gop_tagged OT_VENC_GOP_MODE_DUAL_P (DualP _ _ _) = True"
| "gop_tagged OT_VENC_GOP_MODE_BIPRED_B (BipredB _ _ _) = True"
| "gop_tagged _ _ = False"

definition well_tagged :: "ot_venc_chn_attr \<Rightarrow> bool" where
  "well_tagged attr \<longleftrightarrow>
     rc_mode (rc_attr attr) = arm_mode (rc_arm (rc_attr attr))
   \<and> mode_type (rc_arm (rc_attr attr)) = va_type (venc_attr attr)
   \<and> (case va_type (venc_attr attr) of
        OT_PT_H264 \<Rightarrow> \<exists>en ratio. va_arm (venc_attr attr) = H264Attr en ratio
      | OT_PT_H265 \<Rightarrow> \<exists>en ratio. va_arm (venc_attr attr) = H265Attr en ratio
      | _ \<Rightarrow> True)
   \<and> gop_tagged (gop_mode (gop_attr attr)) (gop_arm (gop_attr attr))"

definition coded_types :: "ot_payload_type set" where
  "coded_types = {OT_PT_H264, OT_PT_H265, OT_PT_MJPEG}"

lemmas rc_init_defs =
  comm_venc_h265_abr_param_init_def comm_venc_h265_cbr_param_init_def comm_venc_h265_fixqp_param_init_def
  comm_venc_h265_vbr_param_init_def comm_venc_h265_avbr_param_init_def comm_venc_h265_cvbr_param_init_def
  comm_venc_h265_qvbr_param_init_def comm_venc_h265_qpmap_param_init_def
  comm_venc_h264_abr_param_init_def comm_venc_h264_cbr_param_init_def comm_venc_h264_fixqp_param_init_def
  comm_venc_h264_vbr_param_init_def comm_venc_h264_avbr_param_init_def comm_venc_h264_cvbr_param_init_def
  comm_venc_h264_qvbr_param_init_def comm_venc_h264_qpmap_param_init_def
  comm_venc_mjpeg_fixqp_param_init_def comm_venc_mjpeg_cbr_param_init_def comm_venc_mjpeg_vbr_param_init_def

lemmas codec_init_defs =
  comm_venc_h265_param_init_def comm_venc_h264_param_init_def comm_venc_mjpeg_param_init_def

lemmas chn_attr_defs =
  comm_venc_channel_param_init_def venc_attr_init_def zero_chn_attr_def set_rc_def
  set_frame_buf_ratio_def set_rcn_ref_share_buf_def comm_venc_set_gop_attr_def

text \<open>The parameters after the adjustment for SMART-P.\<close>

definition smart_stats :: "venc_chn_param \<Rightarrow> u32" where
  "smart_stats p = (if gop_mode (cp_gop_attr p) = OT_VENC_GOP_MODE_SMART_P
     then bg_interval (gop_arm (cp_gop_attr p)) div cp_gop p else cp_stats_time p)"

text \<open>The attributes before the GOP part is set, for the three codecs.\<close>

definition rc_attr_of :: "rc_cvbr \<Rightarrow> venc_chn_param \<Rightarrow> td_s32 \<times> ot_venc_chn_attr" where
  "rc_attr_of junk p =
     (let p' = p\<lparr>cp_stats_time := smart_stats p\<rparr>; attr = venc_attr_init p zero_chn_attr
      in case cp_type p of
           OT_PT_H265 \<Rightarrow> comm_venc_h265_param_init junk attr p'
         | OT_PT_H264 \<Rightarrow> comm_venc_h264_param_init junk attr p'
         | _ \<Rightarrow> comm_venc_mjpeg_param_init attr p')"

lemma param_init_coded:
  assumes "comm_venc_channel_param_init junk p zero_chn_attr = Inr (ret, p', attr)" and "cp_type p \<in> coded_types"
  shows "ret = fst (rc_attr_of junk p)"
    and "attr = comm_venc_set_gop_attr (cp_type p) (snd (rc_attr_of junk p)) (cp_gop_attr p)"
    and "p' = p\<lparr>cp_stats_time := smart_stats p\<rparr>"
  using assms
  by (auto simp: comm_venc_channel_param_init_def rc_attr_of_def smart_stats_def coded_types_def Let_def
      split: if_splits prod.splits)

text \<open>The GOP part changes neither rate control nor codec arm nor type.\<close>

lemma set_gop_attr_other [simp]:
  "rc_attr (comm_venc_set_gop_attr type attr gop) = rc_attr attr"
  "va_arm (venc_attr (comm_venc_set_gop_attr type attr gop)) = va_arm (venc_attr attr)"
  "va_type (venc_attr (comm_venc_set_gop_attr type attr gop)) = va_type (venc_attr attr)"
  "va_buf_size (venc_attr (comm_venc_set_gop_attr type attr gop)) = va_buf_size (venc_attr attr)"
  by (simp_all add: comm_venc_set_gop_attr_def Let_def)

lemma set_gop_attr_tagged:
  "gop_tagged (gop_mode gop) (gop_arm gop) \<Longrightarrow>
     gop_tagged (gop_mode (gop_attr (comm_venc_set_gop_attr type attr gop)))
       (gop_arm (gop_attr (comm_venc_set_gop_attr type attr gop)))"
  by (auto simp: comm_venc_set_gop_attr_def Let_def)

lemma rc_attr_of_tagged:
  assumes "cp_type p \<in> coded_types" and "fst (rc_attr_of junk p) = 0"
  shows "rc_mode (rc_attr (snd (rc_attr_of junk p))) = arm_mode (rc_arm (rc_attr (snd (rc_attr_of junk p))))"
    and "mode_type (rc_arm (rc_attr (snd (rc_attr_of junk p)))) = va_type (venc_attr (snd (rc_attr_of junk p)))"
    and "va_type (venc_attr (snd (rc_attr_of junk p))) = cp_type p"
    and "case cp_type p of
        OT_PT_H264 \<Rightarrow> \<exists>en ratio. va_arm (venc_attr (snd (rc_attr_of junk p))) = H264Attr en ratio
      | OT_PT_H265 \<Rightarrow> \<exists>en ratio. va_arm (venc_attr (snd (rc_attr_of junk p))) = H265Attr en ratio
      | _ \<Rightarrow> True"
  using assms
  by (cases "cp_type p"; cases "cp_rc_mode p";
      simp add: coded_types_def rc_attr_of_def codec_init_defs rc_init_defs chn_attr_defs Let_def)+

text \<open>
  C24: the attributes a successful initialisation builds are well tagged: the rate-control mode, the
  arm of its union, the arm of the codec attributes and the GOP mode all belong to the payload type.
  MJPEG is refused for the modes it does not have, and every other type of payload as not supported,
  except JPEG and SVAC3: although reported as not supported, they return success with no rate
  control at all.
\<close>

theorem venc_attr_tagged:
  assumes "comm_venc_channel_param_init junk p zero_chn_attr = Inr (ret, p', attr)"
    and "gop_tagged (gop_mode (cp_gop_attr p)) (gop_arm (cp_gop_attr p))"
  shows "(cp_type p \<in> coded_types \<longrightarrow> va_type (venc_attr attr) = cp_type p \<and> (ret = 0 \<longrightarrow> well_tagged attr)
       \<and> (ret \<noteq> 0 \<longleftrightarrow> cp_type p = OT_PT_MJPEG \<and> cp_rc_mode p \<in> {RC_ABR, RC_CVBR, RC_QVBR, RC_QPMAP}))
    \<and> (cp_type p \<in> {OT_PT_JPEG, OT_PT_SVAC3} \<longrightarrow> ret = 0 \<and> rc_mode (rc_attr attr) = RC_MODE_ZERO)
    \<and> (cp_type p \<notin> coded_types \<union> {OT_PT_JPEG, OT_PT_SVAC3} \<longrightarrow> ret = OT_ERR_VENC_NOT_SUPPORT \<and> ret \<noteq> 0)"
proof (cases "cp_type p \<in> coded_types")
  case True
  note init = param_init_coded [OF assms(1) True]
  have "va_type (venc_attr (snd (rc_attr_of junk p))) = cp_type p"
    and "fst (rc_attr_of junk p) \<noteq> 0
      \<longleftrightarrow> cp_type p = OT_PT_MJPEG \<and> cp_rc_mode p \<in> {RC_ABR, RC_CVBR, RC_QVBR, RC_QPMAP}"
    using True
    by (cases "cp_type p"; cases "cp_rc_mode p";
        simp add: coded_types_def rc_attr_of_def codec_init_defs rc_init_defs chn_attr_defs Let_def)+
  moreover have "well_tagged attr" if "ret = 0"
    using rc_attr_of_tagged [of p junk] True that assms(2)
    by (cases "cp_type p") (simp_all add: well_tagged_def init set_gop_attr_tagged)
  ultimately show ?thesis using True init(1) by (auto simp: coded_types_def init(2))
next
  case False
  then show ?thesis
    using assms(1)
    by (cases "cp_type p")
      (auto simp: comm_venc_channel_param_init_def coded_types_def OT_ERR_VENC_NOT_SUPPORT_def venc_attr_init_def
        zero_chn_attr_def Let_def split: if_splits)
qed

definition demo_param :: "ot_payload_type \<Rightarrow> rc_mode \<Rightarrow> venc_chn_param" where
  "demo_param type mode =
     \<lparr>cp_frame_rate = 30, cp_stats_time = 2, cp_gop = 60, cp_size = PIC_720P,
      cp_venc_size = \<lparr>width = 1280, height = 720\<rparr>, cp_profile = 0, cp_is_rcn_ref_share_buf = True,
      cp_gop_attr = \<lparr>gop_mode = OT_VENC_GOP_MODE_NORMAL_P, gop_arm = NormalP 2\<rparr>, cp_type = type, cp_rc_mode = mode\<rparr>"

lemma param_init_defined:
  "\<not> (gop_mode (cp_gop_attr p) = OT_VENC_GOP_MODE_SMART_P \<and> cp_gop p = 0) \<Longrightarrow>
     \<exists>ret p' attr. comm_venc_channel_param_init junk p zero_chn_attr = Inr (ret, p', attr)"
  by (cases "cp_type p") (simp_all add: comm_venc_channel_param_init_def Let_def split_beta)

lemma demo_param_defined:
  obtains ret p' attr where "comm_venc_channel_param_init junk (demo_param type mode) zero_chn_attr = Inr (ret, p', attr)"
  using param_init_defined [of "demo_param type mode" junk] by (auto simp: demo_param_def)

theorem venc_attr_tagged_witness:
  "\<exists>ret p' attr. comm_venc_channel_param_init no_cvbr (demo_param OT_PT_H265 RC_QPMAP) zero_chn_attr = Inr (ret, p', attr)
     \<and> ret = 0 \<and> well_tagged attr"
proof -
  obtain ret p' attr where
    i: "comm_venc_channel_param_init no_cvbr (demo_param OT_PT_H265 RC_QPMAP) zero_chn_attr = Inr (ret, p', attr)"
    by (rule demo_param_defined)
  have "gop_tagged (gop_mode (cp_gop_attr (demo_param OT_PT_H265 RC_QPMAP)))
      (gop_arm (cp_gop_attr (demo_param OT_PT_H265 RC_QPMAP)))"
    by (simp add: demo_param_def)
  from venc_attr_tagged [OF i this] have "ret = 0 \<and> well_tagged attr"
    by (auto simp: coded_types_def demo_param_def)
  with i show ?thesis by blast
qed

section \<open>Timing and bit rates\<close>

fun rc_gop :: "rc_union \<Rightarrow> u32 option" where
  "rc_gop (H264Abr c) = Some (abr_gop c)" | "rc_gop (H265Abr c) = Some (abr_gop c)"
| "rc_gop (H264Cbr c) = Some (xbr_gop c)" | "rc_gop (H265Cbr c) = Some (xbr_gop c)"
| "rc_gop (H264Vbr c) = Some (xbr_gop c)" | "rc_gop (H265Vbr c) = Some (xbr_gop c)"
| "rc_gop (H264Avbr c) = Some (xbr_gop c)" | "rc_gop (H265Avbr c) = Some (xbr_gop c)"
| "rc_gop (H264Qvbr c) = Some (xbr_gop c)" | "rc_gop (H265Qvbr c) = Some (xbr_gop c)"
| "rc_gop (H264Cvbr c) = Some (cvbr_gop c)" | "rc_gop (H265Cvbr c) = Some (cvbr_gop c)"
| "rc_gop (H264Fixqp c) = Some (fixqp_gop c)" | "rc_gop (H265Fixqp c) = Some (fixqp_gop c)"
| "rc_gop (H264Qpmap c) = Some (qpmap_gop c)" | "rc_gop (H265Qpmap c _) = Some (qpmap_gop c)"
| "rc_gop _ = None"

fun rc_stats_time :: "rc_union \<Rightarrow> u32 option" where
  "rc_stats_time (H264Abr c) = Some (abr_stats_time c)" | "rc_stats_time (H265Abr c) = Some (abr_stats_time c)"
| "rc_stats_time (H264Cbr c) = Some (xbr_stats_time c)" | "rc_stats_time (H265Cbr c) = Some (xbr_stats_time c)"
| "rc_stats_time (H264Vbr c) = Some (xbr_stats_time c)" | "rc_stats_time (H265Vbr c) = Some (xbr_stats_time c)"
| "rc_stats_time (H264Avbr c) = Some (xbr_stats_time c)" | "rc_stats_time (H265Avbr c) = Some (xbr_stats_time c)"
| "rc_stats_time (H264Qvbr c) = Some (xbr_stats_time c)" | "rc_stats_time (H265Qvbr c) = Some (xbr_stats_time c)"
| "rc_stats_time (H264Cvbr c) = Some (cvbr_stats_time c)" | "rc_stats_time (H265Cvbr c) = Some (cvbr_stats_time c)"
| "rc_stats_time (H264Qpmap c) = Some (qpmap_stats_time c)" | "rc_stats_time (H265Qpmap c _) = Some (qpmap_stats_time c)"
| "rc_stats_time (MjpegCbr c) = Some (mjb_stats_time c)" | "rc_stats_time (MjpegVbr c) = Some (mjb_stats_time c)"
| "rc_stats_time _ = None"

fun rc_frame_rates :: "rc_union \<Rightarrow> u32 \<times> u32" where
  "rc_frame_rates (H264Abr c) = (abr_src_frame_rate c, abr_dst_frame_rate c)"
| "rc_frame_rates (H265Abr c) = (abr_src_frame_rate c, abr_dst_frame_rate c)"
| "rc_frame_rates (H264Cbr c) = (xbr_src_frame_rate c, xbr_dst_frame_rate c)"
| "rc_frame_rates (H265Cbr c) = (xbr_src_frame_rate c, xbr_dst_frame_rate c)"
| "rc_frame_rates (H264Vbr c) = (xbr_src_frame_rate c, xbr_dst_frame_rate c)"
| "rc_frame_rates (H265Vbr c) = (xbr_src_frame_rate c, xbr_dst_frame_rate c)"
| "rc_frame_rates (H264Avbr c) = (xbr_src_frame_rate c, xbr_dst_frame_rate c)"
| "rc_frame_rates (H265Avbr c) = (xbr_src_frame_rate c, xbr_dst_frame_rate c)"
| "rc_frame_rates (H264Qvbr c) = (xbr_src_frame_rate c, xbr_dst_frame_rate c)"
| "rc_frame_rates (H265Qvbr c) = (xbr_src_frame_rate c, xbr_dst_frame_rate c)"
| "rc_frame_rates (H264Cvbr c) = (cvbr_src_frame_rate c, cvbr_dst_frame_rate c)"
| "rc_frame_rates (H265Cvbr c) = (cvbr_src_frame_rate c, cvbr_dst_frame_rate c)"
| "rc_frame_rates (H264Fixqp c) = (fixqp_src_frame_rate c, fixqp_dst_frame_rate c)"
| "rc_frame_rates (H265Fixqp c) = (fixqp_src_frame_rate c, fixqp_dst_frame_rate c)"
| "rc_frame_rates (H264Qpmap c) = (qpmap_src_frame_rate c, qpmap_dst_frame_rate c)"
| "rc_frame_rates (H265Qpmap c _) = (qpmap_src_frame_rate c, qpmap_dst_frame_rate c)"
| "rc_frame_rates (MjpegCbr c) = (mjb_src_frame_rate c, mjb_dst_frame_rate c)"
| "rc_frame_rates (MjpegVbr c) = (mjb_src_frame_rate c, mjb_dst_frame_rate c)"
| "rc_frame_rates (MjpegFixqp c) = (mj_src_frame_rate c, mj_dst_frame_rate c)"
| "rc_frame_rates ZeroRc = (0, 0)"

text \<open>The plain, maximal or target bit rate of the modes without a table of their own.\<close>

fun rc_bit_rate :: "rc_union \<Rightarrow> u32 option" where
  "rc_bit_rate (H264Abr c) = Some (abr_bit_rate c)" | "rc_bit_rate (H265Abr c) = Some (abr_bit_rate c)"
| "rc_bit_rate (H264Cbr c) = Some (xbr_bit_rate c)" | "rc_bit_rate (H265Cbr c) = Some (xbr_bit_rate c)"
| "rc_bit_rate (H264Vbr c) = Some (xbr_bit_rate c)" | "rc_bit_rate (H265Vbr c) = Some (xbr_bit_rate c)"
| "rc_bit_rate (H264Avbr c) = Some (xbr_bit_rate c)" | "rc_bit_rate (H265Avbr c) = Some (xbr_bit_rate c)"
| "rc_bit_rate (H264Qvbr c) = Some (xbr_bit_rate c)" | "rc_bit_rate (H265Qvbr c) = Some (xbr_bit_rate c)"
| "rc_bit_rate (MjpegCbr c) = Some (mjb_bit_rate c)" | "rc_bit_rate (MjpegVbr c) = Some (mjb_bit_rate c)"
| "rc_bit_rate _ = None"

definition codec_rate :: "ot_payload_type \<Rightarrow> u64" where
  "codec_rate type = (if type = OT_PT_H265 then 3072 else if type = OT_PT_H264 then 4096 else 20480)"

lemma cvbr_bit_rate_other [simp]:
  "cvbr_gop (comm_venc_set_h265_cvbr_bit_rate attr c fr sz) = cvbr_gop c"
  "cvbr_stats_time (comm_venc_set_h265_cvbr_bit_rate attr c fr sz) = cvbr_stats_time c"
  "cvbr_src_frame_rate (comm_venc_set_h265_cvbr_bit_rate attr c fr sz) = cvbr_src_frame_rate c"
  "cvbr_dst_frame_rate (comm_venc_set_h265_cvbr_bit_rate attr c fr sz) = cvbr_dst_frame_rate c"
  "cvbr_gop (comm_venc_set_h264_cvbr_bit_rate attr c fr sz) = cvbr_gop c"
  "cvbr_stats_time (comm_venc_set_h264_cvbr_bit_rate attr c fr sz) = cvbr_stats_time c"
  "cvbr_src_frame_rate (comm_venc_set_h264_cvbr_bit_rate attr c fr sz) = cvbr_src_frame_rate c"
  "cvbr_dst_frame_rate (comm_venc_set_h264_cvbr_bit_rate attr c fr sz) = cvbr_dst_frame_rate c"
  by (simp_all add: cvbr_defs split: PicSize.split)

lemma rc_attr_of_values:
  assumes "cp_type p \<in> coded_types" and "fst (rc_attr_of junk p) = 0"
  shows "rc_gop (rc_arm (rc_attr (snd (rc_attr_of junk p)))) = (if cp_type p = OT_PT_MJPEG then None else Some (cp_gop p))"
    and "rc_stats_time (rc_arm (rc_attr (snd (rc_attr_of junk p))))
       = (if cp_rc_mode p = RC_FIXQP then None
          else if cp_rc_mode p = RC_QPMAP then Some (cp_frame_rate p) else Some (smart_stats p))"
    and "rc_frame_rates (rc_arm (rc_attr (snd (rc_attr_of junk p))))
       = (if cp_rc_mode p = RC_QPMAP then (smart_stats p, smart_stats p) else (cp_frame_rate p, cp_frame_rate p))"
  using assms
  by (cases "cp_type p"; cases "cp_rc_mode p";
      simp add: coded_types_def rc_attr_of_def codec_init_defs rc_init_defs chn_attr_defs Let_def)+

text \<open>
  C34: a successful initialisation puts the GOP length, the statistics time (the background interval
  over the GOP for SMART-P) and one frame rate for input and output into the rate control, except
  in QPMAP mode, where statistics time and frame rate are swapped; the initialisation is undefined
  exactly for SMART-P with an empty GOP, where it divides by zero.
\<close>

theorem venc_attr_timing:
  "(comm_venc_channel_param_init junk p zero_chn_attr = Inl DivideByZero
      \<longleftrightarrow> gop_mode (cp_gop_attr p) = OT_VENC_GOP_MODE_SMART_P \<and> cp_gop p = 0)
   \<and> (case comm_venc_channel_param_init junk p zero_chn_attr of
        Inl e \<Rightarrow> e = DivideByZero
      | Inr (ret, p', attr) \<Rightarrow> cp_type p \<in> coded_types \<and> ret = 0 \<longrightarrow>
          rc_gop (rc_arm (rc_attr attr)) = (if cp_type p = OT_PT_MJPEG then None else Some (cp_gop p))
        \<and> rc_stats_time (rc_arm (rc_attr attr))
            = (if cp_rc_mode p = RC_FIXQP then None
               else if cp_rc_mode p = RC_QPMAP then Some (cp_frame_rate p) else Some (smart_stats p))
        \<and> rc_frame_rates (rc_arm (rc_attr attr))
            = (if cp_rc_mode p = RC_QPMAP then (smart_stats p, smart_stats p)
               else (cp_frame_rate p, cp_frame_rate p)))"
proof (cases "gop_mode (cp_gop_attr p) = OT_VENC_GOP_MODE_SMART_P \<and> cp_gop p = 0")
  case True
  then show ?thesis by (simp add: comm_venc_channel_param_init_def Let_def)
next
  case False
  then obtain ret p' attr where i: "comm_venc_channel_param_init junk p zero_chn_attr = Inr (ret, p', attr)"
    using param_init_defined by blast
  have "rc_gop (rc_arm (rc_attr attr)) = (if cp_type p = OT_PT_MJPEG then None else Some (cp_gop p))
        \<and> rc_stats_time (rc_arm (rc_attr attr))
            = (if cp_rc_mode p = RC_FIXQP then None
               else if cp_rc_mode p = RC_QPMAP then Some (cp_frame_rate p) else Some (smart_stats p))
        \<and> rc_frame_rates (rc_arm (rc_attr attr))
            = (if cp_rc_mode p = RC_QPMAP then (smart_stats p, smart_stats p)
               else (cp_frame_rate p, cp_frame_rate p))"
    if c: "cp_type p \<in> coded_types" "ret = 0"
    using rc_attr_of_values [of p junk] param_init_coded [OF i c(1)] c by simp
  with i False show ?thesis by simp
qed

theorem venc_attr_timing_witness:
  "\<exists>ret p' attr. comm_venc_channel_param_init no_cvbr (demo_param OT_PT_H264 RC_QPMAP) zero_chn_attr = Inr (ret, p', attr)
     \<and> rc_stats_time (rc_arm (rc_attr attr)) = Some 30 \<and> rc_frame_rates (rc_arm (rc_attr attr)) = (2, 2)"
proof -
  let ?p = "demo_param OT_PT_H264 RC_QPMAP"
  obtain ret p' attr where i: "comm_venc_channel_param_init no_cvbr ?p zero_chn_attr = Inr (ret, p', attr)"
    by (rule demo_param_defined)
  have "cp_type ?p \<in> coded_types" by (simp add: demo_param_def coded_types_def)
  moreover have "ret = 0"
    using param_init_coded(1) [OF i calculation]
    by (simp add: rc_attr_of_def demo_param_def comm_venc_h264_param_init_def Let_def)
  ultimately have "rc_stats_time (rc_arm (rc_attr attr)) = Some 30 \<and> rc_frame_rates (rc_arm (rc_attr attr)) = (2, 2)"
    using venc_attr_timing [of no_cvbr ?p] i by (simp add: demo_param_def smart_stats_def)
  with i show ?thesis by blast
qed

lemma rc_attr_of_bit_rate:
  assumes "cp_type p \<in> coded_types" and "rc_bit_rate (rc_arm (rc_attr (snd (rc_attr_of junk p)))) = Some b"
  shows "b = fhd_bit_rate (codec_rate (cp_type p)) (venc_attr_init p zero_chn_attr)"
  using assms
  by (cases "cp_type p"; cases "cp_rc_mode p";
      simp add: coded_types_def rc_attr_of_def codec_init_defs rc_init_defs set_rc_def set_frame_buf_ratio_def
        set_rcn_ref_share_buf_def codec_rate_def venc_attr_init_def zero_chn_attr_def fhd_bit_rate_def Let_def)

lemma align_up_unat:
  assumes "unat x \<le> 2 ^ 30" and "0 < unat a" and "unat a \<le> 64"
  shows "unat (OT_ALIGN_UP x a) = (unat x + (unat a - 1)) div unat a * unat a"
proof -
  have 1: "unat (a - 1) = unat a - 1" using assms(2) by (simp add: unat_sub word_le_nat_alt)
  have 2: "unat (x + (a - 1)) = unat x + (unat a - 1)"
    using assms by (simp add: unat_word_ariths 1)
  have "unat x + (unat a - 1) < 2 ^ 32" using assms by simp
  then have "(unat x + (unat a - 1)) div unat a * unat a < 2 ^ 32"
    by (rule le_less_trans [OF div_times_less_eq_dividend])
  moreover have "unat (OT_ALIGN_UP x a) = (unat (x + (a - 1)) div unat a * unat a) mod 2 ^ 32"
    unfolding OT_ALIGN_UP_def unat_word_ariths(2) unat_div by simp
  ultimately show ?thesis unfolding 2 by simp
qed

text \<open>Three sizes of the table are too large for a bit rate of 20 Mbit/s per full-HD picture.\<close>

definition oversized :: "PicSize set" where
  "oversized = {PIC_6080X2800, PIC_7680X4320, PIC_3840X8640}"

lemma pic_pixels:
  assumes "pic_lookup sz = Some z"
  shows "101376 \<le> pixels z" and "16588902 \<le> pixels z \<longleftrightarrow> sz \<in> oversized"
  using assms
  by (cases sz; auto simp: pic_lookup_def pic_value_def pic_enumerators_def pic_size_array_def pixels_def oversized_def)+

lemma fhd_range:
  assumes "pic_lookup sz = Some z" and "has_size z attr" and "type \<in> coded_types"
  shows "OT_VENC_MIN_BITRATE \<le> fhd_bit_rate (codec_rate type) attr"
    and "fhd_bit_rate (codec_rate type) attr \<le> OT_VENC_MAX_BITRATE \<longleftrightarrow> \<not> (type = OT_PT_MJPEG \<and> sz \<in> oversized)"
proof -
  have px: "101376 \<le> pixels z" "pixels z \<le> 33177600" "16588902 \<le> pixels z \<longleftrightarrow> sz \<in> oversized"
    using pic_pixels [OF assms(1)] pic_lookup_bound [OF assms(1)] by (simp_all add: pixels_def)
  have k: "type = OT_PT_H265 \<and> unat (codec_rate type) = 3072 \<or> type = OT_PT_H264 \<and> unat (codec_rate type) = 4096
      \<or> type = OT_PT_MJPEG \<and> unat (codec_rate type) = 20480"
    using assms(3) by (auto simp: coded_types_def codec_rate_def)
  then have r: "unat (fhd_bit_rate (codec_rate type) attr) = unat (codec_rate type) * pixels z div FHD_PIXELS"
    by (intro fhd_bit_rate_unat [OF assms(1,2)]) auto
  show "OT_VENC_MIN_BITRATE \<le> fhd_bit_rate (codec_rate type) attr"
    using k px(1) by (auto simp: word_le_nat_alt r FHD_PIXELS_def)
  show "fhd_bit_rate (codec_rate type) attr \<le> OT_VENC_MAX_BITRATE \<longleftrightarrow> \<not> (type = OT_PT_MJPEG \<and> sz \<in> oversized)"
    using k px by (auto simp: word_le_nat_alt r FHD_PIXELS_def)
qed

lemma unat_mult4:
  fixes a b :: u32
  assumes "unat a * unat b \<le> 2 ^ 29"
  shows "unat (a * b * 4) = unat a * unat b * 4"
proof -
  have "unat (a * b) = unat a * unat b" using assms by (simp add: unat_word_ariths)
  with assms show ?thesis by (simp add: unat_word_ariths)
qed

lemma buf_size_unat:
  assumes "pic_lookup sz = Some z" and "cp_venc_size p = z" and "cp_type p \<in> coded_types"
  shows "unat (va_buf_size (venc_attr (venc_attr_init p attr)))
    = (if cp_type p = OT_PT_MJPEG
       then ((unat (width z) + 15) div 16 * 16) * ((unat (height z) + 15) div 16 * 16) * 4
       else (pixels z * 3 div 4 + 63) div 64 * 64)"
proof -
  note b = pic_lookup_bound [OF assms(1)]
  have w: "unat (OT_ALIGN_UP (width z) 16) = (unat (width z) + 15) div 16 * 16"
    and h: "unat (OT_ALIGN_UP (height z) 16) = (unat (height z) + 15) div 16 * 16"
    using b by (simp_all add: align_up_unat)
  have "unat (width z * height z) = pixels z" using b by (simp add: unat_word_ariths pixels_def)
  then have "unat (width z * height z * 3) = pixels z * 3" using b by (simp add: unat_word_ariths pixels_def)
  then have p: "unat (width z * height z * 3 div 4) = pixels z * 3 div 4" by (simp add: unat_div)
  have "unat (OT_ALIGN_UP (width z * height z * 3 div 4) 64) = (pixels z * 3 div 4 + 63) div 64 * 64"
  proof -
    have "pixels z * 3 div 4 \<le> 33177600 * 3 div 4" using b by (intro div_le_mono) (simp add: pixels_def mult.commute)
    then show ?thesis by (subst align_up_unat) (simp_all add: p)
  qed
  moreover have "unat (OT_ALIGN_UP (width z) 16 * OT_ALIGN_UP (height z) 16 * 4)
      = ((unat (width z) + 15) div 16 * 16) * ((unat (height z) + 15) div 16 * 16) * 4"
  proof -
    have "(unat (width z) + 15) div 16 * 16 \<le> 7695" "(unat (height z) + 15) div 16 * 16 \<le> 8655"
      using b by linarith+
    then have "((unat (width z) + 15) div 16 * 16) * ((unat (height z) + 15) div 16 * 16) \<le> 7695 * 8655"
      by (rule mult_le_mono)
    then have "unat (OT_ALIGN_UP (width z) 16) * unat (OT_ALIGN_UP (height z) 16) \<le> 2 ^ 29"
      unfolding w h by (rule order_trans) simp
    then have "unat (OT_ALIGN_UP (width z) 16 * OT_ALIGN_UP (height z) 16 * 4)
        = unat (OT_ALIGN_UP (width z) 16) * unat (OT_ALIGN_UP (height z) 16) * 4"
      by (rule unat_mult4)
    then show ?thesis unfolding w h .
  qed
  ultimately show ?thesis
    using assms(2,3) by (auto simp: venc_attr_init_def coded_types_def Let_def)
qed

text \<open>
  C30: for every size of the table the bit rate of the modes without a table of their own is exactly
  the full-HD rate of the codec scaled by the pixels, and the buffer size exactly the documented
  formula: no 32-bit product wraps.  The rate lies in the range of the driver except for MJPEG at
  the three largest sizes, where it exceeds the maximum of 160 Mbit/s.
\<close>

theorem venc_bit_rates:
  assumes "pic_lookup (cp_size p) = Some z" and "cp_venc_size p = z" and "cp_type p \<in> coded_types"
    and "comm_venc_channel_param_init junk p zero_chn_attr = Inr (ret, p', attr)"
  shows "(rc_bit_rate (rc_arm (rc_attr attr)) = Some b \<longrightarrow>
        unat b = unat (codec_rate (cp_type p)) * pixels z div FHD_PIXELS \<and> OT_VENC_MIN_BITRATE \<le> b
      \<and> (b \<le> OT_VENC_MAX_BITRATE \<longleftrightarrow> \<not> (cp_type p = OT_PT_MJPEG \<and> cp_size p \<in> oversized)))
    \<and> unat (va_buf_size (venc_attr attr))
      = (if cp_type p = OT_PT_MJPEG
         then ((unat (width z) + 15) div 16 * 16) * ((unat (height z) + 15) div 16 * 16) * 4
         else (pixels z * 3 div 4 + 63) div 64 * 64)"
proof -
  note init = param_init_coded [OF assms(4,3)]
  have sz: "has_size z (venc_attr_init p zero_chn_attr)"
    using assms(2) by (simp add: has_size_def venc_attr_init_def Let_def)
  have k: "unat (codec_rate (cp_type p)) \<le> 20480" by (simp add: codec_rate_def)
  have "va_buf_size (venc_attr (snd (rc_attr_of junk p))) = va_buf_size (venc_attr (venc_attr_init p zero_chn_attr))"
    using assms(3)
    by (cases "cp_type p"; cases "cp_rc_mode p";
        simp add: coded_types_def rc_attr_of_def codec_init_defs rc_init_defs set_rc_def set_frame_buf_ratio_def
          set_rcn_ref_share_buf_def Let_def)
  then show ?thesis
    using rc_attr_of_bit_rate [OF assms(3)] fhd_range [OF assms(1) sz assms(3)]
      fhd_bit_rate_unat [OF assms(1) sz k] buf_size_unat [OF assms(1,2,3)] init(2)
    by auto
qed

theorem venc_bit_rates_witness:
  "\<exists>ret p' attr b. comm_venc_channel_param_init no_cvbr (demo_param OT_PT_H264 RC_CBR) zero_chn_attr = Inr (ret, p', attr)
     \<and> rc_bit_rate (rc_arm (rc_attr attr)) = Some b \<and> unat b = 1820"
proof -
  let ?p = "demo_param OT_PT_H264 RC_CBR"
  obtain ret p' attr where i: "comm_venc_channel_param_init no_cvbr ?p zero_chn_attr = Inr (ret, p', attr)"
    by (rule demo_param_defined)
  have c: "cp_type ?p \<in> coded_types" by (simp add: demo_param_def coded_types_def)
  have sz: "pic_lookup (cp_size ?p) = Some \<lparr>width = 1280, height = 720\<rparr>"
    by (simp add: demo_param_def pic_lookup_def pic_value_def pic_enumerators_def pic_size_array_def)
  have v: "cp_venc_size ?p = \<lparr>width = 1280, height = 720\<rparr>" by (simp add: demo_param_def)
  obtain b where b: "rc_bit_rate (rc_arm (rc_attr attr)) = Some b"
    using param_init_coded(2) [OF i c]
    by (simp add: rc_attr_of_def demo_param_def comm_venc_h264_param_init_def comm_venc_h264_cbr_param_init_def
        set_rc_def set_rcn_ref_share_buf_def Let_def)
  from venc_bit_rates [OF sz v c i, of b] b have "unat b = 1820"
    by (simp add: demo_param_def codec_rate_def pixels_def FHD_PIXELS_def)
  with i b show ?thesis by blast
qed

end
