(* ===== verification/Venc_Lifecycle.thy ===== *)
theory Venc_Lifecycle
  imports Venc_Channel
begin

text \<open>
  The driver calls of the encoder channels: they stop at the first failure, are always defined
  (SMART-P with an empty GOP apart), and leave no channel behind when a start fails.
\<close>

section \<open>One rule per operation\<close>

lemma prompt_close_reencode [prompt_rules]: "prompt_run env (comm_venc_close_reencode env chn)"
  unfolding comm_venc_close_reencode_def by (intro prompt_rules) simp_all

lemma prompt_undefined [prompt_rules]: "prompt_run env (\<lambda>v. Inl e)"
  by (simp add: prompt_run_def)

text \<open>A parameter block the channel initialisation accepts.\<close>

definition acceptable :: "venc_chn_param \<Rightarrow> bool" where
  "acceptable p \<longleftrightarrow> cp_size p \<noteq> PIC_BUTT \<and> cp_type p \<in> coded_types
     \<and> (cp_type p = OT_PT_MJPEG \<longrightarrow> cp_rc_mode p \<in> {RC_FIXQP, RC_CBR, RC_VBR, RC_AVBR})
     \<and> \<not> (gop_mode (cp_gop_attr p) = OT_VENC_GOP_MODE_SMART_P \<and> cp_gop p = 0)"

lemma acceptable_init:
  assumes "acceptable p"
  obtains z p' attr where "pic_lookup (cp_size p) = Some z"
    "comm_venc_channel_param_init junk (p\<lparr>cp_venc_size := z\<rparr>) zero_chn_attr = Inr (0, p', attr)"
    "cp_type p' = cp_type p" "arm_mode (rc_arm (rc_attr attr)) = rc_mode (rc_attr attr)"
proof -
  from assms obtain z where z: "pic_lookup (cp_size p) = Some z"
    by (metis acceptable_def pic_lookup_None not_None_eq)
  let ?p = "p\<lparr>cp_venc_size := z\<rparr>"
  from assms obtain ret p' attr where i: "comm_venc_channel_param_init junk ?p zero_chn_attr = Inr (ret, p', attr)"
    using param_init_defined [of ?p junk] by (auto simp: acceptable_def)
  have c: "cp_type ?p \<in> coded_types" using assms by (simp add: acceptable_def)
  have "fst (rc_attr_of junk ?p) = 0"
    using assms
    by (cases "cp_type p"; cases "cp_rc_mode p")
      (simp_all add: acceptable_def coded_types_def rc_attr_of_def codec_init_defs Let_def)
  then have "ret = 0" "cp_type p' = cp_type p" "arm_mode (rc_arm (rc_attr attr)) = rc_mode (rc_attr attr)"
    using param_init_coded [OF i c] rc_attr_of_tagged(1) [OF c, of junk] by simp_all
  with z i that show thesis by blast
qed

lemma prompt_venc_create [prompt_rules]:
  assumes "acceptable p" shows "prompt_run env (comm_venc_create env junk chn p)"
proof -
  obtain z p' attr where "pic_lookup (cp_size p) = Some z"
    "comm_venc_channel_param_init junk (p\<lparr>cp_venc_size := z\<rparr>) zero_chn_attr = Inr (0, p', attr)"
    using assms by (rule acceptable_init)
  then show ?thesis unfolding comm_venc_create_def
    by simp (intro conjI impI prompt_rules; simp)
qed

lemma prompt_venc_start [prompt_rules]:
  assumes "acceptable p" shows "prompt_run env (comm_venc_start env junk chn p)"
  unfolding comm_venc_start_def using assms by (intro prompt_rules) simp_all

lemma prompt_bind_vpss_venc [prompt_rules]: "prompt_run env (bind_vpss_venc env g c chn)"
  unfolding bind_vpss_venc_def by (intro prompt_rules) simp_all

lemma prompt_mini_buf_loop:
  "PAYLOAD_TYPE_MAX \<notin> set ts \<Longrightarrow> prompt_run env (mini_buf_loop env ts m)"
proof (induction ts arbitrary: m)
  case Nil
  then show ?case by (simp add: prompt_rules)
next
  case (Cons t ts)
  then show ?case by (cases t) (auto intro!: prompt_rules)
qed

lemma prompt_mini_buf_en [prompt_rules]: "prompt_run env (comm_venc_mini_buf_en env)"
  unfolding comm_venc_mini_buf_en_def by (rule prompt_mini_buf_loop) simp

lemma steady_close_reencode [steady_rules]: "steady (comm_venc_close_reencode env chn)"
  unfolding comm_venc_close_reencode_def by (intro steady_rules)

lemma steady_venc_create [steady_rules]:
  assumes "acceptable p" shows "steady (comm_venc_create env junk chn p)"
proof -
  obtain z p' attr where "pic_lookup (cp_size p) = Some z"
    "comm_venc_channel_param_init junk (p\<lparr>cp_venc_size := z\<rparr>) zero_chn_attr = Inr (0, p', attr)"
    using assms by (rule acceptable_init)
  then show ?thesis unfolding comm_venc_create_def
    by simp (intro conjI impI steady_rules)
qed

lemma steady_venc_start [steady_rules]:
  assumes "acceptable p" shows "steady (comm_venc_start env junk chn p)"
  unfolding comm_venc_start_def using assms by (intro steady_rules)

lemma steady_bind_vpss_venc [steady_rules]: "steady (bind_vpss_venc env g c chn)"
  unfolding bind_vpss_venc_def by (intro steady_rules)

lemma steady_mini_buf_loop: "steady (mini_buf_loop env ts m)"
  by (induction ts arbitrary: m) (auto intro!: steady_rules split: prod.splits)

lemma steady_mini_buf_en [steady_rules]: "steady (comm_venc_mini_buf_en env)"
  unfolding comm_venc_mini_buf_en_def by (rule steady_mini_buf_loop)

section \<open>Calls of a successful start\<close>

text \<open>
  What the driver documents of its getters: a channel reports the rate-control mode it was created
  with, and the module parameters come back for the module asked for, with words that are \<open>rest\<close>.
\<close>

definition driver_reports :: "(ot_venc_mod_type \<Rightarrow> u32 list) \<Rightarrow> mpp_env \<Rightarrow> bool" where
  "driver_reports rest env \<longleftrightarrow>
     (\<forall>tr chn. env_rc_mode env tr chn = created_rc_mode tr chn)
   \<and> (\<forall>tr m. mod_type (env_mod_param env tr m) = mod_type m \<and> mod_rest (env_mod_param env tr m) = rest (mod_type m))"

definition close_calls :: "int \<Rightarrow> ot_venc_rc_mode \<Rightarrow> mpp_call list" where
  "close_calls chn mode =
     [ss_mpi_venc_get_chn_attr chn, ss_mpi_venc_get_rc_param chn]
     @ (if mode \<in> reencode_modes then [ss_mpi_venc_set_rc_param chn \<lparr>rp_arm = mode, rp_max_reencode_times = 0\<rparr>] else [])"

definition start_calls :: "int \<Rightarrow> ot_venc_chn_attr \<Rightarrow> mpp_call list" where
  "start_calls chn attr =
     [ss_mpi_venc_create_chn chn attr] @ close_calls chn (rc_mode (rc_attr attr)) @ [ss_mpi_venc_start_chn chn (- 1)]"

lemma callsD':
  "calls m cs \<Longrightarrow> plain v \<Longrightarrow> m v = Inr (0, v') \<Longrightarrow>
     plain v' \<and> map fst (trace v') = map fst (trace v) @ cs"
  by (simp add: callsD)

lemma calls_close_reencode:
  assumes "comm_venc_close_reencode env chn v = Inr (0, v')" and "plain v"
  shows "plain v' \<and> map fst (trace v') = map fst (trace v) @ close_calls chn (env_rc_mode env (trace v) chn)"
proof -
  let ?mode = "env_rc_mode env (trace v) chn"
  let ?m = "on_fail (mpi env (ss_mpi_venc_get_chn_attr chn)) (\<lambda>_. mpp_return TD_FAILURE)
      (on_fail (mpi env (ss_mpi_venc_get_rc_param chn)) (\<lambda>_. mpp_return TD_FAILURE)
      (if ?mode \<notin> reencode_modes then mpp_return TD_SUCCESS
       else on_fail (mpi env (ss_mpi_venc_set_rc_param chn \<lparr>rp_arm = ?mode, rp_max_reencode_times = 0\<rparr>))
              (\<lambda>_. mpp_return TD_FAILURE) (mpp_return TD_SUCCESS)))"
  have "calls ?m (ss_mpi_venc_get_chn_attr chn # ss_mpi_venc_get_rc_param chn
      # (if ?mode \<notin> reencode_modes then []
         else [ss_mpi_venc_set_rc_param chn \<lparr>rp_arm = ?mode, rp_max_reencode_times = 0\<rparr>]))"
    by (intro calls_rules) simp_all
  moreover have "?m v = Inr (0, v')" using assms(1) by (simp add: comm_venc_close_reencode_def mpp_get_def)
  ultimately have "plain v' \<and> map fst (trace v') = map fst (trace v) @ (ss_mpi_venc_get_chn_attr chn
      # ss_mpi_venc_get_rc_param chn # (if ?mode \<notin> reencode_modes then []
         else [ss_mpi_venc_set_rc_param chn \<lparr>rp_arm = ?mode, rp_max_reencode_times = 0\<rparr>]))"
    by (rule callsD' [OF _ assms(2)])
  then show ?thesis by (simp add: close_calls_def)
qed

lemma calls_venc_start:
  assumes p: "acceptable p" and z: "pic_lookup (cp_size p) = Some z"
    and i: "comm_venc_channel_param_init junk (p\<lparr>cp_venc_size := z\<rparr>) zero_chn_attr = Inr (0, p', attr)"
    and env: "driver_reports rest env"
  shows "calls (comm_venc_start env junk chn p) (start_calls chn attr)"
proof -
  have type: "cp_type p' \<noteq> OT_PT_JPEG"
    using p param_init_coded(3) [OF i] by (auto simp: acceptable_def coded_types_def)
  have create: "calls (comm_venc_create env junk chn p)
      ([ss_mpi_venc_create_chn chn attr] @ close_calls chn (rc_mode (rc_attr attr)))"
    unfolding calls_def
  proof (intro allI impI)
    fix v v' assume a: "plain v \<and> comm_venc_create env junk chn p v = Inr (0, v')"
    let ?w = "v\<lparr>trace := trace v @ [(ss_mpi_venc_create_chn chn attr, 0)]\<rparr>"
    have "on_fail (mpi env (ss_mpi_venc_create_chn chn attr)) mpp_return
        (on_fail (comm_venc_close_reencode env chn)
          (\<lambda>ret. then_mpi env (ss_mpi_venc_destroy_chn chn) (mpp_return ret)) (mpp_return TD_SUCCESS)) v = Inr (0, v')"
      using a z i type by (simp add: comm_venc_create_def)
    then have "on_fail (comm_venc_close_reencode env chn)
        (\<lambda>ret. then_mpi env (ss_mpi_venc_destroy_chn chn) (mpp_return ret)) (mpp_return TD_SUCCESS) ?w = Inr (0, v')"
      by (cases rule: on_failE) (auto simp: mpi_def Let_def)
    then have "comm_venc_close_reencode env chn ?w = Inr (0, v')"
      by (cases rule: on_failE) (auto simp: then_mpi_def mpp_bind_def mpi_def Let_def)
    moreover have "plain ?w" using a by (simp add: plain_def)
    moreover have "env_rc_mode env (trace ?w) chn = rc_mode (rc_attr attr)"
      using env by (simp add: driver_reports_def created_rc_mode_def mode_step_def)
    ultimately show "plain v' \<and> map fst (trace v') = map fst (trace v)
        @ [ss_mpi_venc_create_chn chn attr] @ close_calls chn (rc_mode (rc_attr attr))"
      using calls_close_reencode [of env chn ?w v'] by simp
  qed
  have "calls (comm_venc_start env junk chn p)
      (([ss_mpi_venc_create_chn chn attr] @ close_calls chn (rc_mode (rc_attr attr)))
        @ [ss_mpi_venc_start_chn chn (- 1)])"
    unfolding comm_venc_start_def by (intro calls_rules create) simp_all
  then show ?thesis by (rule calls_weaken) (simp add: start_calls_def)
qed

lemma calls_bind_vpss_venc [calls_rules]:
  "calls (bind_vpss_venc env g c chn)
     [ss_mpi_sys_bind \<lparr>mod_id = ''OT_ID_VPSS'', dev_id = g, chn_id = c\<rparr> \<lparr>mod_id = ''OT_ID_VENC'', dev_id = 0, chn_id = chn\<rparr>]"
  unfolding bind_vpss_venc_def by (intro calls_rules) simp_all

lemma calls_get: "(\<And>v. calls (k (sel v)) cs) \<Longrightarrow> calls (mpp_get sel k) cs"
  unfolding calls_def mpp_get_def by blast

fun payload_mod :: "Pay_load_type \<Rightarrow> ot_venc_mod_type" where
  "payload_mod PAYLOAD_TYPE_H264 = OT_VENC_MOD_H264"
| "payload_mod PAYLOAD_TYPE_H265 = OT_VENC_MOD_H265"
| "payload_mod PAYLOAD_TYPE_MJPEG = OT_VENC_MOD_JPEG"
| "payload_mod PAYLOAD_TYPE_MAX = OT_VENC_MOD_VENC"

definition mini_buf_calls :: "(ot_venc_mod_type \<Rightarrow> u32 list) \<Rightarrow> Pay_load_type \<Rightarrow> mpp_call list" where
  "mini_buf_calls rest t =
     [ss_mpi_venc_get_mod_param (payload_mod t),
      ss_mpi_venc_set_mod_param \<lparr>mod_type = payload_mod t, mini_buf_mode = 1, mod_rest = rest (payload_mod t)\<rparr>]"

lemma calls_mini_buf_loop:
  assumes "driver_reports rest env" and "PAYLOAD_TYPE_MAX \<notin> set ts"
  shows "calls (mini_buf_loop env ts m) (concat (map (mini_buf_calls rest) ts))"
  using assms(2)
proof (induction ts arbitrary: m)
  case Nil
  then show ?case by (simp add: calls_return)
next
  case (Cons t ts)
  have set_type: "comm_venc_set_mod_type t m = (0, m\<lparr>mod_type := payload_mod t\<rparr>)"
    and set_mini: "\<And>m. comm_venc_set_mini_buf t m = (0, m\<lparr>mini_buf_mode := 1\<rparr>)"
    using Cons.prems by (cases t; simp)+
  let ?m = "m\<lparr>mod_type := payload_mod t\<rparr>"
  have filled: "(env_mod_param env tr ?m)\<lparr>mini_buf_mode := 1\<rparr>
      = \<lparr>mod_type = payload_mod t, mini_buf_mode = 1, mod_rest = rest (payload_mod t)\<rparr>" for tr
    using assms(1) by (simp add: driver_reports_def)
  show ?case
    using Cons
    by (simp add: set_type set_mini mini_buf_calls_def del: One_nat_def)
      (intro calls_get calls_on_mpi; simp add: filled calls_rules)
qed

section \<open>Channels\<close>

text \<open>A computation that neither creates nor destroys a channel.\<close>

definition keeps_chns :: "'a mpp \<Rightarrow> bool" where
  "keeps_chns m \<longleftrightarrow> (\<forall>v r v'. m v = Inr (r, v') \<longrightarrow> venc_chns (trace v') = venc_chns (trace v))"

named_theorems keeps_rules "computations that keep the channels, one rule per combinator"

lemma keeps_return [keeps_rules]: "keeps_chns (mpp_return x)"
  by (simp add: keeps_chns_def)

lemma keeps_mpi [keeps_rules]:
  "(\<And>chns r. chn_step (c, r) chns = chns) \<Longrightarrow> keeps_chns (mpi env c)"
  by (auto simp: keeps_chns_def mpi_def Let_def venc_chns_def)

lemma keeps_bind [keeps_rules]:
  assumes "keeps_chns m" and "\<And>x. keeps_chns (k x)" shows "keeps_chns (mpp_bind m k)"
  using assms unfolding keeps_chns_def by (metis mpp_bindE)

lemma keeps_if [keeps_rules]: "(b \<Longrightarrow> keeps_chns m) \<Longrightarrow> (\<not> b \<Longrightarrow> keeps_chns k) \<Longrightarrow> keeps_chns (if b then m else k)"
  by simp

lemma keeps_on_fail [keeps_rules]:
  "keeps_chns m \<Longrightarrow> (\<And>r. keeps_chns (fail r)) \<Longrightarrow> keeps_chns k \<Longrightarrow> keeps_chns (on_fail m fail k)"
  unfolding on_fail_def by (intro keeps_rules)

lemma keeps_get [keeps_rules]: "(\<And>x. keeps_chns (k x)) \<Longrightarrow> keeps_chns (mpp_get sel k)"
  unfolding keeps_chns_def mpp_get_def by blast

lemma keepsD: "keeps_chns m \<Longrightarrow> m v = Inr (r, v') \<Longrightarrow> venc_chns (trace v') = venc_chns (trace v)"
  by (simp add: keeps_chns_def)

lemma keeps_close_reencode [keeps_rules]: "keeps_chns (comm_venc_close_reencode env chn)"
  unfolding comm_venc_close_reencode_def by (intro keeps_rules) (simp_all add: chn_step_def)

lemma keeps_bind_vpss_venc [keeps_rules]: "keeps_chns (bind_vpss_venc env g c chn)"
  unfolding bind_vpss_venc_def by (intro keeps_rules) (simp_all add: chn_step_def)

lemma keeps_mini_buf_loop: "keeps_chns (mini_buf_loop env ts m)"
  by (induction ts arbitrary: m) (auto intro!: keeps_rules simp: chn_step_def split: prod.splits)

text \<open>A destroy call that succeeds.\<close>

lemma destroy_then:
  assumes "then_mpi env (ss_mpi_venc_destroy_chn chn) (mpp_return x) v = Inr (r, v')"
    and "\<And>tr. env_ret env tr (ss_mpi_venc_destroy_chn chn) = 0"
  shows "r = x \<and> venc_chns (trace v') = venc_chns (trace v) - {chn}"
  using assms by (auto simp: then_mpi_def mpp_bind_def mpi_def Let_def venc_chns_def chn_step_def)

lemma close_reencode_chns:
  assumes m: "on_fail (comm_venc_close_reencode env chn)
      (\<lambda>ret. then_mpi env (ss_mpi_venc_destroy_chn chn) (mpp_return ret)) (mpp_return TD_SUCCESS) v = Inr (r, v')"
    and destroy: "\<And>tr. env_ret env tr (ss_mpi_venc_destroy_chn chn) = 0"
  shows "venc_chns (trace v') = (if r = 0 then venc_chns (trace v) else venc_chns (trace v) - {chn})"
  using m
proof (cases rule: on_failE)
  case (fails ret u)
  from keepsD [OF keeps_close_reencode fails(1)] destroy_then [OF fails(3) destroy] fails(2) show ?thesis by simp
next
  case (goes_on u)
  with keepsD [OF keeps_close_reencode goes_on(1)] show ?thesis by simp
qed

lemma venc_create_chns:
  assumes m: "comm_venc_create env junk chn p v = Inr (r, v')"
    and fresh: "chn \<notin> venc_chns (trace v)"
    and destroy: "\<And>tr. env_ret env tr (ss_mpi_venc_destroy_chn chn) = 0"
  shows "venc_chns (trace v') = (if r = 0 then insert chn (venc_chns (trace v)) else venc_chns (trace v))"
proof (cases "pic_lookup (cp_size p)")
  case None
  with m show ?thesis by (auto simp: comm_venc_create_def)
next
  case (Some z)
  with m obtain ret p' attr where
    i: "comm_venc_channel_param_init junk (p\<lparr>cp_venc_size := z\<rparr>) zero_chn_attr = Inr (ret, p', attr)"
    by (cases "comm_venc_channel_param_init junk (p\<lparr>cp_venc_size := z\<rparr>) zero_chn_attr")
      (auto simp: comm_venc_create_def)
  show ?thesis
  proof (cases "ret = 0")
    case False
    with m Some i show ?thesis by (auto simp: comm_venc_create_def)
  next
    case True
    with m Some i have "on_fail (mpi env (ss_mpi_venc_create_chn chn attr)) mpp_return
        (if cp_type p' = OT_PT_JPEG then mpp_return TD_SUCCESS
         else on_fail (comm_venc_close_reencode env chn)
           (\<lambda>ret. then_mpi env (ss_mpi_venc_destroy_chn chn) (mpp_return ret)) (mpp_return TD_SUCCESS)) v = Inr (r, v')"
      by (simp add: comm_venc_create_def)
    then show ?thesis
    proof (cases rule: on_failE)
      case (fails ret w)
      then show ?thesis by (auto simp: mpi_def Let_def venc_chns_def chn_step_def)
    next
      case (goes_on w)
      then have w: "venc_chns (trace w) = insert chn (venc_chns (trace v))"
        by (auto simp: mpi_def Let_def venc_chns_def chn_step_def)
      from goes_on(2) w fresh show ?thesis
        using close_reencode_chns [OF _ destroy, of w r v'] by (cases "cp_type p' = OT_PT_JPEG") simp_all
    qed
  qed
qed

lemma venc_start_chns:
  assumes m: "comm_venc_start env junk chn p v = Inr (r, v')"
    and fresh: "chn \<notin> venc_chns (trace v)"
    and destroy: "\<And>tr. env_ret env tr (ss_mpi_venc_destroy_chn chn) = 0"
  shows "venc_chns (trace v') = (if r = 0 then insert chn (venc_chns (trace v)) else venc_chns (trace v))
    \<and> (r = 0 \<or> r = - 1)"
  using m unfolding comm_venc_start_def
proof (cases rule: on_failE)
  case (fails ret w)
  with venc_create_chns [OF fails(1) fresh destroy] show ?thesis by auto
next
  case (goes_on w)
  have w: "venc_chns (trace w) = insert chn (venc_chns (trace v))"
    using venc_create_chns [OF goes_on(1) fresh destroy] by simp
  from goes_on(2) show ?thesis
  proof (cases rule: on_failE)
    case (fails ret u)
    then have "venc_chns (trace u) = venc_chns (trace w)"
      using keepsD [OF keeps_mpi fails(1)] by (simp add: chn_step_def)
    with destroy_then [OF fails(3) destroy] w fresh show ?thesis by simp
  next
    case (goes_on u)
    then have "venc_chns (trace u) = venc_chns (trace w)"
      using keepsD [OF keeps_mpi goes_on(1)] by (simp add: chn_step_def)
    with goes_on(2) w show ?thesis by simp
  qed
qed

end
