(* ===== verification/Video_Pipeline.thy ===== *)
theory Video_Pipeline
  imports Venc_Lifecycle
begin

text \<open>
  \<open>modules/platform/hi3516cv610/src/hi_video_pipeline.cpp\<close>, the class \<open>videoProcessHi\<close>: bringing up
  the MPP system, video input, ISP, VPSS and encoders, as computations over the driver.  Log
  messages and thread names are left out.
\<close>

section \<open>Constants\<close>

definition SENSOR_SIZE :: Size where "SENSOR_SIZE = \<lparr>width = 2560, height = 1440\<rparr>"
definition VI_SIZE0 :: Size where "VI_SIZE0 = SENSOR_SIZE"
definition VI_SIZE1 :: Size where "VI_SIZE1 = \<lparr>width = 1280, height = 720\<rparr>"
definition VI_SIZE2 :: Size where "VI_SIZE2 = \<lparr>width = 640, height = 384\<rparr>"
definition VIDEO_STRETCH_SIZE :: Size where "VIDEO_STRETCH_SIZE = \<lparr>width = 0, height = 0\<rparr>"
definition subVpssFrameRate :: int where "subVpssFrameRate = 5"
definition MIPI_DEV_NODE :: string where "MIPI_DEV_NODE = ''/dev/ot_mipi_rx''"
definition rotateBSupport :: bool where "rotateBSupport = False"

definition sensor_rect :: rect where
  "sensor_rect = \<lparr>rect_x = 0, rect_y = 0, rect_width = width SENSOR_SIZE, rect_height = height SENSOR_SIZE\<rparr>"

text \<open>The constructor; destroying the object ends the process while the ISP thread is joinable.\<close>

definition new_videoProcessHi :: videoProcessHi where
  "new_videoProcessHi =
     \<lparr>wrap_enable = False, video_stretch_enable = False,
      stVpssChnBufWrap = \<lparr>wrap_en = False, wrap_buf_line = 0, wrap_buf_size = 0\<rparr>, ispThread = False, trace = []\<rparr>"

definition destroy_videoProcessHi :: "videoProcessHi \<Rightarrow> unit checked" where
  "destroy_videoProcessHi v = (if ispThread v then Inl Terminated else Inr ())"

section \<open>System\<close>

definition comm_vpss_get_default_chn_attr :: ot_vpss_chn_attr where
  "comm_vpss_get_default_chn_attr =
     \<lparr>vc_mirror_en = False, vc_flip_en = False, vc_border_en = False,
      vc_width = width VIDEO_STRETCH_SIZE, vc_height = height VIDEO_STRETCH_SIZE, vc_depth = 0,
      vc_chn_mode = ''OT_VPSS_CHN_MODE_USER'', vc_video_format = ''OT_VIDEO_FORMAT_LINEAR'',
      vc_dynamic_range = ''OT_DYNAMIC_RANGE_SDR8'', vc_pixel_format = ''OT_PIXEL_FORMAT_YVU_SEMIPLANAR_420'',
      vc_compress_mode = ''OT_COMPRESS_MODE_SEG_COMPACT'', vc_src_frame_rate = - 1, vc_dst_frame_rate = - 1,
      vc_aspect_ratio_mode = ''OT_ASPECT_RATIO_NONE''\<rparr>"

text \<open>
  \<open>wrap_attr\<close> is always the member \<open>stVpssChnBufWrap\<close>.  The frame rates are signed; both are positive
  where they are divided.
\<close>

definition set_wrap :: "ot_vpss_chn_buf_wrap_attr \<Rightarrow> 'a mpp \<Rightarrow> 'a mpp" where
  "set_wrap w k v = k (v\<lparr>stVpssChnBufWrap := w\<rparr>)"

definition comm_vpss_get_wrap_cfg ::
  "mpp_env \<Rightarrow> ot_vpss_chn_attr \<Rightarrow> ot_vi_vpss_mode_type \<Rightarrow> u32 \<Rightarrow> td_s32 mpp" where
  "comm_vpss_get_wrap_cfg env chn_attr mode full_lines_std =
     mpp_get stVpssChnBufWrap (\<lambda>wrap. set_wrap (wrap\<lparr>wrap_en := False\<rparr>)
       (let param = \<lparr>wp_all_online = (mode = OT_VI_ONLINE_VPSS_ONLINE),
              wp_frame_rate = (if 0 < vc_src_frame_rate chn_attr \<and> 0 < vc_dst_frame_rate chn_attr
                then word_of_int (vc_dst_frame_rate chn_attr * 30 div vc_src_frame_rate chn_attr) else 25),
              wp_full_lines_std = full_lines_std,
              wp_large = \<lparr>width = vc_width chn_attr, height = vc_height chn_attr\<rparr>,
              wp_small = \<lparr>width = 720, height = 480\<rparr>\<rparr>;
            buf_attr = \<lparr>pb_width = vc_width chn_attr, pb_height = vc_height chn_attr, pb_align = 8,
              pb_bit_width = ''OT_DATA_BIT_WIDTH_8'', pb_pixel_format = vc_pixel_format chn_attr,
              pb_compress_mode = vc_compress_mode chn_attr, pb_video_format = vc_video_format chn_attr\<rparr>
        in mpp_get (\<lambda>v. env_buf_line env (trace v)) (\<lambda>buf_line.
             on_fail (mpi env (ss_mpi_sys_get_vpss_venc_wrap_buf_line param)) (\<lambda>_. mpp_return TD_FAILURE)
            (set_wrap \<lparr>wrap_en = True, wrap_buf_line = buf_line, wrap_buf_size = env_wrap_buf_size env buf_attr buf_line\<rparr>
              (mpp_return TD_SUCCESS)))))"

definition pic_buf_attr :: "Size \<Rightarrow> ot_pic_buf_attr" where
  "pic_buf_attr z =
     \<lparr>pb_width = width z, pb_height = height z, pb_align = 8, pb_bit_width = ''OT_DATA_BIT_WIDTH_8'',
      pb_pixel_format = ''OT_PIXEL_FORMAT_YVU_SEMIPLANAR_420'', pb_compress_mode = ''OT_COMPRESS_MODE_NONE'',
      pb_video_format = ''OT_VIDEO_FORMAT_LINEAR''\<rparr>"

definition vb_conf :: "mpp_env \<Rightarrow> videoProcessHi \<Rightarrow> ot_vb_cfg" where
  "vb_conf env v =
     \<lparr>max_pool_cnt = 128,
      common_pool =
        [if wrap_enable v then (ucast (wrap_buf_size (stVpssChnBufWrap v)), 1)
         else (ucast (env_pic_buf_size env (pic_buf_attr VI_SIZE0)), 3),
         (ucast (env_pic_buf_size env (pic_buf_attr VI_SIZE1)), 3),
         (ucast (env_pic_buf_size env (pic_buf_attr VI_SIZE2)), 2)]\<rparr>"

text \<open>The result of \<open>comm_vpss_get_wrap_cfg\<close> is ignored.\<close>

definition hi_mpp_sys_init :: "mpp_env \<Rightarrow> td_s32 mpp" where
  "hi_mpp_sys_init env =
     mpp_bind
       (mpp_get wrap_enable (\<lambda>wrap.
          if wrap then comm_vpss_get_wrap_cfg env comm_vpss_get_default_chn_attr OT_VI_OFFLINE_VPSS_ONLINE 1700
          else mpp_return TD_SUCCESS))
       (\<lambda>_. mpp_get (vb_conf env) (\<lambda>conf.
          mpi_seq env mpp_return
            [ss_mpi_sys_exit, ss_mpi_vb_exit, ss_mpi_vb_set_cfg conf, ss_mpi_vb_init, ss_mpi_sys_set_cfg 64,
             ss_mpi_sys_init]
            (mpp_return TD_SUCCESS)))"

section \<open>Video input\<close>

text \<open>The driver fills in the modes of the \<open>OT_VI_MAX_PIPE_NUM\<close> pipes; all are overwritten.\<close>

definition set_vi_vpss_mode :: "mpp_env \<Rightarrow> ot_vi_vpss_mode_type \<Rightarrow> td_s32 mpp" where
  "set_vi_vpss_mode env mode =
     (let other = (if mode = OT_VI_OFFLINE_VPSS_ONLINE then OT_VI_OFFLINE_VPSS_ONLINE else OT_VI_OFFLINE_VPSS_OFFLINE)
      in mpi_seq env (\<lambda>_. mpp_return TD_FAILURE)
           [ss_mpi_sys_get_vi_vpss_mode, ss_mpi_sys_set_vi_vpss_mode (mode # replicate 3 other)]
           (mpp_return TD_SUCCESS))"

definition mipi_dev_attr :: combo_dev_attr where
  "mipi_dev_attr =
     \<lparr>cd_devno = 0, cd_input_mode = ''INPUT_MODE_MIPI'', cd_data_rate = ''MIPI_DATA_RATE_X1'',
      cd_img_rect = sensor_rect, cd_data_type = ''DATA_TYPE_RAW_12BIT'', cd_wdr_mode = ''OT_MIPI_WDR_MODE_NONE'',
      cd_lane_id = [0, 2, - 1, - 1]\<rparr>"

definition mipi_ext_data_type :: ext_data_type where
  "mipi_ext_data_type = \<lparr>xd_devno = 0, xd_num = 3, xd_bit_width = [12, 12, 12], xd_type = [0x2c, 0x2c, 0x2c]\<rparr>"

definition mipi_requests :: "ioctl_request list" where
  "mipi_requests =
     [OT_MIPI_SET_HS_MODE ''LANE_DIVIDE_MODE_0'', OT_MIPI_ENABLE_MIPI_CLOCK 0, OT_MIPI_RESET_MIPI 0,
      OT_MIPI_ENABLE_SENSOR_CLOCK 0, OT_MIPI_RESET_SENSOR 0, OT_MIPI_SET_DEV_ATTR mipi_dev_attr,
      OT_MIPI_SET_EXT_DATA_TYPE mipi_ext_data_type, OT_MIPI_UNRESET_MIPI 0, OT_MIPI_UNRESET_SENSOR 0]"

definition comm_vi_start_mipi :: "mpp_env \<Rightarrow> td_s32 mpp" where
  "comm_vi_start_mipi env =
     mpp_bind (mpi env (sys_open MIPI_DEV_NODE)) (\<lambda>fd.
       if fd < 0 then mpp_return TD_FAILURE
       else mpi_seq env (\<lambda>_. then_mpi env (sys_close fd) (mpp_return TD_FAILURE))
              (map (sys_ioctl fd) mipi_requests)
              (then_mpi env (sys_close fd) (mpp_return TD_SUCCESS)))"

definition vi_dev_attr :: ot_vi_dev_attr where
  "vi_dev_attr =
     \<lparr>vd_intf_mode = ''OT_VI_INTF_MODE_MIPI'', vd_work_mode = ''OT_VI_WORK_MODE_MULTIPLEX_1'',
      vd_component_mask = [0xfff00000, 0x00000000], vd_scan_mode = ''OT_VI_SCAN_PROGRESSIVE'',
      vd_ad_chn_id = [- 1, - 1, - 1, - 1], vd_data_seq = ''OT_VI_DATA_SEQ_YVYU'',
      vd_sync_cfg = \<lparr>sy_vsync = ''OT_VI_VSYNC_FIELD'', sy_vsync_neg = ''OT_VI_VSYNC_NEG_HIGH'',
        sy_hsync = ''OT_VI_HSYNC_VALID_SIG'', sy_hsync_neg = ''OT_VI_HSYNC_NEG_HIGH'',
        sy_vsync_valid = ''OT_VI_VSYNC_VALID_SIG'', sy_vsync_valid_neg = ''OT_VI_VSYNC_VALID_NEG_HIGH'',
        sy_timing_blank = [0, 0, 0, 0, 0, 0, 0, 0, 0]\<rparr>,
      vd_data_type = ''OT_VI_DATA_TYPE_RAW'', vd_data_reverse = False, vd_in_size = SENSOR_SIZE,
      vd_data_rate = ''OT_DATA_RATE_X1''\<rparr>"

definition vi_pipe_attr :: ot_vi_pipe_attr where
  "vi_pipe_attr =
     \<lparr>pi_pipe_bypass_mode = ''OT_VI_PIPE_BYPASS_NONE'', pi_isp_bypass = False, pi_size = SENSOR_SIZE,
      pi_pixel_format = ''OT_PIXEL_FORMAT_RGB_BAYER_12BPP'', pi_compress_mode = ''OT_COMPRESS_MODE_NONE'',
      pi_frame_rate_ctrl = (- 1, - 1)\<rparr>"

definition vi_chn_attr :: ot_vi_chn_attr where
  "vi_chn_attr =
     \<lparr>ic_size = SENSOR_SIZE, ic_pixel_format = ''OT_PIXEL_FORMAT_YVU_SEMIPLANAR_420'',
      ic_dynamic_range = ''OT_DYNAMIC_RANGE_SDR8'', ic_video_format = ''OT_VIDEO_FORMAT_LINEAR'',
      ic_compress_mode = ''OT_COMPRESS_MODE_NONE'', ic_mirror_en = False, ic_flip_en = False, ic_depth = 0,
      ic_frame_rate_ctrl = (- 1, - 1)\<rparr>"

definition vi_3dnr_attr :: ot_3dnr_attr where
  "vi_3dnr_attr =
     \<lparr>nr_enable = True, nr_compress_mode = ''OT_COMPRESS_MODE_FRAME'', nr_nr_type = ''OT_NR_TYPE_VIDEO_NORM'',
      nr_motion_mode = ''OT_NR_MOTION_MODE_NORM''\<rparr>"

text \<open>The pipe is created under the number of the device, as the code does.\<close>

definition comm_vi_create_vi :: "mpp_env \<Rightarrow> int \<Rightarrow> int \<Rightarrow> int \<Rightarrow> td_s32 mpp" where
  "comm_vi_create_vi env ViDev ViPipe ViChn =
     mpi_seq env mpp_return
       [ss_mpi_vi_set_dev_attr ViDev vi_dev_attr, ss_mpi_vi_enable_dev ViDev, ss_mpi_vi_bind ViDev ViPipe,
        ss_mpi_vi_create_pipe ViDev vi_pipe_attr]
    (mpi_seq env (\<lambda>ret. then_mpi env (ss_mpi_vi_destroy_pipe ViPipe) (mpp_return ret))
       [ss_mpi_vi_start_pipe ViPipe, ss_mpi_vi_set_chn_attr ViPipe ViChn vi_chn_attr]
    (on_fail (mpi env (ss_mpi_vi_enable_chn ViPipe ViChn)) mpp_return
    (then_mpi env (ss_mpi_vi_get_pipe_3dnr_attr ViPipe)
    (on_fail (mpi env (ss_mpi_vi_set_pipe_3dnr_attr ViPipe vi_3dnr_attr)) mpp_return
    (mpp_return TD_SUCCESS)))))"

section \<open>ISP\<close>

definition isp_pub_attr :: ot_isp_pub_attr where
  "isp_pub_attr =
     \<lparr>pa_wnd_rect = sensor_rect, pa_sns_size = SENSOR_SIZE, pa_frame_rate = 30,
      pa_bayer_format = ''OT_ISP_BAYER_BGGR'', pa_wdr_mode = ''OT_WDR_MODE_NONE'', pa_sns_mode = 0,
      pa_sns_flip_en = False, pa_sns_mirror_en = False, pa_mipi_crop = (False, sensor_rect)\<rparr>"

text \<open>The body of the thread.\<close>

definition comm_isp_task :: "mpp_env \<Rightarrow> int \<Rightarrow> td_s32 mpp" where
  "comm_isp_task env IspDev = mpi env (ss_mpi_isp_run IspDev)"

text \<open>Assigning to a joinable \<open>std::thread\<close> ends the process.\<close>

definition comm_isp_run :: "int \<Rightarrow> td_s32 mpp" where
  "comm_isp_run IspDev v = (if ispThread v then Inl Terminated else Inr (TD_SUCCESS, v\<lparr>ispThread := True\<rparr>))"

definition comm_vi_create_isp :: "mpp_env \<Rightarrow> int \<Rightarrow> td_s32 mpp" where
  "comm_vi_create_isp env ViPipe =
     on_fail (mpi env (ss_mpi_isp_exit ViPipe)) (\<lambda>_. mpp_return TD_FAILURE)
    (case env_sns_obj env of
       None \<Rightarrow> mpp_return TD_FAILURE
     | Some (register_callback, set_bus_info) \<Rightarrow>
         if \<not> register_callback then mpp_return TD_FAILURE
         else then_mpi env (pfn_register_callback ViPipe)
        (if \<not> set_bus_info then mpp_return TD_FAILURE
         else then_mpi env (pfn_set_bus_info ViPipe 0)
        (mpi_seq env (\<lambda>_. mpp_return TD_FAILURE)
           [ss_mpi_ae_register ViPipe, ss_mpi_awb_register ViPipe, ss_mpi_isp_mem_init ViPipe,
            ss_mpi_isp_set_pub_attr ViPipe isp_pub_attr, ss_mpi_isp_init ViPipe]
        (on_fail (comm_isp_run ViPipe) (\<lambda>_. mpp_return TD_FAILURE)
        (mpp_return TD_SUCCESS)))))"

definition comm_vi_start_vi :: "mpp_env \<Rightarrow> int \<Rightarrow> int \<Rightarrow> int \<Rightarrow> td_s32 mpp" where
  "comm_vi_start_vi env ViDev ViPipe ViChn =
     on_fail (comm_vi_start_mipi env) mpp_return
    (on_fail (comm_vi_create_vi env ViDev ViPipe ViChn) mpp_return
    (on_fail (comm_vi_create_isp env ViPipe) mpp_return
    (mpp_return TD_SUCCESS)))"

text \<open>\<open>stat_interval\<close> is \<open>SENSOR_FRAME_RATE / 30\<close>.\<close>

definition init_vi_process :: "mpp_env \<Rightarrow> int \<Rightarrow> int \<Rightarrow> int \<Rightarrow> td_s32 mpp" where
  "init_vi_process env ViDev ViPipe ViChn =
     mpi_seq env mpp_return
       [ss_mpi_isp_get_ctrl_param ViPipe, ss_mpi_isp_set_ctrl_param ViPipe (maxFrameRate div 30)]
    (on_fail (comm_vi_start_vi env ViDev ViPipe ViChn) mpp_return
    (mpp_return TD_SUCCESS))"

definition init_vi_module :: "mpp_env \<Rightarrow> int \<Rightarrow> int \<Rightarrow> int \<Rightarrow> td_s32 mpp" where
  "init_vi_module env ViDev ViPipe ViChn =
     mpp_get video_stretch_enable (\<lambda>stretch.
       mpi_seq env mpp_return (if stretch then [ss_mpi_vi_set_pipe_buf_wrap_attr ViPipe True 340] else [])
      (on_fail (init_vi_process env ViDev ViPipe ViChn) mpp_return
      (mpp_return TD_SUCCESS)))"

definition hi_mpp_vi_init :: "mpp_env \<Rightarrow> int \<Rightarrow> int \<Rightarrow> td_s32 mpp" where
  "hi_mpp_vi_init env ViPipe ViChn =
     on_fail (set_vi_vpss_mode env OT_VI_ONLINE_VPSS_ONLINE) mpp_return
    (on_fail (init_vi_module env 0 ViPipe ViChn) mpp_return
    (mpp_return TD_SUCCESS))"

section \<open>VPSS\<close>

definition OT_VPSS_MAX_PHYS_CHN_NUM :: int where "OT_VPSS_MAX_PHYS_CHN_NUM = 3"
definition OT_VPSS_MAX_CHN_NUM :: int where "OT_VPSS_MAX_CHN_NUM = 5"
definition OT_VPSS_MAX_GRP_NUM :: int where "OT_VPSS_MAX_GRP_NUM = 6"

text \<open>\<open>ext\<close> tells whether there are attributes of an extension channel.\<close>

definition enable_vpss_chn :: "mpp_env \<Rightarrow> int \<Rightarrow> int \<Rightarrow> ot_vpss_chn_attr option \<Rightarrow> bool \<Rightarrow> td_s32 mpp" where
  "enable_vpss_chn env VpssGrp VpssChn attr ext =
     (if VpssGrp < 0 \<or> OT_VPSS_MAX_GRP_NUM < VpssGrp then mpp_return TD_FAILURE
      else if VpssChn < 0 \<or> OT_VPSS_MAX_CHN_NUM < VpssChn then mpp_return TD_FAILURE
      else if attr = None \<and> \<not> ext then mpp_return TD_FAILURE
      else mpp_get wrap_enable (\<lambda>wrap. mpp_get stVpssChnBufWrap (\<lambda>buf_wrap.
        mpi_seq env mpp_return
          ((if VpssChn < OT_VPSS_MAX_PHYS_CHN_NUM then [ss_mpi_vpss_set_chn_attr VpssGrp VpssChn attr]
            else [ss_mpi_vpss_set_ext_chn_attr VpssGrp VpssChn])
           @ (if VpssChn < OT_VPSS_MAX_PHYS_CHN_NUM \<and> rotateBSupport
              then [ss_mpi_vpss_set_chn_rotation VpssGrp VpssChn] else [])
           @ (if wrap \<and> VpssChn = 0 then [ss_mpi_vpss_set_chn_buf_wrap VpssGrp VpssChn buf_wrap] else [])
           @ [ss_mpi_vpss_enable_chn VpssGrp VpssChn])
          (mpp_return TD_SUCCESS))))"

definition vpss_grp_attr :: ot_vpss_grp_attr where
  "vpss_grp_attr =
     \<lparr>vg_max_width = width SENSOR_SIZE, vg_max_height = height SENSOR_SIZE,
      vg_pixel_format = ''OT_PIXEL_FORMAT_YVU_SEMIPLANAR_420'', vg_dynamic_range = ''OT_DYNAMIC_RANGE_SDR8'',
      vg_src_frame_rate = uint maxFrameRate, vg_dst_frame_rate = uint maxFrameRate\<rparr>"

definition vpss_chn_attr :: "Size \<Rightarrow> mpp_enum \<Rightarrow> int \<Rightarrow> u32 \<Rightarrow> ot_vpss_chn_attr" where
  "vpss_chn_attr z compress dst_frame_rate depth =
     \<lparr>vc_mirror_en = False, vc_flip_en = False, vc_border_en = False, vc_width = width z, vc_height = height z,
      vc_depth = depth, vc_chn_mode = ''OT_VPSS_CHN_MODE_USER'', vc_video_format = ''OT_VIDEO_FORMAT_LINEAR'',
      vc_dynamic_range = ''OT_DYNAMIC_RANGE_SDR8'', vc_pixel_format = ''OT_PIXEL_FORMAT_YVU_SEMIPLANAR_420'',
      vc_compress_mode = compress, vc_src_frame_rate = uint maxFrameRate, vc_dst_frame_rate = dst_frame_rate,
      vc_aspect_ratio_mode = ''OT_ASPECT_RATIO_NONE''\<rparr>"

text \<open>The caller's flags \<open>abChnEnable\<close> are written here and never read.\<close>

definition init_vpss_module :: "mpp_env \<Rightarrow> int \<Rightarrow> td_s32 mpp" where
  "init_vpss_module env VpssGrp =
     on_fail (mpi env (ss_mpi_vpss_create_grp VpssGrp vpss_grp_attr)) mpp_return
    (on_fail (enable_vpss_chn env VpssGrp 0
        (Some (vpss_chn_attr VI_SIZE0 ''OT_COMPRESS_MODE_SEG_COMPACT'' (uint maxFrameRate) 0)) False) mpp_return
    (on_fail (enable_vpss_chn env VpssGrp 1
        (Some (vpss_chn_attr VI_SIZE1 ''OT_COMPRESS_MODE_NONE'' (uint maxFrameRate) 0)) False) mpp_return
    (on_fail (enable_vpss_chn env VpssGrp 2
        (Some (vpss_chn_attr VI_SIZE2 ''OT_COMPRESS_MODE_NONE'' subVpssFrameRate 2)) False) mpp_return
    (on_fail (mpi env (ss_mpi_vpss_start_grp VpssGrp)) mpp_return
    (mpp_return TD_SUCCESS)))))"

text \<open>The loop over the physical channels is unrolled to the list of enabled ones.\<close>

definition vpss_stop :: "mpp_env \<Rightarrow> int \<Rightarrow> bool list \<Rightarrow> td_s32 mpp" where
  "vpss_stop env VpssGrp enabled =
     mpi_seq env mpp_return
       (map (\<lambda>(j, _). ss_mpi_vpss_disable_chn VpssGrp (int j)) (filter snd (enumerate 0 enabled))
        @ [ss_mpi_vpss_stop_grp VpssGrp, ss_mpi_vpss_destroy_grp VpssGrp])
       (mpp_return TD_SUCCESS)"

definition bind_vi_vpss :: "mpp_env \<Rightarrow> int \<Rightarrow> int \<Rightarrow> int \<Rightarrow> int \<Rightarrow> td_s32 mpp" where
  "bind_vi_vpss env ViPipe ViChn VpssGrp VpssChn =
     on_fail (mpi env (ss_mpi_sys_bind \<lparr>mod_id = ''OT_ID_VI'', dev_id = ViPipe, chn_id = ViChn\<rparr>
                                       \<lparr>mod_id = ''OT_ID_VPSS'', dev_id = VpssGrp, chn_id = VpssChn\<rparr>))
       (\<lambda>ret. mpp_bind (vpss_stop env VpssGrp [True, True, False]) (\<lambda>_. mpp_return ret))
       (mpp_return TD_SUCCESS)"

section \<open>Encoders\<close>

text \<open>\<open>venc_chn_param[venc_chn_num] = {}\<close>.\<close>

definition zero_chn_param :: venc_chn_param where
  "zero_chn_param =
     \<lparr>cp_frame_rate = 0, cp_stats_time = 0, cp_gop = 0, cp_size = PIC_CIF, cp_venc_size = \<lparr>width = 0, height = 0\<rparr>,
      cp_profile = 0, cp_is_rcn_ref_share_buf = False,
      cp_gop_attr = \<lparr>gop_mode = OT_VENC_GOP_MODE_NORMAL_P, gop_arm = ZeroGop\<rparr>, cp_type = PT_ZERO, cp_rc_mode = RC_ABR\<rparr>"

definition start_stream :: "mpp_env \<Rightarrow> rc_cvbr \<Rightarrow> int \<Rightarrow> int \<Rightarrow> venc_chn_param \<Rightarrow> int \<Rightarrow> td_s32 mpp \<Rightarrow> td_s32 mpp" where
  "start_stream env junk VpssGrp chn p vpss_chn k =
     on_fail (comm_venc_start env junk chn p) (\<lambda>_. mpp_return TD_FAILURE)
    (on_fail (bind_vpss_venc env VpssGrp vpss_chn chn) (\<lambda>_. mpp_return TD_FAILURE) k)"

definition venc_start_encode :: "mpp_env \<Rightarrow> rc_cvbr \<Rightarrow> int \<Rightarrow> td_s32 mpp" where
  "venc_start_encode env junk VpssGrp =
     (case comm_venc_get_gop_attr OT_VENC_GOP_MODE_NORMAL_P \<lparr>gop_mode = OT_VENC_GOP_MODE_NORMAL_P, gop_arm = ZeroGop\<rparr> of
        (ret, gop) \<Rightarrow>
          if ret \<noteq> TD_SUCCESS then mpp_return TD_FAILURE
          else on_fail (comm_venc_mini_buf_en env) (\<lambda>_. mpp_return TD_FAILURE)
         (case venc_set_video_param (replicate 3 zero_chn_param) 3 gop of
            Inl e \<Rightarrow> (\<lambda>v. Inl e)
          | Inr (ret, ps) \<Rightarrow>
              if ret \<noteq> TD_SUCCESS then mpp_return TD_FAILURE
              else start_stream env junk VpssGrp 0 (ps ! 0) 0
                  (start_stream env junk VpssGrp 1 (ps ! 1) 1
                  (start_stream env junk VpssGrp 2 (ps ! 2) 1
                  (mpp_return TD_SUCCESS)))))"

section \<open>The interfaces\<close>

definition init :: "mpp_env \<Rightarrow> rc_cvbr \<Rightarrow> td_s32 mpp" where
  "init env junk =
     on_fail (hi_mpp_sys_init env) mpp_return
    (on_fail (hi_mpp_vi_init env 0 0) mpp_return
    (on_fail (init_vpss_module env 0) mpp_return
    (on_fail (bind_vi_vpss env 0 0 0 0) mpp_return
    (on_fail (venc_start_encode env junk 0) mpp_return
    (mpp_return TD_SUCCESS)))))"

definition deinit :: "td_s32 mpp" where "deinit = mpp_return TD_SUCCESS"
definition pipeline_start :: "td_s32 mpp" where "pipeline_start = mpp_return TD_SUCCESS"
definition pipeline_stop :: "td_s32 mpp" where "pipeline_stop = mpp_return TD_SUCCESS"

definition createChannel :: "int \<Rightarrow> CodecType \<Rightarrow> Size \<Rightarrow> td_s32 mpp" where
  "createChannel chn codec resolution = mpp_return TD_SUCCESS"

definition destroyChannel :: "int \<Rightarrow> td_s32 mpp" where "destroyChannel chn = mpp_return TD_SUCCESS"
definition startChannel :: "int \<Rightarrow> td_s32 mpp" where "startChannel chn = mpp_return TD_SUCCESS"
definition stopChannel :: "int \<Rightarrow> td_s32 mpp" where "stopChannel chn = mpp_return TD_SUCCESS"

end
