(* ===== verification/Pipeline_Init.thy ===== *)
theory Pipeline_Init
  imports Video_Pipeline
begin

text \<open>
  Bringing up the video pipeline: it stops at the first failure, is always defined on a fresh
  object, and when it succeeds has made exactly the expected calls.
\<close>

section \<open>Stopping at the first failure\<close>

lemma cleanup_run_seq_return:
  assumes "list_all cleanup cs"
  shows "cleanup_run env (mpi_seq env mpp_return cs (mpp_return x))"
  using assms
proof (induction cs)
  case Nil
  then show ?case by (auto simp: cleanup_run_def cleanups_def)
next
  case (Cons c cs)
  show ?case
    unfolding cleanup_run_def
  proof (intro allI impI)
    fix v v' :: videoProcessHi and r :: int
    let ?e = "(c, env_ret env (trace v) c)"
    assume "mpi_seq env mpp_return (c # cs) (mpp_return x) v = Inr (r, v')"
    then have "on_fail (mpi env c) mpp_return (mpi_seq env mpp_return cs (mpp_return x)) v = Inr (r, v')" by simp
    then show "\<exists>tr. trace v' = trace v @ tr \<and> cleanups env tr"
    proof (cases rule: on_failE)
      case (fails ret w)
      with Cons.prems show ?thesis by (auto simp: mpi_def Let_def cleanups_def)
    next
      case (goes_on w)
      then have w: "trace w = trace v @ [?e]" by (auto simp: mpi_def Let_def)
      from Cons have "cleanup_run env (mpi_seq env mpp_return cs (mpp_return x))" by simp
      then obtain tr where "trace v' = trace w @ tr" "cleanups env tr"
        using goes_on(2) unfolding cleanup_run_def by blast
      with w Cons.prems show ?thesis by (auto simp: cleanups_def)
    qed
  qed
qed

lemma cleanup_vpss_stop [prompt_rules]: "cleanup_run env (vpss_stop env g enabled)"
  unfolding vpss_stop_def by (rule cleanup_run_seq_return) (auto simp: list_all_iff)

lemma prompt_sys_init [prompt_rules]: "prompt_run env (hi_mpp_sys_init env)"
proof (rule prompt_runI)
  fix v v' :: videoProcessHi and r :: int
  assume "hi_mpp_sys_init env v = Inr (r, v')"
  then obtain x w where wrap: "mpp_get wrap_enable (\<lambda>wrap.
          if wrap then comm_vpss_get_wrap_cfg env comm_vpss_get_default_chn_attr OT_VI_OFFLINE_VPSS_ONLINE 1700
          else mpp_return TD_SUCCESS) v = Inr (x, w)"
    and seq: "mpp_get (vb_conf env) (\<lambda>conf. mpi_seq env mpp_return
            [ss_mpi_sys_exit, ss_mpi_vb_exit, ss_mpi_vb_set_cfg conf, ss_mpi_vb_init, ss_mpi_sys_set_cfg 64,
             ss_mpi_sys_init] (mpp_return TD_SUCCESS)) w = Inr (r, v')"
    unfolding hi_mpp_sys_init_def by (rule mpp_bindE)
  have "\<exists>tr. trace w = trace v @ tr \<and> all_ok tr \<and> answered env tr"
    using wrap
    by (auto simp: mpp_get_def comm_vpss_get_wrap_cfg_def set_wrap_def on_fail_def mpp_bind_def mpi_def Let_def
        split: if_splits)
  then obtain tr where tr: "trace w = trace v @ tr" "all_ok tr" "answered env tr" by blast
  have "prompt_run env (mpp_get (vb_conf env) (\<lambda>conf. mpi_seq env mpp_return
            [ss_mpi_sys_exit, ss_mpi_vb_exit, ss_mpi_vb_set_cfg conf, ss_mpi_vb_init, ss_mpi_sys_set_cfg 64,
             ss_mpi_sys_init] (mpp_return TD_SUCCESS)))"
    by (intro prompt_rules) simp_all
  then obtain tr' where "trace v' = trace w @ tr'" "outcome env r tr'" using seq by (rule prompt_runE)
  with tr outcome_after [OF tr(2,3)] show "\<exists>tr. trace v' = trace v @ tr \<and> outcome env r tr" by simp
qed

lemma prompt_set_vi_vpss_mode [prompt_rules]: "prompt_run env (set_vi_vpss_mode env mode)"
  unfolding set_vi_vpss_mode_def Let_def by (intro prompt_rules) simp_all

lemma prompt_start_mipi [prompt_rules]: "prompt_run env (comm_vi_start_mipi env)"
  unfolding comm_vi_start_mipi_def
  by (intro prompt_rules) (auto simp: list_all_iff)

lemma prompt_create_vi [prompt_rules]: "prompt_run env (comm_vi_create_vi env d p c)"
  unfolding comm_vi_create_vi_def by (intro prompt_rules) simp_all

lemma prompt_isp_run [prompt_rules]: "prompt_run env (comm_isp_run p)"
  by (rule prompt_runI) (auto simp: comm_isp_run_def outcome_def split: if_splits)

lemma prompt_no_sensor [prompt_rules]: "\<not> sensor_ok env \<Longrightarrow> prompt_run env (mpp_return TD_FAILURE)"
  by (rule prompt_runI) (auto simp: outcome_def)

lemma prompt_create_isp [prompt_rules]: "prompt_run env (comm_vi_create_isp env p)"
  unfolding comm_vi_create_isp_def
  by (cases "env_sns_obj env")
    (auto simp: sensor_ok_def intro!: prompt_rules split: prod.splits)

lemma prompt_start_vi [prompt_rules]: "prompt_run env (comm_vi_start_vi env d p c)"
  unfolding comm_vi_start_vi_def by (intro prompt_rules)

lemma prompt_init_vi_process [prompt_rules]: "prompt_run env (init_vi_process env d p c)"
  unfolding init_vi_process_def by (intro prompt_rules) simp_all

lemma prompt_init_vi_module [prompt_rules]: "prompt_run env (init_vi_module env d p c)"
  unfolding init_vi_module_def by (intro prompt_rules) simp_all

lemma prompt_vi_init [prompt_rules]: "prompt_run env (hi_mpp_vi_init env p c)"
  unfolding hi_mpp_vi_init_def by (intro prompt_rules)

lemma prompt_enable_vpss_chn [prompt_rules]:
  "g \<in> {0..6} \<Longrightarrow> c \<in> {0..5} \<Longrightarrow> prompt_run env (enable_vpss_chn env g c (Some attr) ext)"
  unfolding enable_vpss_chn_def
  by (intro prompt_rules) (auto simp: OT_VPSS_MAX_GRP_NUM_def OT_VPSS_MAX_CHN_NUM_def)

lemma prompt_init_vpss_module [prompt_rules]: "g \<in> {0..6} \<Longrightarrow> prompt_run env (init_vpss_module env g)"
  unfolding init_vpss_module_def by (intro prompt_rules) simp_all

lemma prompt_bind_vi_vpss [prompt_rules]: "prompt_run env (bind_vi_vpss env p c g k)"
  unfolding bind_vi_vpss_def by (intro prompt_rules) simp_all

text \<open>The three streams.\<close>

definition stream_param :: "u32 \<Rightarrow> ot_payload_type \<Rightarrow> PicSize \<Rightarrow> venc_chn_param" where
  "stream_param frame_rate type sz =
     \<lparr>cp_frame_rate = frame_rate, cp_stats_time = 2, cp_gop = 60, cp_size = sz,
      cp_venc_size = \<lparr>width = 0, height = 0\<rparr>, cp_profile = 0, cp_is_rcn_ref_share_buf = True,
      cp_gop_attr = \<lparr>gop_mode = OT_VENC_GOP_MODE_NORMAL_P, gop_arm = NormalP 2\<rparr>, cp_type = type, cp_rc_mode = RC_CBR\<rparr>"

lemma replicate3: "replicate 3 x = [x, x, x]"
  by (simp add: numeral_eq_Suc)

lemma venc_start_encode_eq:
  "venc_start_encode env junk g =
     on_fail (comm_venc_mini_buf_en env) (\<lambda>_. mpp_return TD_FAILURE)
       (start_stream env junk g 0 (stream_param 30 OT_PT_H265 PIC_2560X1440) 0
       (start_stream env junk g 1 (stream_param 30 OT_PT_H264 PIC_720P) 1
       (start_stream env junk g 2 (stream_param 10 OT_PT_MJPEG PIC_360P) 1
       (mpp_return TD_SUCCESS))))"
  by (simp add: venc_start_encode_def comm_venc_get_gop_attr_def venc_set_video_param_def zero_chn_param_def
      stream_param_def maxFrameRate_def subVencFrameRate_def replicate3 nth_Cons')

lemma stream_acceptable [simp]:
  "sz \<noteq> PIC_BUTT \<Longrightarrow> type \<in> coded_types \<Longrightarrow> acceptable (stream_param f type sz)"
  by (simp add: acceptable_def stream_param_def)

lemma prompt_start_stream [prompt_rules]:
  "acceptable p \<Longrightarrow> prompt_run env k \<Longrightarrow> prompt_run env (start_stream env junk g chn p c k)"
  unfolding start_stream_def by (intro prompt_rules) simp_all

lemma prompt_venc_start_encode [prompt_rules]: "prompt_run env (venc_start_encode env junk g)"
  unfolding venc_start_encode_eq by (intro prompt_rules) (simp_all add: coded_types_def)

lemma prompt_init: "prompt_run env (init env junk)"
  unfolding init_def by (intro prompt_rules) simp_all

section \<open>Definedness\<close>

named_theorems starting_rules "computations that may start the thread"

lemma starting_get [starting_rules]: "(\<And>x. starting (k x)) \<Longrightarrow> starting (mpp_get sel k)"
  unfolding starting_def mpp_get_def by blast

lemma starting_then [starting_rules]: "starting k \<Longrightarrow> starting (then_mpi env c k)"
  by (simp add: starting_def then_mpi_def mpp_bind_def mpi_def Let_def)

lemma starting_seq [starting_rules]:
  "(\<And>r. steady (fail r)) \<Longrightarrow> starting k \<Longrightarrow> starting (mpi_seq env fail cs k)"
  by (induction cs) (auto intro!: starting_after steady_rules)

lemma starting_return [starting_rules]: "starting (mpp_return x)"
  by (simp add: starting_def)

lemma steady_set_wrap [steady_rules]:
  assumes "steady k" shows "steady (set_wrap w k)"
  unfolding steady_def
proof
  fix v :: videoProcessHi
  let ?v = "v\<lparr>stVpssChnBufWrap := w\<rparr>"
  from assms obtain x v' where "k ?v = Inr (x, v') \<and> ispThread v' = ispThread ?v
      \<and> wrap_enable v' = wrap_enable ?v \<and> video_stretch_enable v' = video_stretch_enable ?v"
    unfolding steady_def by blast
  then show "\<exists>x v'. set_wrap w k v = Inr (x, v') \<and> ispThread v' = ispThread v
      \<and> wrap_enable v' = wrap_enable v \<and> video_stretch_enable v' = video_stretch_enable v"
    by (simp add: set_wrap_def)
qed

lemma steady_sys_init [steady_rules]: "steady (hi_mpp_sys_init env)"
  unfolding hi_mpp_sys_init_def comm_vpss_get_wrap_cfg_def Let_def by (intro steady_rules)

lemma steady_set_vi_vpss_mode [steady_rules]: "steady (set_vi_vpss_mode env mode)"
  unfolding set_vi_vpss_mode_def Let_def by (intro steady_rules)

lemma steady_start_mipi [steady_rules]: "steady (comm_vi_start_mipi env)"
  unfolding comm_vi_start_mipi_def by (intro steady_rules)

lemma steady_create_vi [steady_rules]: "steady (comm_vi_create_vi env d p c)"
  unfolding comm_vi_create_vi_def by (intro steady_rules)

lemma steady_enable_vpss_chn [steady_rules]: "steady (enable_vpss_chn env g c attr ext)"
  unfolding enable_vpss_chn_def by (intro steady_rules)

lemma steady_init_vpss_module [steady_rules]: "steady (init_vpss_module env g)"
  unfolding init_vpss_module_def by (intro steady_rules)

lemma steady_vpss_stop [steady_rules]: "steady (vpss_stop env g enabled)"
  unfolding vpss_stop_def by (intro steady_rules)

lemma steady_bind_vi_vpss [steady_rules]: "steady (bind_vi_vpss env p c g k)"
  unfolding bind_vi_vpss_def by (intro steady_rules)

lemma steady_start_stream [steady_rules]:
  "acceptable p \<Longrightarrow> steady k \<Longrightarrow> steady (start_stream env junk g chn p c k)"
  unfolding start_stream_def by (intro steady_rules)

lemma steady_venc_start_encode [steady_rules]: "steady (venc_start_encode env junk g)"
  unfolding venc_start_encode_eq by (intro steady_rules) (simp_all add: coded_types_def)

lemma starting_isp_run [starting_rules]: "starting (comm_isp_run d)"
  by (simp add: starting_def comm_isp_run_def)

lemma starting_create_isp [starting_rules]: "starting (comm_vi_create_isp env p)"
  unfolding comm_vi_create_isp_def
  by (rule starting_after)
    (auto simp del: mpi_seq.simps intro!: steady_rules starting_rules starting_before [OF starting_isp_run]
      split: option.splits)

lemma starting_start_vi [starting_rules]: "starting (comm_vi_start_vi env d p c)"
  unfolding comm_vi_start_vi_def
  by (intro starting_after [OF steady_start_mipi] starting_after [OF steady_create_vi]
      starting_before [OF starting_create_isp] steady_rules)

lemma starting_vi_init [starting_rules]: "starting (hi_mpp_vi_init env p c)"
  unfolding hi_mpp_vi_init_def init_vi_module_def init_vi_process_def
  by (intro starting_after [OF steady_set_vi_vpss_mode] starting_before starting_get starting_seq
      starting_start_vi steady_rules)

lemma starting_init: "starting (init env junk)"
  unfolding init_def
  by (intro starting_after [OF steady_sys_init] starting_before [OF starting_vi_init] steady_rules)

text \<open>
  C25: initialising the pipeline is defined whatever the driver answers, unless the ISP thread is
  there already.  It stops at the first call that fails, after which only calls that take something
  down follow; it returns 0 only if no call failed, and, with a complete sensor object, exactly then.
\<close>

theorem init_prompt:
  assumes "\<not> ispThread v"
  shows "\<exists>r v' tr. init env junk v = Inr (r, v') \<and> trace v' = trace v @ tr \<and> prompt tr
    \<and> (r = 0 \<longrightarrow> all_ok tr) \<and> (sensor_ok env \<and> all_ok tr \<longrightarrow> r = 0)"
proof -
  from assms obtain r v' where i: "init env junk v = Inr (r, v')"
    using starting_init unfolding starting_def by blast
  with prompt_init obtain tr where "trace v' = trace v @ tr" "outcome env r tr" by (rule prompt_runE)
  with i show ?thesis by (auto simp: outcome_def)
qed

text \<open>A driver that accepts everything, for the examples.\<close>

definition willing_driver :: mpp_env where
  "willing_driver =
     \<lparr>env_ret = (\<lambda>tr c. if c = sys_open MIPI_DEV_NODE then 3 else 0), env_rc_mode = created_rc_mode,
      env_mod_param = (\<lambda>tr m. m\<lparr>mod_rest := []\<rparr>), env_buf_line = (\<lambda>tr. 0), env_sns_obj = Some (True, True),
      env_pic_buf_size = (\<lambda>a. 4096), env_wrap_buf_size = (\<lambda>a n. 4096)\<rparr>"

theorem init_prompt_witness:
  "\<exists>r v' tr. init (willing_driver\<lparr>env_ret := (\<lambda>_ _. 7)\<rparr>) no_cvbr new_videoProcessHi = Inr (r, v') \<and> trace v' = tr \<and> prompt tr
     \<and> r \<noteq> 0"
proof -
  let ?env = "willing_driver\<lparr>env_ret := (\<lambda>_ _. 7)\<rparr>"
  have "\<not> ispThread new_videoProcessHi" by (simp add: new_videoProcessHi_def)
  from init_prompt [OF this, of ?env no_cvbr] obtain r v' tr where
    i: "init ?env no_cvbr new_videoProcessHi = Inr (r, v')" "trace v' = tr" "prompt tr"
    by (auto simp: new_videoProcessHi_def)
  have "r \<noteq> 0"
    using i(1)
    by (auto simp: init_def on_fail_def mpp_bind_def hi_mpp_sys_init_def mpp_get_def new_videoProcessHi_def mpi_def
        Let_def mpp_return_def)
  with i show ?thesis by blast
qed

section \<open>The calls of a successful initialisation\<close>

definition sys_calls :: "(ot_pic_buf_attr \<Rightarrow> u32) \<Rightarrow> mpp_call list" where
  "sys_calls buf_size =
     [ss_mpi_sys_exit, ss_mpi_vb_exit,
      ss_mpi_vb_set_cfg \<lparr>max_pool_cnt = 128, common_pool =
        [(ucast (buf_size (pic_buf_attr VI_SIZE0)), 3), (ucast (buf_size (pic_buf_attr VI_SIZE1)), 3),
         (ucast (buf_size (pic_buf_attr VI_SIZE2)), 2)]\<rparr>,
      ss_mpi_vb_init, ss_mpi_sys_set_cfg 64, ss_mpi_sys_init]"

definition mipi_calls :: "int \<Rightarrow> mpp_call list" where
  "mipi_calls fd = sys_open MIPI_DEV_NODE # map (sys_ioctl fd) mipi_requests @ [sys_close fd]"

definition vi_calls :: "mpp_call list" where
  "vi_calls =
     [ss_mpi_vi_set_dev_attr 0 vi_dev_attr, ss_mpi_vi_enable_dev 0, ss_mpi_vi_bind 0 0, ss_mpi_vi_create_pipe 0 vi_pipe_attr,
      ss_mpi_vi_start_pipe 0, ss_mpi_vi_set_chn_attr 0 0 vi_chn_attr, ss_mpi_vi_enable_chn 0 0,
      ss_mpi_vi_get_pipe_3dnr_attr 0, ss_mpi_vi_set_pipe_3dnr_attr 0 vi_3dnr_attr]"

definition isp_calls :: "mpp_call list" where
  "isp_calls =
     [ss_mpi_isp_exit 0, pfn_register_callback 0, pfn_set_bus_info 0 0, ss_mpi_ae_register 0, ss_mpi_awb_register 0,
      ss_mpi_isp_mem_init 0, ss_mpi_isp_set_pub_attr 0 isp_pub_attr, ss_mpi_isp_init 0]"

definition vpss_calls :: "mpp_call list" where
  "vpss_calls =
     [ss_mpi_vpss_create_grp 0 vpss_grp_attr,
      ss_mpi_vpss_set_chn_attr 0 0 (Some (vpss_chn_attr VI_SIZE0 ''OT_COMPRESS_MODE_SEG_COMPACT'' 30 0)),
      ss_mpi_vpss_enable_chn 0 0,
      ss_mpi_vpss_set_chn_attr 0 1 (Some (vpss_chn_attr VI_SIZE1 ''OT_COMPRESS_MODE_NONE'' 30 0)),
      ss_mpi_vpss_enable_chn 0 1,
      ss_mpi_vpss_set_chn_attr 0 2 (Some (vpss_chn_attr VI_SIZE2 ''OT_COMPRESS_MODE_NONE'' 5 2)),
      ss_mpi_vpss_enable_chn 0 2,
      ss_mpi_vpss_start_grp 0]"

definition bind_call :: "mpp_enum \<Rightarrow> int \<Rightarrow> int \<Rightarrow> mpp_enum \<Rightarrow> int \<Rightarrow> int \<Rightarrow> mpp_call" where
  "bind_call m d c m' d' c' =
     ss_mpi_sys_bind \<lparr>mod_id = m, dev_id = d, chn_id = c\<rparr> \<lparr>mod_id = m', dev_id = d', chn_id = c'\<rparr>"

text \<open>The attributes of the three streams: H.265 at 2560x1440, H.264 at 1280x720, MJPEG at 640x360.\<close>

definition normal_p :: "int \<Rightarrow> ot_venc_gop_attr" where
  "normal_p delta = \<lparr>gop_mode = OT_VENC_GOP_MODE_NORMAL_P, gop_arm = NormalP delta\<rparr>"

definition cbr :: "u32 \<Rightarrow> u32 \<Rightarrow> rc_xbr" where
  "cbr frame_rate bit_rate =
     \<lparr>xbr_gop = 60, xbr_stats_time = 2, xbr_src_frame_rate = frame_rate, xbr_dst_frame_rate = frame_rate,
      xbr_bit_rate = bit_rate\<rparr>"

definition stream_attr :: "ot_payload_type \<Rightarrow> u32 \<Rightarrow> u32 \<Rightarrow> u32 \<Rightarrow> venc_attr_union \<Rightarrow> ot_venc_attr" where
  "stream_attr type w h buf_size arm =
     \<lparr>va_type = type, va_max_pic_width = w, va_max_pic_height = h, va_buf_size = buf_size, va_profile = 0,
      va_is_by_frame = True, va_pic_width = w, va_pic_height = h, va_arm = arm\<rparr>"

definition main_attr :: ot_venc_chn_attr where
  "main_attr = \<lparr>venc_attr = stream_attr OT_PT_H265 2560 1440 2764800 (H265Attr True 75),
     rc_attr = \<lparr>rc_mode = OT_VENC_RC_MODE_H265_CBR, rc_arm = H265Cbr (cbr 30 5461)\<rparr>, gop_attr = normal_p 2\<rparr>"

definition sub_attr :: ot_venc_chn_attr where
  "sub_attr = \<lparr>venc_attr = stream_attr OT_PT_H264 1280 720 691200 (H264Attr True 75),
     rc_attr = \<lparr>rc_mode = OT_VENC_RC_MODE_H264_CBR, rc_arm = H264Cbr (cbr 30 1820)\<rparr>, gop_attr = normal_p 2\<rparr>"

definition mjpeg_attr :: ot_venc_chn_attr where
  "mjpeg_attr = \<lparr>venc_attr = stream_attr OT_PT_MJPEG 640 360 942080 ZeroAttr,
     rc_attr = \<lparr>rc_mode = OT_VENC_RC_MODE_MJPEG_CBR, rc_arm = MjpegCbr \<lparr>mjb_stats_time = 2, mjb_src_frame_rate = 10,
       mjb_dst_frame_rate = 10, mjb_bit_rate = 2275\<rparr>\<rparr>, gop_attr = normal_p 0\<rparr>"

definition venc_calls :: "(ot_venc_mod_type \<Rightarrow> u32 list) \<Rightarrow> mpp_call list" where
  "venc_calls rest =
     concat (map (mini_buf_calls rest) [PAYLOAD_TYPE_H264, PAYLOAD_TYPE_H265, PAYLOAD_TYPE_MJPEG])
     @ start_calls 0 main_attr @ [bind_call ''OT_ID_VPSS'' 0 0 ''OT_ID_VENC'' 0 0]
     @ start_calls 1 sub_attr @ [bind_call ''OT_ID_VPSS'' 0 1 ''OT_ID_VENC'' 0 1]
     @ start_calls 2 mjpeg_attr @ [bind_call ''OT_ID_VPSS'' 0 1 ''OT_ID_VENC'' 0 2]"

definition init_calls :: "(ot_pic_buf_attr \<Rightarrow> u32) \<Rightarrow> int \<Rightarrow> (ot_venc_mod_type \<Rightarrow> u32 list) \<Rightarrow> mpp_call list" where
  "init_calls buf_size fd rest =
     sys_calls buf_size
     @ [ss_mpi_sys_get_vi_vpss_mode,
        ss_mpi_sys_set_vi_vpss_mode (OT_VI_ONLINE_VPSS_ONLINE # replicate 3 OT_VI_OFFLINE_VPSS_OFFLINE),
        ss_mpi_isp_get_ctrl_param 0, ss_mpi_isp_set_ctrl_param 0 1]
     @ mipi_calls fd @ vi_calls @ isp_calls @ vpss_calls @ [bind_call ''OT_ID_VI'' 0 0 ''OT_ID_VPSS'' 0 0]
     @ venc_calls rest"

lemma stream_init:
  "pic_lookup PIC_2560X1440 = Some \<lparr>width = 2560, height = 1440\<rparr>"
  "pic_lookup PIC_720P = Some \<lparr>width = 1280, height = 720\<rparr>"
  "pic_lookup PIC_360P = Some \<lparr>width = 640, height = 360\<rparr>"
  by (simp_all add: pic_lookup_def pic_value_def pic_enumerators_def pic_size_array_def)

lemma main_init:
  "\<exists>p. comm_venc_channel_param_init junk ((stream_param 30 OT_PT_H265 PIC_2560X1440)
       \<lparr>cp_venc_size := \<lparr>width = 2560, height = 1440\<rparr>\<rparr>) zero_chn_attr = Inr (0, p, main_attr)"
  by (simp add: chn_attr_defs codec_init_defs rc_init_defs stream_param_def main_attr_def stream_attr_def cbr_def
      normal_p_def frame_buf_ratio_default_def OT_ALIGN_UP_def fhd_bit_rate_def Let_def)

lemma sub_init:
  "\<exists>p. comm_venc_channel_param_init junk ((stream_param 30 OT_PT_H264 PIC_720P)
       \<lparr>cp_venc_size := \<lparr>width = 1280, height = 720\<rparr>\<rparr>) zero_chn_attr = Inr (0, p, sub_attr)"
  by (simp add: chn_attr_defs codec_init_defs rc_init_defs stream_param_def sub_attr_def stream_attr_def cbr_def
      normal_p_def frame_buf_ratio_default_def OT_ALIGN_UP_def fhd_bit_rate_def Let_def)

lemma mjpeg_init:
  "\<exists>p. comm_venc_channel_param_init junk ((stream_param 10 OT_PT_MJPEG PIC_360P)
       \<lparr>cp_venc_size := \<lparr>width = 640, height = 360\<rparr>\<rparr>) zero_chn_attr = Inr (0, p, mjpeg_attr)"
  by (simp add: chn_attr_defs codec_init_defs rc_init_defs stream_param_def mjpeg_attr_def stream_attr_def
      normal_p_def OT_ALIGN_UP_def fhd_bit_rate_def Let_def)

lemma calls_bind_call [calls_rules]:
  "calls (bind_vpss_venc env g c chn) [bind_call ''OT_ID_VPSS'' g c ''OT_ID_VENC'' 0 chn]"
  unfolding bind_call_def by (rule calls_bind_vpss_venc)

lemma calls_start_stream:
  assumes "calls (comm_venc_start env junk chn p) cs" and "calls k ds"
  shows "calls (start_stream env junk g chn p c k) (cs @ [bind_call ''OT_ID_VPSS'' g c ''OT_ID_VENC'' 0 chn] @ ds)"
  unfolding start_stream_def by (intro calls_rules assms) simp_all

lemma calls_venc_start_encode:
  assumes env: "driver_reports rest env"
  shows "calls (venc_start_encode env junk 0) (venc_calls rest)"
proof -
  have mini: "calls (comm_venc_mini_buf_en env)
      (concat (map (mini_buf_calls rest) [PAYLOAD_TYPE_H264, PAYLOAD_TYPE_H265, PAYLOAD_TYPE_MJPEG]))"
    unfolding comm_venc_mini_buf_en_def by (rule calls_mini_buf_loop [OF env]) simp
  have start: "calls (comm_venc_start env junk chn p) (start_calls chn attr)"
    if "acceptable p" "pic_lookup (cp_size p) = Some z"
      "\<exists>p'. comm_venc_channel_param_init junk (p\<lparr>cp_venc_size := z\<rparr>) zero_chn_attr = Inr (0, p', attr)" for chn p z attr
    using that calls_venc_start [OF that(1,2) _ env] by blast
  have size: "cp_size (stream_param f t sz) = sz" for f t sz by (simp add: stream_param_def)
  have main: "calls (comm_venc_start env junk 0 (stream_param 30 OT_PT_H265 PIC_2560X1440)) (start_calls 0 main_attr)"
    by (rule start [OF _ _ main_init]) (simp_all add: size stream_init coded_types_def)
  have sub: "calls (comm_venc_start env junk 1 (stream_param 30 OT_PT_H264 PIC_720P)) (start_calls 1 sub_attr)"
    by (rule start [OF _ _ sub_init]) (simp_all add: size stream_init coded_types_def)
  have mjpeg: "calls (comm_venc_start env junk 2 (stream_param 10 OT_PT_MJPEG PIC_360P)) (start_calls 2 mjpeg_attr)"
    by (rule start [OF _ _ mjpeg_init]) (simp_all add: size stream_init coded_types_def)
  have "calls (venc_start_encode env junk 0)
      (concat (map (mini_buf_calls rest) [PAYLOAD_TYPE_H264, PAYLOAD_TYPE_H265, PAYLOAD_TYPE_MJPEG])
       @ (start_calls 0 main_attr @ [bind_call ''OT_ID_VPSS'' 0 0 ''OT_ID_VENC'' 0 0]
       @ (start_calls 1 sub_attr @ [bind_call ''OT_ID_VPSS'' 0 1 ''OT_ID_VENC'' 0 1]
       @ (start_calls 2 mjpeg_attr @ [bind_call ''OT_ID_VPSS'' 0 1 ''OT_ID_VENC'' 0 2] @ []))))"
    unfolding venc_start_encode_eq
    by (rule calls_on_fail [OF mini], simp add: calls_rules)
      (intro calls_start_stream main sub mjpeg calls_return)
  then show ?thesis by (rule calls_weaken) (simp add: venc_calls_def)
qed

lemma calls_sys_init: "calls (hi_mpp_sys_init env) (sys_calls (env_pic_buf_size env))"
  unfolding calls_def
proof (intro allI impI)
  fix v v' :: videoProcessHi assume a: "plain v \<and> hi_mpp_sys_init env v = Inr (0, v')"
  have "calls (mpi_seq env mpp_return (sys_calls (env_pic_buf_size env)) (mpp_return TD_SUCCESS))
      (sys_calls (env_pic_buf_size env) @ [])"
    by (intro calls_rules)
  moreover have w: "\<not> wrap_enable v" and p: "plain v" using a by (simp_all add: plain_def)
  have "mpi_seq env mpp_return (sys_calls (env_pic_buf_size env)) (mpp_return TD_SUCCESS) v = Inr (0, v')"
    using a unfolding hi_mpp_sys_init_def mpp_bind_def mpp_get_def mpp_return_def vb_conf_def sys_calls_def
    by (simp only: w fst_conv snd_conv prod.case sum.case if_False simp_thms split_beta Let_def)
  ultimately show "plain v' \<and> map fst (trace v') = map fst (trace v) @ sys_calls (env_pic_buf_size env)"
    using p by (metis append_Nil2 callsD')
qed

lemma calls_start_mipi:
  assumes open_fd: "\<And>tr. env_ret env tr (sys_open MIPI_DEV_NODE) = fd" and "0 \<le> fd"
  shows "calls (comm_vi_start_mipi env) (mipi_calls fd)"
  unfolding calls_def
proof (intro allI impI)
  fix v v' :: videoProcessHi assume a: "plain v \<and> comm_vi_start_mipi env v = Inr (0, v')"
  let ?v = "v\<lparr>trace := trace v @ [(sys_open MIPI_DEV_NODE, fd)]\<rparr>"
  have "calls (mpi_seq env (\<lambda>_. then_mpi env (sys_close fd) (mpp_return TD_FAILURE)) (map (sys_ioctl fd) mipi_requests)
          (then_mpi env (sys_close fd) (mpp_return TD_SUCCESS))) (map (sys_ioctl fd) mipi_requests @ [sys_close fd])"
    by (intro calls_rules) simp
  moreover have "mpi_seq env (\<lambda>_. then_mpi env (sys_close fd) (mpp_return TD_FAILURE)) (map (sys_ioctl fd) mipi_requests)
          (then_mpi env (sys_close fd) (mpp_return TD_SUCCESS)) ?v = Inr (0, v')"
    using a assms by (simp add: comm_vi_start_mipi_def mpp_bind_def mpi_def Let_def)
  moreover have "plain ?v" using a by (simp add: plain_def)
  ultimately show "plain v' \<and> map fst (trace v') = map fst (trace v) @ mipi_calls fd"
    using callsD' [of _ _ ?v v'] by (simp add: mipi_calls_def)
qed

lemma calls_create_vi: "calls (comm_vi_create_vi env 0 0 0) vi_calls"
proof -
  have "calls (comm_vi_create_vi env 0 0 0)
      ([ss_mpi_vi_set_dev_attr 0 vi_dev_attr, ss_mpi_vi_enable_dev 0, ss_mpi_vi_bind 0 0, ss_mpi_vi_create_pipe 0 vi_pipe_attr]
       @ ([ss_mpi_vi_start_pipe 0, ss_mpi_vi_set_chn_attr 0 0 vi_chn_attr]
       @ [ss_mpi_vi_enable_chn 0 0, ss_mpi_vi_get_pipe_3dnr_attr 0, ss_mpi_vi_set_pipe_3dnr_attr 0 vi_3dnr_attr]))"
    unfolding comm_vi_create_vi_def by (intro calls_rules) simp_all
  then show ?thesis by (rule calls_weaken) (simp add: vi_calls_def)
qed

lemma calls_isp_run [calls_rules]: "calls (comm_isp_run p) []"
  by (simp add: calls_def comm_isp_run_def plain_def)

lemma calls_create_isp:
  assumes "sensor_ok env" shows "calls (comm_vi_create_isp env 0) isp_calls"
proof -
  have seq: "calls (mpi_seq env (\<lambda>_. mpp_return TD_FAILURE) cs
      (on_fail (comm_isp_run 0) (\<lambda>_. mpp_return TD_FAILURE) (mpp_return TD_SUCCESS))) (cs @ ([] @ []))" for cs
    by (intro calls_rules) simp_all
  have "calls (comm_vi_create_isp env 0)
      (ss_mpi_isp_exit 0 # pfn_register_callback 0 # pfn_set_bus_info 0 0
       # ([ss_mpi_ae_register 0, ss_mpi_awb_register 0, ss_mpi_isp_mem_init 0, ss_mpi_isp_set_pub_attr 0 isp_pub_attr,
           ss_mpi_isp_init 0] @ ([] @ [])))"
    using assms unfolding comm_vi_create_isp_def sensor_ok_def
    by (simp del: mpi_seq.simps append.simps) (rule calls_on_mpi, rule calls_rules, simp, intro calls_then_mpi, rule calls_weaken [OF seq], simp)
  then show ?thesis by (rule calls_weaken) (simp add: isp_calls_def)
qed

lemma calls_enable_vpss_chn:
  assumes "c \<in> {0, 1, 2}"
  shows "calls (enable_vpss_chn env 0 c (Some attr) False) [ss_mpi_vpss_set_chn_attr 0 c (Some attr), ss_mpi_vpss_enable_chn 0 c]"
proof -
  have c: "0 \<le> c" "c < 3" using assms by auto
  have "calls (mpi_seq env mpp_return [ss_mpi_vpss_set_chn_attr 0 c (Some attr), ss_mpi_vpss_enable_chn 0 c] (mpp_return TD_SUCCESS))
     ([ss_mpi_vpss_set_chn_attr 0 c (Some attr), ss_mpi_vpss_enable_chn 0 c] @ [])"
    by (intro calls_rules)
  then show ?thesis
    unfolding enable_vpss_chn_def
    using c
    by (simp add: OT_VPSS_MAX_GRP_NUM_def OT_VPSS_MAX_CHN_NUM_def OT_VPSS_MAX_PHYS_CHN_NUM_def rotateBSupport_def
        del: mpi_seq.simps)
      (rule calls_plain_get [where x = False], simp add: plain_def, rule calls_get, simp)
qed

lemma calls_vi_init:
  assumes open_fd: "\<And>tr. env_ret env tr (sys_open MIPI_DEV_NODE) = fd" and "0 \<le> fd" and sensor: "sensor_ok env"
  shows "calls (hi_mpp_vi_init env 0 0)
     ([ss_mpi_sys_get_vi_vpss_mode,
       ss_mpi_sys_set_vi_vpss_mode (OT_VI_ONLINE_VPSS_ONLINE # replicate 3 OT_VI_OFFLINE_VPSS_OFFLINE),
       ss_mpi_isp_get_ctrl_param 0, ss_mpi_isp_set_ctrl_param 0 1]
      @ mipi_calls fd @ vi_calls @ isp_calls)"
proof -
  have mode: "calls (set_vi_vpss_mode env OT_VI_ONLINE_VPSS_ONLINE)
      ([ss_mpi_sys_get_vi_vpss_mode,
        ss_mpi_sys_set_vi_vpss_mode (OT_VI_ONLINE_VPSS_ONLINE # replicate 3 OT_VI_OFFLINE_VPSS_OFFLINE)] @ [])"
    unfolding set_vi_vpss_mode_def Let_def
    by (simp only: ot_vi_vpss_mode_type.distinct if_False) (intro calls_seq calls_return fails_with_return; simp)
  have start: "calls (comm_vi_start_vi env 0 0 0) (mipi_calls fd @ vi_calls @ isp_calls @ [])"
    unfolding comm_vi_start_vi_def
    by (intro calls_on_fail calls_start_mipi open_fd \<open>0 \<le> fd\<close> calls_create_vi calls_create_isp sensor calls_return
        fails_with_return)
  have process: "calls (init_vi_process env 0 0 0)
      ([ss_mpi_isp_get_ctrl_param 0, ss_mpi_isp_set_ctrl_param 0 (maxFrameRate div 30)]
       @ (mipi_calls fd @ vi_calls @ isp_calls @ []) @ [])"
    unfolding init_vi_process_def
    by (intro calls_seq calls_on_fail start calls_return fails_with_return)
  have module: "calls (init_vi_module env 0 0 0)
      ([] @ ([ss_mpi_isp_get_ctrl_param 0, ss_mpi_isp_set_ctrl_param 0 (maxFrameRate div 30)]
       @ (mipi_calls fd @ vi_calls @ isp_calls @ []) @ []) @ [])"
    unfolding init_vi_module_def
    by (rule calls_plain_get [where x = False], simp add: plain_def, simp only: if_False)
      (intro calls_seq calls_on_fail process calls_return fails_with_return)
  have "calls (hi_mpp_vi_init env 0 0)
      (([ss_mpi_sys_get_vi_vpss_mode,
        ss_mpi_sys_set_vi_vpss_mode (OT_VI_ONLINE_VPSS_ONLINE # replicate 3 OT_VI_OFFLINE_VPSS_OFFLINE)] @ [])
       @ ([] @ ([ss_mpi_isp_get_ctrl_param 0, ss_mpi_isp_set_ctrl_param 0 (maxFrameRate div 30)]
       @ (mipi_calls fd @ vi_calls @ isp_calls @ []) @ []) @ []) @ [])"
    unfolding hi_mpp_vi_init_def
    by (intro calls_on_fail mode module calls_return fails_with_return)
  then show ?thesis by (rule calls_weaken) (simp add: maxFrameRate_def)
qed

lemma calls_init_vpss_module: "calls (init_vpss_module env 0) vpss_calls"
proof -
  have "calls (init_vpss_module env 0)
     (ss_mpi_vpss_create_grp 0 vpss_grp_attr
      # [ss_mpi_vpss_set_chn_attr 0 0 (Some (vpss_chn_attr VI_SIZE0 ''OT_COMPRESS_MODE_SEG_COMPACT'' (uint maxFrameRate) 0)),
         ss_mpi_vpss_enable_chn 0 0]
      @ [ss_mpi_vpss_set_chn_attr 0 1 (Some (vpss_chn_attr VI_SIZE1 ''OT_COMPRESS_MODE_NONE'' (uint maxFrameRate) 0)),
         ss_mpi_vpss_enable_chn 0 1]
      @ [ss_mpi_vpss_set_chn_attr 0 2 (Some (vpss_chn_attr VI_SIZE2 ''OT_COMPRESS_MODE_NONE'' subVpssFrameRate 2)),
         ss_mpi_vpss_enable_chn 0 2]
      @ ss_mpi_vpss_start_grp 0 # [])"
    unfolding init_vpss_module_def
    by (intro calls_on_mpi calls_on_fail calls_enable_vpss_chn calls_return fails_with_return; simp)
  then show ?thesis by (rule calls_weaken) (simp add: vpss_calls_def maxFrameRate_def subVpssFrameRate_def)
qed

lemma calls_bind_vi_vpss: "calls (bind_vi_vpss env 0 0 0 0) [bind_call ''OT_ID_VI'' 0 0 ''OT_ID_VPSS'' 0 0]"
  unfolding bind_vi_vpss_def bind_call_def
  by (intro calls_on_mpi fails_with_bind fails_with_return calls_return)

text \<open>With what the driver answers fixed as far as it matters to the calls made.\<close>

lemma calls_init:
  assumes open_fd: "\<And>tr. env_ret env tr (sys_open MIPI_DEV_NODE) = fd" and "0 \<le> fd" and sensor: "sensor_ok env"
    and rest: "driver_reports rest env"
  shows "calls (init env junk) (init_calls (env_pic_buf_size env) fd rest)"
proof -
  have "calls (init env junk)
     (sys_calls (env_pic_buf_size env)
      @ ([ss_mpi_sys_get_vi_vpss_mode,
          ss_mpi_sys_set_vi_vpss_mode (OT_VI_ONLINE_VPSS_ONLINE # replicate 3 OT_VI_OFFLINE_VPSS_OFFLINE),
          ss_mpi_isp_get_ctrl_param 0, ss_mpi_isp_set_ctrl_param 0 1]
         @ mipi_calls fd @ vi_calls @ isp_calls)
      @ vpss_calls @ [bind_call ''OT_ID_VI'' 0 0 ''OT_ID_VPSS'' 0 0] @ venc_calls rest @ [])"
    unfolding init_def
    by (intro calls_on_fail calls_sys_init calls_vi_init open_fd \<open>0 \<le> fd\<close> sensor calls_init_vpss_module calls_bind_vi_vpss
        calls_venc_start_encode [OF rest] calls_return fails_with_return)
  then show ?thesis by (rule calls_weaken) (simp only: init_calls_def append.assoc append_Nil2)
qed

lemma answered_all_ok:
  assumes "\<And>tr c. \<not> failed (c, env_ret env tr c)" and "answered env es" shows "all_ok es"
  using assms(2)
proof (induction es)
  case (Cons e es)
  then obtain before where "snd e = env_ret env before (fst e)" by auto
  with assms(1) [of "fst e" before] have "\<not> failed e" by (cases e) simp
  with Cons show ?case by simp
qed simp

lemma init_succeeds:
  assumes fresh: "\<not> ispThread v" "plain v" and rest: "driver_reports rest env" and sensor: "sensor_ok env"
    and open_fd: "\<And>tr. env_ret env tr (sys_open MIPI_DEV_NODE) = fd" and "0 \<le> fd"
    and ok: "\<And>tr c. \<not> failed (c, env_ret env tr c)"
  shows "\<exists>v'. init env junk v = Inr (0, v')
    \<and> map fst (trace v') = map fst (trace v) @ init_calls (env_pic_buf_size env) fd rest"
proof -
  from fresh obtain r v' where i: "init env junk v = Inr (r, v')"
    using starting_init unfolding starting_def by blast
  with prompt_init obtain tr where tr: "trace v' = trace v @ tr" "outcome env r tr" by (rule prompt_runE)
  with answered_all_ok [OF ok] sensor have "r = 0" by (simp add: outcome_def)
  with i have i: "init env junk v = Inr (0, v')" by simp
  with callsD' [OF calls_init [OF open_fd \<open>0 \<le> fd\<close> sensor rest] fresh(2)] show ?thesis by blast
qed

text \<open>
  C21: on a fresh object, with a driver that accepts everything and answers queries with what was set,
  initialisation returns 0 and has made exactly the calls of \<open>init_calls\<close>, in that order: the system
  and its buffer pools, VI online, the MIPI set-up between \<open>open\<close> and \<open>close\<close>, VI, the ISP with its
  sensor, the VPSS group with its three channels, the encoder modules, and for each of the H.265, H.264
  and MJPEG streams its channel with the attributes shown and its binding.
\<close>

theorem init_success:
  assumes fresh: "\<not> ispThread v" "plain v" and rest: "driver_reports rest env" and sensor: "sensor_ok env"
    and open_fd: "\<And>tr. env_ret env tr (sys_open MIPI_DEV_NODE) = fd" and "0 \<le> fd"
    and ok: "\<And>tr c. \<not> failed (c, env_ret env tr c)"
  shows "\<exists>v'. init env junk v = Inr (0, v')
    \<and> map fst (trace v') = map fst (trace v) @ init_calls (env_pic_buf_size env) fd rest"
  by (rule init_succeeds) (fact assms)+

lemma willing_driver:
  "driver_reports (\<lambda>_. []) willing_driver" "sensor_ok willing_driver"
  "env_ret willing_driver tr (sys_open MIPI_DEV_NODE) = 3" "\<not> failed (c, env_ret willing_driver tr c)"
  "env_pic_buf_size willing_driver = (\<lambda>a. 4096)"
  by (auto simp: willing_driver_def driver_reports_def sensor_ok_def) (cases c; simp)

theorem init_success_witness:
  "\<exists>v'. init willing_driver no_cvbr new_videoProcessHi = Inr (0, v')
     \<and> map fst (trace v') = init_calls (\<lambda>a. 4096) 3 (\<lambda>_. []) \<and> length (trace v') = 70"
proof -
  have "\<not> ispThread new_videoProcessHi" "plain new_videoProcessHi" "trace new_videoProcessHi = []"
    by (simp_all add: new_videoProcessHi_def plain_def)
  with init_success [OF this(1,2) willing_driver(1,2,3) _ willing_driver(4)] obtain v' where
    v': "init willing_driver no_cvbr new_videoProcessHi = Inr (0, v')"
      "map fst (trace v') = init_calls (\<lambda>a. 4096) 3 (\<lambda>_. [])"
    by (auto simp: willing_driver(5))
  have "length (map fst (trace v')) = 70"
    unfolding v'(2)
    by (simp add: init_calls_def sys_calls_def mipi_calls_def mipi_requests_def vi_calls_def isp_calls_def vpss_calls_def
        venc_calls_def start_calls_def close_calls_def mini_buf_calls_def main_attr_def sub_attr_def mjpeg_attr_def
        reencode_modes_def)
  with v' show ?thesis by (metis length_map)
qed

end
