(* ===== verification/Pipeline_Script.thy ===== *)
theory Pipeline_Script
  imports Pipeline_Init
begin

text \<open>
  The part of the initialisation before the encoders as a table: a list of driver calls, each with
  the calls that undo what is there when it fails and the code reported.  A small interpreter of
  such tables, written over the trace alone, is the reference; the nested functions of the pipeline
  are shown to be equal to it.
\<close>

section \<open>Tables and their interpreter\<close>

text \<open>\<open>None\<close> for the code reports what the driver returned.\<close>

datatype step = Step mpp_call "mpp_call list" "td_s32 option" | Start_thread

fun undo :: "mpp_env \<Rightarrow> mpp_call list \<Rightarrow> mpp_trace \<Rightarrow> mpp_trace" where
  "undo env [] tr = tr"
| "undo env (c # cs) tr =
     (let r = env_ret env tr c; tr' = tr @ [(c, r)] in if r = 0 then undo env cs tr' else tr')"

fun run_script :: "mpp_env \<Rightarrow> step list \<Rightarrow> mpp_trace \<Rightarrow> bool \<Rightarrow> td_s32 \<times> mpp_trace \<times> bool" where
  "run_script env [] tr thread = (0, tr, thread)"
| "run_script env (Start_thread # ss) tr thread = run_script env ss tr True"
| "run_script env (Step c us code # ss) tr thread =
     (let r = env_ret env tr c; tr' = tr @ [(c, r)]
      in if failed (c, r) then (case code of None \<Rightarrow> r | Some e \<Rightarrow> e, undo env us tr', thread)
         else run_script env ss tr' thread)"

definition end_state :: "videoProcessHi \<Rightarrow> mpp_trace \<Rightarrow> bool \<Rightarrow> videoProcessHi" where
  "end_state v tr thread = v\<lparr>trace := tr, ispThread := thread\<rparr>"

lemma end_state_simps [simp]:
  "trace (end_state v tr t) = tr" "ispThread (end_state v tr t) = t" "plain (end_state v tr t) = plain v"
  "end_state (end_state v tr t) tr' t' = end_state v tr' t'" "end_state v (trace v) (ispThread v) = v"
  by (simp_all add: end_state_def plain_def)

text \<open>A failure is never reported as 0.\<close>

fun telling :: "step \<Rightarrow> bool" where
  "telling Start_thread = True"
| "telling (Step c us code) = (code \<noteq> Some 0)"

text \<open>The computation is defined, unless its table starts the thread a second time, and does what the table says.\<close>

definition scripted :: "mpp_env \<Rightarrow> td_s32 mpp \<Rightarrow> step list \<Rightarrow> bool" where
  "scripted env m ss \<longleftrightarrow> list_all telling ss \<and> (\<forall>v. plain v \<and> (ispThread v \<longrightarrow> Start_thread \<notin> set ss) \<longrightarrow>
     m v = (case run_script env ss (trace v) (ispThread v) of (r, tr, thread) \<Rightarrow> Inr (r, end_state v tr thread)))"

definition fail_step :: "mpp_env \<Rightarrow> (td_s32 \<Rightarrow> td_s32 mpp) \<Rightarrow> mpp_call list \<Rightarrow> td_s32 option \<Rightarrow> bool" where
  "fail_step env fail us code \<longleftrightarrow> code \<noteq> Some 0 \<and> (\<forall>r v. fail r v =
     Inr (case code of None \<Rightarrow> r | Some e \<Rightarrow> e, end_state v (undo env us (trace v)) (ispThread v)))"

named_theorems script_rules "tables of computations, one rule per combinator"

lemma fail_none [script_rules]:
  "fail_step env mpp_return [] None" "e \<noteq> 0 \<Longrightarrow> fail_step env (\<lambda>_. mpp_return e) [] (Some e)"
  by (simp_all add: fail_step_def mpp_return_def)

lemma mpi_end_state: "mpi env c v =
    Inr (env_ret env (trace v) c, end_state v (trace v @ [(c, env_ret env (trace v) c)]) (ispThread v))"
  by (simp add: mpi_def Let_def end_state_def)

lemma fail_close [script_rules]:
  "e \<noteq> 0 \<Longrightarrow> fail_step env (\<lambda>_. then_mpi env c (mpp_return e)) [c] (Some e)"
  "fail_step env (\<lambda>r. then_mpi env c (mpp_return r)) [c] None"
  by (simp_all add: fail_step_def then_mpi_def mpp_bind_def mpi_end_state mpp_return_def Let_def)

lemma undo_seq:
  "\<exists>r. mpi_seq env mpp_return cs (mpp_return 0) v = Inr (r, end_state v (undo env cs (trace v)) (ispThread v))"
proof (induction cs arbitrary: v)
  case Nil
  then show ?case by (simp add: mpp_return_def)
next
  case (Cons c cs)
  let ?v = "end_state v (trace v @ [(c, env_ret env (trace v) c)]) (ispThread v)"
  from Cons [of ?v] show ?case
    by (auto simp: on_fail_def mpp_bind_def mpi_end_state mpp_return_def Let_def)
qed

lemma scripted_return [script_rules]: "scripted env (mpp_return 0) []"
  by (simp add: scripted_def mpp_return_def)

lemma scripted_call [script_rules]:
  assumes "fail_step env fail us code" and "scripted env k ss" and "\<not> ignored c" and "\<nexists>path. c = sys_open path"
  shows "scripted env (on_fail (mpi env c) fail k) (Step c us code # ss)"
  unfolding scripted_def
proof (intro conjI allI impI)
  show "list_all telling (Step c us code # ss)" using assms(1,2) by (simp add: scripted_def fail_step_def)
next
  fix v :: videoProcessHi
  let ?r = "env_ret env (trace v) c"
  let ?v = "end_state v (trace v @ [(c, ?r)]) (ispThread v)"
  assume v: "plain v \<and> (ispThread v \<longrightarrow> Start_thread \<notin> set (Step c us code # ss))"
  have f: "failed (c, ?r) \<longleftrightarrow> ?r \<noteq> 0"
    using assms(3,4) by (cases "(c, ?r)" rule: failed.cases) auto
  have "plain ?v" "ispThread ?v \<longrightarrow> Start_thread \<notin> set ss" using v by simp_all
  with assms(2) have "k ?v = (case run_script env ss (trace ?v) (ispThread ?v) of
      (r, tr, thread) \<Rightarrow> Inr (r, end_state ?v tr thread))"
    unfolding scripted_def by blast
  with assms(1) f show "on_fail (mpi env c) fail k v = (case run_script env (Step c us code # ss) (trace v) (ispThread v) of
      (r, tr, thread) \<Rightarrow> Inr (r, end_state v tr thread))"
    by (cases "?r = 0") (simp_all add: on_fail_def mpp_bind_def mpi_end_state fail_step_def Let_def)
qed

lemma scripted_note [script_rules]:
  assumes "scripted env k ss" and "ignored c"
  shows "scripted env (then_mpi env c k) (Step c [] None # ss)"
  unfolding scripted_def
proof (intro conjI allI impI)
  show "list_all telling (Step c [] None # ss)" using assms(1) by (simp add: scripted_def)
next
  fix v :: videoProcessHi
  let ?r = "env_ret env (trace v) c"
  let ?v = "end_state v (trace v @ [(c, ?r)]) (ispThread v)"
  assume v: "plain v \<and> (ispThread v \<longrightarrow> Start_thread \<notin> set (Step c [] None # ss))"
  have f: "\<not> failed (c, ?r)" using assms(2) by (cases "(c, ?r)" rule: failed.cases) auto
  have "plain ?v" "ispThread ?v \<longrightarrow> Start_thread \<notin> set ss" using v by simp_all
  with assms(1) have "k ?v = (case run_script env ss (trace ?v) (ispThread ?v) of
      (r, tr, thread) \<Rightarrow> Inr (r, end_state ?v tr thread))"
    unfolding scripted_def by blast
  with f show "then_mpi env c k v = (case run_script env (Step c [] None # ss) (trace v) (ispThread v) of
      (r, tr, thread) \<Rightarrow> Inr (r, end_state v tr thread))"
    by (simp add: then_mpi_def mpp_bind_def mpi_end_state Let_def)
qed

lemma scripted_seq:
  assumes "fail_step env fail us code" and "scripted env k ss"
    and "list_all (\<lambda>c. \<not> ignored c \<and> (\<forall>path. c \<noteq> sys_open path)) cs"
  shows "scripted env (mpi_seq env fail cs k) (map (\<lambda>c. Step c us code) cs @ ss)"
  using assms(3) by (induction cs) (auto intro!: scripted_call assms(1,2))

lemma run_script_append:
  "list_all telling xs \<Longrightarrow> run_script env (xs @ ys) tr thread =
    (case run_script env xs tr thread of (r, tr', thread') \<Rightarrow>
       if r = 0 then run_script env ys tr' thread' else (r, tr', thread'))"
proof (induction env xs tr thread rule: run_script.induct)
  case (3 env c us code ss tr thread)
  have "failed (c, r) \<Longrightarrow> r \<noteq> 0" for r by (cases "(c, r)" rule: failed.cases) auto
  with 3 show ?case by (auto simp: Let_def split: option.splits)
qed simp_all

lemma run_script_thread:
  "Start_thread \<notin> set ss \<Longrightarrow> snd (snd (run_script env ss tr thread)) = thread"
  by (induction env ss tr thread rule: run_script.induct) (auto simp: Let_def)

lemma scripted_on_fail [script_rules]:
  assumes m: "scripted env m xs" and k: "scripted env k ys" and "Start_thread \<in> set xs \<Longrightarrow> Start_thread \<notin> set ys"
  shows "scripted env (on_fail m mpp_return k) (xs @ ys)"
  unfolding scripted_def
proof (intro conjI allI impI)
  show "list_all telling (xs @ ys)" using m k by (simp add: scripted_def)
next
  fix v :: videoProcessHi
  assume v: "plain v \<and> (ispThread v \<longrightarrow> Start_thread \<notin> set (xs @ ys))"
  obtain r tr thread where x: "run_script env xs (trace v) (ispThread v) = (r, tr, thread)" by (metis prod_cases3)
  have mv: "m v = Inr (r, end_state v tr thread)" using m v x unfolding scripted_def by auto
  let ?v = "end_state v tr thread"
  have "thread \<longrightarrow> Start_thread \<notin> set ys"
    using v assms(3) run_script_thread [of xs env "trace v" "ispThread v"] x by auto
  with v have "plain ?v \<and> (ispThread ?v \<longrightarrow> Start_thread \<notin> set ys)" by simp
  with k have "k ?v = (case run_script env ys (trace ?v) (ispThread ?v) of
      (r, tr, thread) \<Rightarrow> Inr (r, end_state ?v tr thread))"
    unfolding scripted_def by blast
  with m mv x show "on_fail m mpp_return k v = (case run_script env (xs @ ys) (trace v) (ispThread v) of
      (r, tr, thread) \<Rightarrow> Inr (r, end_state v tr thread))"
    by (simp add: run_script_append scripted_def on_fail_def mpp_bind_def mpp_return_def)
qed

lemma scripted_isp_run [script_rules]:
  assumes "scripted env k ss" and "Start_thread \<notin> set ss"
  shows "scripted env (on_fail (comm_isp_run p) fail k) (Start_thread # ss)"
  unfolding scripted_def
proof (intro conjI allI impI)
  show "list_all telling (Start_thread # ss)" using assms(1) by (simp add: scripted_def)
next
  fix v :: videoProcessHi
  assume "plain v \<and> (ispThread v \<longrightarrow> Start_thread \<notin> set (Start_thread # ss))"
  then have v: "plain v" "\<not> ispThread v" by auto
  let ?v = "end_state v (trace v) True"
  have "plain ?v \<and> (ispThread ?v \<longrightarrow> Start_thread \<notin> set ss)" using v assms(2) by simp
  with assms(1) have "k ?v = (case run_script env ss (trace ?v) (ispThread ?v) of
      (r, tr, thread) \<Rightarrow> Inr (r, end_state ?v tr thread))"
    unfolding scripted_def by blast
  with v show "on_fail (comm_isp_run p) fail k v = (case run_script env (Start_thread # ss) (trace v) (ispThread v) of
      (r, tr, thread) \<Rightarrow> Inr (r, end_state v tr thread))"
    by (simp add: on_fail_def mpp_bind_def comm_isp_run_def end_state_def)
qed

lemma scripted_get [script_rules]:
  assumes "\<And>v. plain v \<Longrightarrow> sel v = x" and "scripted env (k x) ss" shows "scripted env (mpp_get sel k) ss"
  using assms unfolding scripted_def mpp_get_def by auto

lemma scripted_eq: "scripted env m xs \<Longrightarrow> xs = ys \<Longrightarrow> scripted env m ys"
  by simp

section \<open>The tables\<close>

definition pass_on :: "mpp_call \<Rightarrow> step" where "pass_on c = Step c [] None"
definition as_failure :: "mpp_call list \<Rightarrow> mpp_call \<Rightarrow> step" where "as_failure us c = Step c us (Some TD_FAILURE)"

definition mipi_script :: "int \<Rightarrow> step list" where
  "mipi_script fd =
     as_failure [] (sys_open MIPI_DEV_NODE) # map (\<lambda>q. as_failure [sys_close fd] (sys_ioctl fd q)) mipi_requests
     @ [pass_on (sys_close fd)]"

definition vi_script :: "step list" where
  "vi_script =
     map pass_on [ss_mpi_vi_set_dev_attr 0 vi_dev_attr, ss_mpi_vi_enable_dev 0, ss_mpi_vi_bind 0 0,
       ss_mpi_vi_create_pipe 0 vi_pipe_attr]
     @ map (\<lambda>c. Step c [ss_mpi_vi_destroy_pipe 0] None) [ss_mpi_vi_start_pipe 0, ss_mpi_vi_set_chn_attr 0 0 vi_chn_attr]
     @ map pass_on [ss_mpi_vi_enable_chn 0 0, ss_mpi_vi_get_pipe_3dnr_attr 0, ss_mpi_vi_set_pipe_3dnr_attr 0 vi_3dnr_attr]"

definition isp_script :: "step list" where
  "isp_script = map (as_failure []) isp_calls @ [Start_thread]"

definition unbind_calls :: "int \<Rightarrow> mpp_call list" where
  "unbind_calls g =
     [ss_mpi_vpss_disable_chn g 0, ss_mpi_vpss_disable_chn g 1, ss_mpi_vpss_stop_grp g, ss_mpi_vpss_destroy_grp g]"

definition front_script :: "(ot_pic_buf_attr \<Rightarrow> u32) \<Rightarrow> int \<Rightarrow> step list" where
  "front_script buf_size fd =
     map pass_on (sys_calls buf_size)
     @ map (as_failure []) [ss_mpi_sys_get_vi_vpss_mode,
         ss_mpi_sys_set_vi_vpss_mode (OT_VI_ONLINE_VPSS_ONLINE # replicate 3 OT_VI_OFFLINE_VPSS_OFFLINE)]
     @ map pass_on [ss_mpi_isp_get_ctrl_param 0, ss_mpi_isp_set_ctrl_param 0 1]
     @ mipi_script fd @ vi_script @ isp_script @ map pass_on vpss_calls
     @ [Step (bind_call ''OT_ID_VI'' 0 0 ''OT_ID_VPSS'' 0 0)
          (unbind_calls 0) None]"

section \<open>The pipeline's functions follow their tables\<close>

lemma scripted_pass_seq:
  assumes "scripted env k ss" and "list_all (\<lambda>c. \<not> ignored c \<and> (\<forall>path. c \<noteq> sys_open path)) cs"
  shows "scripted env (mpi_seq env mpp_return cs k) (map pass_on cs @ ss)"
  unfolding pass_on_def by (rule scripted_seq [OF fail_none(1) assms])

lemma scripted_fail_seq:
  assumes "scripted env k ss" and "list_all (\<lambda>c. \<not> ignored c \<and> (\<forall>path. c \<noteq> sys_open path)) cs"
  shows "scripted env (mpi_seq env (\<lambda>_. mpp_return TD_FAILURE) cs k) (map (as_failure []) cs @ ss)"
  unfolding as_failure_def by (rule scripted_seq [OF fail_none(2) assms]) simp

lemma scripted_sys_init: "scripted env (hi_mpp_sys_init env) (map pass_on (sys_calls (env_pic_buf_size env)))"
proof -
  have seq: "scripted env (mpi_seq env mpp_return (sys_calls (env_pic_buf_size env)) (mpp_return TD_SUCCESS))
      (map pass_on (sys_calls (env_pic_buf_size env)) @ [])"
    by (intro scripted_pass_seq scripted_return) (simp add: sys_calls_def)
  have "hi_mpp_sys_init env v = mpi_seq env mpp_return (sys_calls (env_pic_buf_size env)) (mpp_return TD_SUCCESS) v"
    if "plain v" for v :: videoProcessHi
  proof -
    from that have w: "\<not> wrap_enable v" by (simp add: plain_def)
    show ?thesis
      unfolding hi_mpp_sys_init_def mpp_bind_def mpp_get_def mpp_return_def vb_conf_def sys_calls_def
      by (simp only: w fst_conv snd_conv prod.case sum.case if_False simp_thms split_beta Let_def)
  qed
  with seq show ?thesis unfolding scripted_def append_Nil2 by metis
qed

lemma scripted_start_mipi:
  assumes open_fd: "\<And>tr. env_ret env tr (sys_open MIPI_DEV_NODE) = fd"
  shows "scripted env (comm_vi_start_mipi env) (mipi_script fd)"
proof -
  let ?rest = "map (\<lambda>q. as_failure [sys_close fd] (sys_ioctl fd q)) mipi_requests @ [pass_on (sys_close fd)]"
  have "scripted env (mpi_seq env (\<lambda>_. then_mpi env (sys_close fd) (mpp_return TD_FAILURE)) (map (sys_ioctl fd) mipi_requests)
          (then_mpi env (sys_close fd) (mpp_return TD_SUCCESS)))
      (map (\<lambda>c. Step c [sys_close fd] (Some TD_FAILURE)) (map (sys_ioctl fd) mipi_requests) @ [Step (sys_close fd) [] None])"
    by (intro scripted_seq fail_close scripted_note scripted_return) (simp_all add: list_all_iff)
  then have k: "scripted env (mpi_seq env (\<lambda>_. then_mpi env (sys_close fd) (mpp_return TD_FAILURE))
      (map (sys_ioctl fd) mipi_requests) (then_mpi env (sys_close fd) (mpp_return TD_SUCCESS))) ?rest"
    by (rule scripted_eq) (simp add: as_failure_def pass_on_def)
  have "comm_vi_start_mipi env v = (case run_script env (mipi_script fd) (trace v) (ispThread v) of
      (r, tr, thread) \<Rightarrow> Inr (r, end_state v tr thread))" if v: "plain v" for v :: videoProcessHi
  proof -
    let ?v = "end_state v (trace v @ [(sys_open MIPI_DEV_NODE, fd)]) (ispThread v)"
    have no_thread: "Start_thread \<notin> set ?rest" by (auto simp: as_failure_def pass_on_def)
    from v have "plain ?v" by simp
    with k no_thread have "mpi_seq env (\<lambda>_. then_mpi env (sys_close fd) (mpp_return TD_FAILURE))
        (map (sys_ioctl fd) mipi_requests) (then_mpi env (sys_close fd) (mpp_return TD_SUCCESS)) ?v
      = (case run_script env ?rest (trace ?v) (ispThread ?v) of (r, tr, thread) \<Rightarrow> Inr (r, end_state ?v tr thread))"
      unfolding scripted_def by blast
    then show ?thesis
      by (simp add: comm_vi_start_mipi_def mpp_bind_def mpi_end_state assms mipi_script_def as_failure_def [of "[]"]
          mpp_return_def del: mpi_seq.simps)
  qed
  moreover have "list_all telling (mipi_script fd)"
    using k by (simp add: scripted_def mipi_script_def as_failure_def)
  ultimately show ?thesis by (simp add: scripted_def)
qed

lemma scripted_create_vi: "scripted env (comm_vi_create_vi env 0 0 0) vi_script"
proof -
  have "scripted env (comm_vi_create_vi env 0 0 0)
      (map pass_on [ss_mpi_vi_set_dev_attr 0 vi_dev_attr, ss_mpi_vi_enable_dev 0, ss_mpi_vi_bind 0 0,
         ss_mpi_vi_create_pipe 0 vi_pipe_attr]
       @ map (\<lambda>c. Step c [ss_mpi_vi_destroy_pipe 0] None) [ss_mpi_vi_start_pipe 0, ss_mpi_vi_set_chn_attr 0 0 vi_chn_attr]
       @ Step (ss_mpi_vi_enable_chn 0 0) [] None # Step (ss_mpi_vi_get_pipe_3dnr_attr 0) [] None
       # Step (ss_mpi_vi_set_pipe_3dnr_attr 0 vi_3dnr_attr) [] None # [])"
    unfolding comm_vi_create_vi_def
    by (intro scripted_pass_seq scripted_seq scripted_call scripted_note scripted_return fail_none(1) fail_close(2)) simp_all
  then show ?thesis by (rule scripted_eq) (simp add: vi_script_def pass_on_def)
qed

lemma scripted_create_isp:
  assumes "sensor_ok env" shows "scripted env (comm_vi_create_isp env 0) isp_script"
proof -
  let ?cs = "[ss_mpi_ae_register 0, ss_mpi_awb_register 0, ss_mpi_isp_mem_init 0, ss_mpi_isp_set_pub_attr 0 isp_pub_attr,
      ss_mpi_isp_init 0]"
  have e: "comm_vi_create_isp env 0 =
      on_fail (mpi env (ss_mpi_isp_exit 0)) (\<lambda>_. mpp_return TD_FAILURE)
        (then_mpi env (pfn_register_callback 0) (then_mpi env (pfn_set_bus_info 0 0)
        (mpi_seq env (\<lambda>_. mpp_return TD_FAILURE) ?cs
        (on_fail (comm_isp_run 0) (\<lambda>_. mpp_return TD_FAILURE) (mpp_return TD_SUCCESS)))))"
    using assms unfolding comm_vi_create_isp_def sensor_ok_def by simp
  have "scripted env (comm_vi_create_isp env 0)
      (Step (ss_mpi_isp_exit 0) [] (Some TD_FAILURE) # Step (pfn_register_callback 0) [] None # Step (pfn_set_bus_info 0 0) [] None
       # map (as_failure []) ?cs @ Start_thread # [])"
    unfolding e
    by (intro scripted_call scripted_note scripted_fail_seq scripted_isp_run scripted_return fail_none(2)) simp_all
  moreover have "run_script env (Step (pfn_register_callback 0) [] None # Step (pfn_set_bus_info 0 0) [] None # ss)
      = run_script env (as_failure [] (pfn_register_callback 0) # as_failure [] (pfn_set_bus_info 0 0) # ss)" for ss
    by (intro ext) (simp add: as_failure_def Let_def)
  ultimately show ?thesis
    by (simp add: scripted_def isp_script_def isp_calls_def as_failure_def Let_def)
qed

lemma scripted_vi_init:
  assumes open_fd: "\<And>tr. env_ret env tr (sys_open MIPI_DEV_NODE) = fd" and "sensor_ok env"
  shows "scripted env (hi_mpp_vi_init env 0 0)
     (map (as_failure []) [ss_mpi_sys_get_vi_vpss_mode,
        ss_mpi_sys_set_vi_vpss_mode (OT_VI_ONLINE_VPSS_ONLINE # replicate 3 OT_VI_OFFLINE_VPSS_OFFLINE)]
      @ map pass_on [ss_mpi_isp_get_ctrl_param 0, ss_mpi_isp_set_ctrl_param 0 1]
      @ mipi_script fd @ vi_script @ isp_script)"
proof -
  have mode: "scripted env (set_vi_vpss_mode env OT_VI_ONLINE_VPSS_ONLINE)
      (map (as_failure []) [ss_mpi_sys_get_vi_vpss_mode,
        ss_mpi_sys_set_vi_vpss_mode (OT_VI_ONLINE_VPSS_ONLINE # replicate 3 OT_VI_OFFLINE_VPSS_OFFLINE)] @ [])"
    unfolding set_vi_vpss_mode_def Let_def
    by (simp only: ot_vi_vpss_mode_type.distinct if_False) (intro scripted_fail_seq scripted_return; simp)
  have tail: "Start_thread \<notin> set (map pass_on cs)" "Start_thread \<notin> set (map (as_failure us) cs)"
    "Start_thread \<notin> set (mipi_script fd)" "Start_thread \<notin> set vi_script" for cs us
    by (auto simp: pass_on_def as_failure_def mipi_script_def vi_script_def)
  have start: "scripted env (comm_vi_start_vi env 0 0 0) (mipi_script fd @ vi_script @ isp_script @ [])"
    unfolding comm_vi_start_vi_def
    by (intro scripted_on_fail scripted_start_mipi open_fd scripted_create_vi scripted_create_isp assms(2) scripted_return)
      (simp_all add: tail)
  have "scripted env (init_vi_process env 0 0 0)
      (map pass_on [ss_mpi_isp_get_ctrl_param 0, ss_mpi_isp_set_ctrl_param 0 (maxFrameRate div 30)]
       @ (mipi_script fd @ vi_script @ isp_script @ []) @ [])"
    unfolding init_vi_process_def
    by (intro scripted_pass_seq scripted_on_fail start scripted_return) simp_all
  then have process: "scripted env (init_vi_process env 0 0 0)
      (map pass_on [ss_mpi_isp_get_ctrl_param 0, ss_mpi_isp_set_ctrl_param 0 1] @ mipi_script fd @ vi_script @ isp_script)"
    by (rule scripted_eq) (simp add: maxFrameRate_def)
  have module: "scripted env (init_vi_module env 0 0 0)
      (map pass_on [] @ (map pass_on [ss_mpi_isp_get_ctrl_param 0, ss_mpi_isp_set_ctrl_param 0 1]
       @ mipi_script fd @ vi_script @ isp_script) @ [])"
    unfolding init_vi_module_def
    by (rule scripted_get [where x = False], simp add: plain_def, simp only: if_False)
      (intro scripted_pass_seq scripted_on_fail process scripted_return, simp_all)
  have "scripted env (hi_mpp_vi_init env 0 0)
     ((map (as_failure []) [ss_mpi_sys_get_vi_vpss_mode,
        ss_mpi_sys_set_vi_vpss_mode (OT_VI_ONLINE_VPSS_ONLINE # replicate 3 OT_VI_OFFLINE_VPSS_OFFLINE)] @ [])
      @ (map pass_on [] @ (map pass_on [ss_mpi_isp_get_ctrl_param 0, ss_mpi_isp_set_ctrl_param 0 1]
       @ mipi_script fd @ vi_script @ isp_script) @ []) @ [])"
    unfolding hi_mpp_vi_init_def
    by (intro scripted_on_fail mode module scripted_return) (simp_all add: as_failure_def)
  then show ?thesis by (rule scripted_eq) simp
qed

lemma scripted_enable_vpss_chn:
  assumes "c \<in> {0, 1, 2}"
  shows "scripted env (enable_vpss_chn env 0 c (Some attr) False)
    (map pass_on [ss_mpi_vpss_set_chn_attr 0 c (Some attr), ss_mpi_vpss_enable_chn 0 c])"
proof -
  have c: "0 \<le> c" "c < 3" using assms by auto
  have seq: "scripted env (mpi_seq env mpp_return [ss_mpi_vpss_set_chn_attr 0 c (Some attr), ss_mpi_vpss_enable_chn 0 c]
        (mpp_return TD_SUCCESS))
     (map pass_on [ss_mpi_vpss_set_chn_attr 0 c (Some attr), ss_mpi_vpss_enable_chn 0 c] @ [])"
    by (intro scripted_pass_seq scripted_return) simp
  have "enable_vpss_chn env 0 c (Some attr) False v =
     mpi_seq env mpp_return [ss_mpi_vpss_set_chn_attr 0 c (Some attr), ss_mpi_vpss_enable_chn 0 c] (mpp_return TD_SUCCESS) v"
    if "plain v" for v :: videoProcessHi
    using that c
    by (simp add: enable_vpss_chn_def mpp_get_def plain_def OT_VPSS_MAX_GRP_NUM_def OT_VPSS_MAX_CHN_NUM_def
        OT_VPSS_MAX_PHYS_CHN_NUM_def rotateBSupport_def del: mpi_seq.simps)
  with seq show ?thesis unfolding scripted_def append_Nil2 by metis
qed

lemma scripted_init_vpss_module: "scripted env (init_vpss_module env 0) (map pass_on vpss_calls)"
proof -
  have c: "scripted env (on_fail (enable_vpss_chn env 0 c (Some attr) False) mpp_return k)
      (map pass_on [ss_mpi_vpss_set_chn_attr 0 c (Some attr), ss_mpi_vpss_enable_chn 0 c] @ ss)"
    if "scripted env k ss" "c \<in> {0, 1, 2}" for c attr k ss
    by (rule scripted_on_fail [OF scripted_enable_vpss_chn [OF that(2)] that(1)]) (simp add: pass_on_def)
  have "scripted env (init_vpss_module env 0)
     (Step (ss_mpi_vpss_create_grp 0 vpss_grp_attr) [] None
      # map pass_on [ss_mpi_vpss_set_chn_attr 0 0 (Some (vpss_chn_attr VI_SIZE0 ''OT_COMPRESS_MODE_SEG_COMPACT'' (uint maxFrameRate) 0)),
         ss_mpi_vpss_enable_chn 0 0]
      @ map pass_on [ss_mpi_vpss_set_chn_attr 0 1 (Some (vpss_chn_attr VI_SIZE1 ''OT_COMPRESS_MODE_NONE'' (uint maxFrameRate) 0)),
         ss_mpi_vpss_enable_chn 0 1]
      @ map pass_on [ss_mpi_vpss_set_chn_attr 0 2 (Some (vpss_chn_attr VI_SIZE2 ''OT_COMPRESS_MODE_NONE'' subVpssFrameRate 2)),
         ss_mpi_vpss_enable_chn 0 2]
      @ Step (ss_mpi_vpss_start_grp 0) [] None # [])"
    unfolding init_vpss_module_def
    by (intro scripted_call c scripted_return fail_none(1)) simp_all
  then show ?thesis
    by (rule scripted_eq) (simp add: vpss_calls_def pass_on_def maxFrameRate_def subVpssFrameRate_def)
qed

lemma fail_vpss_stop:
  "fail_step env (\<lambda>ret. mpp_bind (vpss_stop env g [True, True, False]) (\<lambda>_. mpp_return ret)) (unbind_calls g) None"
  unfolding fail_step_def
proof (intro conjI allI)
  fix r and v :: videoProcessHi
  have "vpss_stop env g [True, True, False] = mpi_seq env mpp_return (unbind_calls g) (mpp_return 0)"
    by (simp add: vpss_stop_def unbind_calls_def)
  moreover obtain x where
    "mpi_seq env mpp_return (unbind_calls g) (mpp_return 0) v =
       Inr (x, end_state v (undo env (unbind_calls g) (trace v)) (ispThread v))"
    using undo_seq by blast
  ultimately show "mpp_bind (vpss_stop env g [True, True, False]) (\<lambda>_. mpp_return r) v =
      Inr (case None of None \<Rightarrow> r | Some e \<Rightarrow> e, end_state v (undo env (unbind_calls g) (trace v)) (ispThread v))"
    by (simp add: mpp_bind_def mpp_return_def)
qed simp

lemma scripted_bind_vi_vpss:
  "scripted env (bind_vi_vpss env 0 0 0 0) [Step (bind_call ''OT_ID_VI'' 0 0 ''OT_ID_VPSS'' 0 0) (unbind_calls 0) None]"
  unfolding bind_vi_vpss_def bind_call_def
  by (intro scripted_call fail_vpss_stop scripted_return) simp_all

lemma on_fail_assoc:
  "on_fail (on_fail a mpp_return b) mpp_return c = on_fail a mpp_return (on_fail b mpp_return c)"
  by (intro ext) (simp add: on_fail_def mpp_bind_def mpp_return_def split: sum.split)

lemma on_fail_return: "on_fail m mpp_return (mpp_return 0) = m"
  by (intro ext) (simp add: on_fail_def mpp_bind_def mpp_return_def split: sum.split)

definition after_front :: "mpp_env \<Rightarrow> rc_cvbr \<Rightarrow> videoProcessHi \<Rightarrow> td_s32 \<times> mpp_trace \<times> bool \<Rightarrow> (td_s32 \<times> videoProcessHi) checked" where
  "after_front env junk v res =
     (case res of (r, tr, thread) \<Rightarrow>
        if r = 0 then venc_start_encode env junk 0 (end_state v tr thread) else Inr (r, end_state v tr thread))"

text \<open>
  C20: on a fresh object \<open>init\<close> is equal, for every driver, to interpreting the table \<open>front_script\<close>
  from the trace so far and then, if nothing failed, starting the encoders: the same calls in the same
  order, on a failure the calls of its line that undo what is there (the \<open>close\<close> of the MIPI device,
  the destruction of the pipe, the shutdown of the VPSS group) up to one that fails itself, and the
  code of its line.
\<close>

theorem init_script:
  assumes "plain v" and "\<not> ispThread v" and "sensor_ok env"
    and open_fd: "\<And>tr. env_ret env tr (sys_open MIPI_DEV_NODE) = fd"
  shows "init env junk v =
    after_front env junk v (run_script env (front_script (env_pic_buf_size env) fd) (trace v) False)"
proof -
  let ?front = "on_fail (hi_mpp_sys_init env) mpp_return (on_fail (hi_mpp_vi_init env 0 0) mpp_return
      (on_fail (init_vpss_module env 0) mpp_return (bind_vi_vpss env 0 0 0 0)))"
  note vi = scripted_vi_init [OF open_fd assms(3)]
  have no_thread: "Start_thread \<notin> pass_on ` cs" for cs by (auto simp: pass_on_def)
  have "scripted env ?front (front_script (env_pic_buf_size env) fd)"
    by (rule scripted_eq, rule scripted_on_fail [OF scripted_sys_init], rule scripted_on_fail [OF vi],
        rule scripted_on_fail [OF scripted_init_vpss_module scripted_bind_vi_vpss])
      (simp_all add: no_thread front_script_def)
  with assms(1,2) have "?front v = (case run_script env (front_script (env_pic_buf_size env) fd) (trace v) False of
      (r, tr, thread) \<Rightarrow> Inr (r, end_state v tr thread))"
    unfolding scripted_def by simp
  moreover have "init env junk = on_fail ?front mpp_return (venc_start_encode env junk 0)"
    unfolding init_def by (simp add: on_fail_assoc on_fail_return)
  ultimately show ?thesis
    by (simp add: on_fail_def mpp_bind_def after_front_def mpp_return_def split: prod.splits)
qed

theorem init_script_witness:
  "\<exists>v'. init (willing_driver\<lparr>env_ret := (\<lambda>tr c. if c = ss_mpi_vi_start_pipe 0 then 9 else 0)\<rparr>) no_cvbr new_videoProcessHi = Inr (9, v')
     \<and> last (trace v') = (ss_mpi_vi_destroy_pipe 0, 0) \<and> length (trace v') = 27"
proof -
  let ?env = "willing_driver\<lparr>env_ret := (\<lambda>tr c. if c = ss_mpi_vi_start_pipe 0 then 9 else 0)\<rparr>"
  have fresh: "plain new_videoProcessHi" "\<not> ispThread new_videoProcessHi" "trace new_videoProcessHi = []"
    by (simp_all add: new_videoProcessHi_def plain_def)
  have env: "sensor_ok ?env" "env_ret ?env tr (sys_open MIPI_DEV_NODE) = 0" "env_pic_buf_size ?env = (\<lambda>a. 4096)" for tr
    by (simp_all add: willing_driver_def sensor_ok_def)
  have "init ?env no_cvbr new_videoProcessHi =
      after_front ?env no_cvbr new_videoProcessHi (run_script ?env (front_script (\<lambda>a. 4096) 0) [] False)"
    using init_script [OF fresh(1,2) env(1,2)] by (simp only: fresh(3) env(3))
  moreover obtain tr where "run_script ?env (front_script (\<lambda>a. 4096) 0) [] False = (9, tr, False)"
    "last tr = (ss_mpi_vi_destroy_pipe 0, 0)" "length tr = 27"
    by (simp add: front_script_def sys_calls_def mipi_script_def mipi_requests_def vi_script_def pass_on_def as_failure_def)
  ultimately show ?thesis by (simp add: after_front_def)
qed

end
