(* ===== verification/Pipeline_Faults.thy ===== *)
theory Pipeline_Faults
  imports Pipeline_Script
begin

text \<open>
  What a failing driver call leaves behind: file descriptors, encoder channels, VPSS channels, and
  the ISP thread.
\<close>

section \<open>The MIPI device\<close>

lemma mipi_requests_trace:
  assumes "mpi_seq env (\<lambda>_. then_mpi env (sys_close fd) (mpp_return TD_FAILURE)) (map (sys_ioctl fd) qs)
     (then_mpi env (sys_close fd) (mpp_return TD_SUCCESS)) v = Inr (r, v')"
  shows "\<exists>es x. trace v' = trace v @ es @ [(sys_close fd, x)] \<and> (\<forall>e\<in>set es. \<exists>q. fst e = sys_ioctl fd q)
    \<and> (r = 0 \<longleftrightarrow> all_ok es)"
  using assms
proof (induction qs arbitrary: v)
  case Nil
  then show ?case
    by (auto simp: then_mpi_def mpp_bind_def mpi_def Let_def intro!: exI [where x = "[]"])
next
  case (Cons q qs)
  let ?e = "(sys_ioctl fd q, env_ret env (trace v) (sys_ioctl fd q))"
  from Cons.prems have "on_fail (mpi env (sys_ioctl fd q)) (\<lambda>_. then_mpi env (sys_close fd) (mpp_return TD_FAILURE))
      (mpi_seq env (\<lambda>_. then_mpi env (sys_close fd) (mpp_return TD_FAILURE)) (map (sys_ioctl fd) qs)
        (then_mpi env (sys_close fd) (mpp_return TD_SUCCESS))) v = Inr (r, v')" by simp
  then show ?case
  proof (cases rule: on_failE)
    case (fails ret w)
    then show ?thesis
      by (auto simp: then_mpi_def mpp_bind_def mpi_def Let_def intro!: exI [where x = "[?e]"])
  next
    case (goes_on w)
    then have w: "trace w = trace v @ [?e]" "\<not> failed ?e" by (auto simp: mpi_def Let_def)
    from Cons.IH [OF goes_on(2)] obtain es x where es: "trace v' = trace w @ es @ [(sys_close fd, x)]"
      "\<forall>e\<in>set es. \<exists>q. fst e = sys_ioctl fd q" "r = 0 \<longleftrightarrow> all_ok es" by blast
    with w have "trace v' = trace v @ (?e # es) @ [(sys_close fd, x)]"
      "\<forall>e\<in>set (?e # es). \<exists>q. fst e = sys_ioctl fd q" "r = 0 \<longleftrightarrow> all_ok (?e # es)" by simp_all
    then show ?thesis by blast
  qed
qed

lemma open_fds_ioctls: "\<forall>e\<in>set es. \<exists>q. fst e = sys_ioctl fd q \<Longrightarrow> open_fds es fds = fds"
  by (induction es) (auto simp: open_fds_def fd_step_def)

text \<open>
  C26: setting up the MIPI receiver always returns, leaks no file descriptor whatever the driver
  answers - the set of open ones afterwards is that of before - and returns 0 exactly if the device
  could be opened and every request was accepted.
\<close>

theorem start_mipi_no_leak:
  "\<exists>r v' tr. comm_vi_start_mipi env v = Inr (r, v') \<and> trace v' = trace v @ tr \<and> open_fds tr fds = fds
    \<and> (r = 0 \<longleftrightarrow> all_ok tr)"
proof -
  let ?fd = "env_ret env (trace v) (sys_open MIPI_DEV_NODE)"
  let ?w = "v\<lparr>trace := trace v @ [(sys_open MIPI_DEV_NODE, ?fd)]\<rparr>"
  show ?thesis
  proof (cases "?fd < 0")
    case True
    then show ?thesis
      by (simp add: comm_vi_start_mipi_def mpp_bind_def mpi_def Let_def mpp_return_def open_fds_def fd_step_def)
  next
    case False
    then have e: "comm_vi_start_mipi env v =
      mpi_seq env (\<lambda>_. then_mpi env (sys_close ?fd) (mpp_return TD_FAILURE)) (map (sys_ioctl ?fd) mipi_requests)
        (then_mpi env (sys_close ?fd) (mpp_return TD_SUCCESS)) ?w"
      by (simp add: comm_vi_start_mipi_def mpp_bind_def mpi_def Let_def del: mpi_seq.simps)
    obtain r v' where i: "comm_vi_start_mipi env v = Inr (r, v')"
      using steady_start_mipi [of env] unfolding steady_def by blast
    with e obtain es x where es: "trace v' = trace ?w @ es @ [(sys_close ?fd, x)]"
      "\<forall>e\<in>set es. \<exists>q. fst e = sys_ioctl ?fd q" "r = 0 \<longleftrightarrow> all_ok es"
      using mipi_requests_trace by metis
    let ?tr = "(sys_open MIPI_DEV_NODE, ?fd) # es @ [(sys_close ?fd, x)]"
    have "open_fds ?tr fds = fds"
      using False open_fds_ioctls [OF es(2), of "?fd # fds"]
      by (simp add: open_fds_def fd_step_def)
    moreover have "trace v' = trace v @ ?tr" "r = 0 \<longleftrightarrow> all_ok ?tr" using es False by simp_all
    ultimately show ?thesis using i by blast
  qed
qed

section \<open>The VPSS group\<close>

lemma undo_prefix: "\<exists>n. map fst (undo env cs tr) = map fst tr @ take n cs"
proof (induction cs arbitrary: tr)
  case (Cons c cs)
  let ?r = "env_ret env tr c"
  show ?case
  proof (cases "?r = 0")
    case True
    from Cons [of "tr @ [(c, ?r)]"] obtain n where
      "map fst (undo env cs (tr @ [(c, ?r)])) = map fst (tr @ [(c, ?r)]) @ take n cs" by blast
    with True have "map fst (undo env (c # cs) tr) = map fst tr @ take (Suc n) (c # cs)" by (simp add: Let_def)
    then show ?thesis by blast
  next
    case False
    then have "map fst (undo env (c # cs) tr) = map fst tr @ take (Suc 0) (c # cs)" by (simp add: Let_def)
    then show ?thesis by blast
  qed
qed simp

text \<open>
  When the group cannot be bound to its source, the function reports the driver's code, whatever
  becomes of the clean-up, and after the failed call has made a prefix of four calls: channels 0 and 1
  disabled, the group stopped and destroyed.  Channel 2, enabled before, is never disabled.
\<close>

theorem bind_vi_vpss_failure:
  assumes "\<And>tr. env_ret env tr (bind_call ''OT_ID_VI'' p c ''OT_ID_VPSS'' g k) = e" and "e \<noteq> 0"
  shows "\<exists>v' n. bind_vi_vpss env p c g k v = Inr (e, v')
    \<and> map fst (trace v') = map fst (trace v) @ bind_call ''OT_ID_VI'' p c ''OT_ID_VPSS'' g k # take n (unbind_calls g)
    \<and> ss_mpi_vpss_disable_chn g 2 \<notin> set (drop (length (trace v)) (map fst (trace v')))"
proof -
  let ?c = "bind_call ''OT_ID_VI'' p c ''OT_ID_VPSS'' g k"
  let ?w = "end_state v (trace v @ [(?c, e)]) (ispThread v)"
  let ?v' = "end_state ?w (undo env (unbind_calls g) (trace ?w)) (ispThread ?w)"
  have "mpi env ?c v = Inr (e, ?w)" using assms by (simp add: mpi_end_state)
  then have "bind_vi_vpss env p c g k v =
      mpp_bind (vpss_stop env g [True, True, False]) (\<lambda>_. mpp_return e) ?w"
    using assms(2) by (simp add: bind_vi_vpss_def on_fail_def mpp_bind_def bind_call_def)
  then have "bind_vi_vpss env p c g k v = Inr (e, ?v')"
    using fail_vpss_stop [of env g] unfolding fail_step_def by simp
  moreover obtain n where "map fst (trace ?v') = map fst (trace ?w) @ take n (unbind_calls g)"
    using undo_prefix [of env "unbind_calls g" "trace ?w"] by auto
  moreover from this have "set (drop (length (trace v)) (map fst (trace ?v'))) \<subseteq> insert ?c (set (unbind_calls g))"
    using set_take_subset [of n "unbind_calls g"] by auto
  moreover have "ss_mpi_vpss_disable_chn g 2 \<notin> insert ?c (set (unbind_calls g))"
    by (simp add: unbind_calls_def bind_call_def)
  ultimately show ?thesis
    by (intro exI [where x = ?v'] exI [where x = n]) auto
qed

theorem bind_vi_vpss_failure_witness:
  "\<exists>v' n. bind_vi_vpss (willing_driver\<lparr>env_ret := (\<lambda>tr c. 5)\<rparr>) 0 0 0 0 new_videoProcessHi = Inr (5, v')
     \<and> map fst (trace v') = bind_call ''OT_ID_VI'' 0 0 ''OT_ID_VPSS'' 0 0 # take n (unbind_calls 0)"
proof -
  have "trace new_videoProcessHi = []" by (simp add: new_videoProcessHi_def)
  with bind_vi_vpss_failure [of "willing_driver\<lparr>env_ret := (\<lambda>tr c. 5)\<rparr>" 0 0 0 0 5 new_videoProcessHi]
  show ?thesis by auto
qed

section \<open>Encoder channels\<close>

text \<open>
  C27: with destroy calls that work, starting an encoder on a channel that does not exist returns 0
  with the channel created or -1 with no channel left: the failure of any call after the creation
  destroys it again.
\<close>

theorem venc_start_no_leak:
  assumes m: "comm_venc_start env junk chn p v = Inr (r, v')"
    and fresh: "chn \<notin> venc_chns (trace v)"
    and destroy: "\<And>tr. env_ret env tr (ss_mpi_venc_destroy_chn chn) = 0"
  shows "(r = 0 \<and> venc_chns (trace v') = insert chn (venc_chns (trace v)))
    \<or> (r = - 1 \<and> venc_chns (trace v') = venc_chns (trace v))"
  using venc_start_chns [OF assms] by auto

theorem venc_start_no_leak_witness:
  "\<exists>v'. comm_venc_start (willing_driver\<lparr>env_ret := (\<lambda>tr c. if c = ss_mpi_venc_start_chn 0 (- 1) then 8 else 0)\<rparr>) no_cvbr 0
       (stream_param 30 OT_PT_H265 PIC_2560X1440) new_videoProcessHi = Inr (- 1, v') \<and> venc_chns (trace v') = {}"
proof -
  let ?env = "willing_driver\<lparr>env_ret := (\<lambda>tr c. if c = ss_mpi_venc_start_chn 0 (- 1) then 8 else 0)\<rparr>"
  let ?p = "stream_param 30 OT_PT_H265 PIC_2560X1440"
  have p: "acceptable ?p" by (simp add: coded_types_def)
  obtain r v' where i: "comm_venc_start ?env no_cvbr 0 ?p new_videoProcessHi = Inr (r, v')"
    using steady_venc_start [OF p, of ?env no_cvbr 0] unfolding steady_def by blast
  have v: "plain new_videoProcessHi" "trace new_videoProcessHi = []" "0 \<notin> venc_chns (trace new_videoProcessHi)"
    by (simp_all add: new_videoProcessHi_def plain_def venc_chns_def)
  have destroy: "env_ret ?env tr (ss_mpi_venc_destroy_chn 0) = 0" for tr by simp
  have "r \<noteq> 0"
  proof
    assume "r = 0"
    have rest: "driver_reports (\<lambda>_. []) ?env" by (simp add: willing_driver_def driver_reports_def)
    obtain tr where tr: "trace v' = trace new_videoProcessHi @ tr" "outcome ?env r tr"
      using prompt_venc_start [OF p] i by (rule prompt_runE)
    obtain p' where "comm_venc_channel_param_init no_cvbr (?p\<lparr>cp_venc_size := \<lparr>width = 2560, height = 1440\<rparr>\<rparr>)
        zero_chn_attr = Inr (0, p', main_attr)"
      using main_init by blast
    then have "calls (comm_venc_start ?env no_cvbr 0 ?p) (start_calls 0 main_attr)"
      using calls_venc_start [OF p _ _ rest] by (simp add: stream_param_def stream_init)
    then have "map fst (trace v') = start_calls 0 main_attr"
      using callsD' [OF _ v(1)] i \<open>r = 0\<close> v(2) by fastforce
    then have "ss_mpi_venc_start_chn 0 (- 1) \<in> fst ` set tr" using tr(1) v(2) by (simp add: start_calls_def flip: set_map)
    with tr(2) \<open>r = 0\<close> show False
      by (fastforce simp: outcome_def all_ok_def answered_def list_all_iff)
  qed
  with venc_start_no_leak [OF i v(3) destroy] i v(2) show ?thesis by (simp add: venc_chns_def)
qed





section \<open>The ISP thread\<close>

text \<open>A computation that starts the thread whenever it succeeds, and fails or ends the process if it is there.\<close>

definition starts_thread :: "td_s32 mpp \<Rightarrow> bool" where
  "starts_thread m \<longleftrightarrow> (\<forall>v v'. m v = Inr (0, v') \<longrightarrow> \<not> ispThread v \<and> ispThread v')"

lemma steadyD: "steady m \<Longrightarrow> m v = Inr (x, v') \<Longrightarrow> ispThread v' = ispThread v"
  unfolding steady_def by (metis Inr_inject Pair_inject)

lemma starts_isp_run: "starts_thread (comm_isp_run p)"
  by (auto simp: starts_thread_def comm_isp_run_def split: if_splits)

lemma starts_after:
  assumes "steady m" and "\<And>r. r \<noteq> 0 \<Longrightarrow> fails_with (\<lambda>r. r \<noteq> 0) (fail r)" and "starts_thread k"
  shows "starts_thread (on_fail m fail k)"
  unfolding starts_thread_def
proof (intro allI impI)
  fix v v' :: videoProcessHi assume "on_fail m fail k v = Inr (0, v')"
  then show "\<not> ispThread v \<and> ispThread v'"
  proof (cases rule: on_failE)
    case (fails ret w)
    with assms(2) show ?thesis unfolding fails_with_def by blast
  next
    case (goes_on w)
    with steadyD [OF assms(1) goes_on(1)] assms(3) show ?thesis unfolding starts_thread_def by metis
  qed
qed

lemma starts_before:
  assumes "starts_thread m" and "\<And>r. r \<noteq> 0 \<Longrightarrow> fails_with (\<lambda>r. r \<noteq> 0) (fail r)" and "steady k"
  shows "starts_thread (on_fail m fail k)"
  unfolding starts_thread_def
proof (intro allI impI)
  fix v v' :: videoProcessHi assume "on_fail m fail k v = Inr (0, v')"
  then show "\<not> ispThread v \<and> ispThread v'"
  proof (cases rule: on_failE)
    case (fails ret w)
    with assms(2) show ?thesis unfolding fails_with_def by blast
  next
    case (goes_on w)
    with steadyD [OF assms(3) goes_on(2)] assms(1) show ?thesis unfolding starts_thread_def by metis
  qed
qed

lemma starts_then_mpi: "starts_thread k \<Longrightarrow> starts_thread (then_mpi env c k)"
  unfolding starts_thread_def then_mpi_def mpp_bind_def mpi_def Let_def by fastforce

lemma starts_seq:
  assumes "\<And>r. r \<noteq> 0 \<Longrightarrow> fails_with (\<lambda>r. r \<noteq> 0) (fail r)" and "starts_thread k"
  shows "starts_thread (mpi_seq env fail cs k)"
  using assms by (induction cs) (auto intro!: starts_after steady_rules)

lemma starts_get: "(\<And>x. starts_thread (k x)) \<Longrightarrow> starts_thread (mpp_get sel k)"
  by (simp add: starts_thread_def mpp_get_def)

lemma starts_failure: "r \<noteq> 0 \<Longrightarrow> starts_thread (mpp_return r)"
  by (simp add: starts_thread_def)

lemma starts_create_isp: "starts_thread (comm_vi_create_isp env p)"
  unfolding comm_vi_create_isp_def
  by (intro starts_after steady_rules fails_with_return)
    (auto simp del: mpi_seq.simps split: option.split
      intro!: starts_then_mpi starts_seq starts_before [OF starts_isp_run] starts_failure fails_with_return steady_rules)

lemma starts_vi_init: "starts_thread (hi_mpp_vi_init env p c)"
  unfolding hi_mpp_vi_init_def init_vi_module_def init_vi_process_def comm_vi_start_vi_def
  by (rule starts_after [OF steady_set_vi_vpss_mode fails_with_return], assumption,
      intro starts_before starts_get starts_seq starts_after [OF steady_start_mipi] starts_after [OF steady_create_vi]
        starts_create_isp fails_with_return steady_rules)

lemma starts_init: "starts_thread (init env junk)"
  unfolding init_def
  by (rule starts_after [OF steady_sys_init fails_with_return], assumption,
      intro starts_before starts_vi_init fails_with_return steady_rules)

text \<open>
  C28: once initialised, the pipeline can neither be destroyed nor initialised again: the thread of the
  ISP is never joined, so that destruction ends the process, a second \<open>init\<close> never returns 0 for
  any driver, and with a driver that accepts everything ends the process.
\<close>

theorem initialised_once:
  assumes "init env junk v = Inr (0, v')"
  shows "destroy_videoProcessHi v' = Inl Terminated \<and> (\<forall>w. init env' junk' v' \<noteq> Inr (0, w))
    \<and> (sensor_ok env' \<and> (\<forall>tr c. \<not> failed (c, env_ret env' tr c)) \<longrightarrow> (\<exists>e. init env' junk' v' = Inl e))"
proof -
  from assms have thread: "ispThread v'" using starts_init unfolding starts_thread_def by blast
  have never: "init env' junk' v' \<noteq> Inr (0, w)" for w
    using thread starts_init unfolding starts_thread_def by blast
  have "\<exists>e. init env' junk' v' = Inl e" if ok: "sensor_ok env'" "\<forall>tr c. \<not> failed (c, env_ret env' tr c)"
  proof (cases "init env' junk' v'")
    case (Inr res)
    obtain r w where res: "res = (r, w)" by fastforce
    with Inr prompt_init obtain tr where "outcome env' r tr" by (metis prompt_runE)
    with ok answered_all_ok [of env' tr] have "r = 0" by (simp add: outcome_def)
    with Inr res never show ?thesis by simp
  qed simp
  with thread never show ?thesis by (simp add: destroy_videoProcessHi_def)
qed

theorem initialised_once_witness:
  "\<exists>v' e. init willing_driver no_cvbr new_videoProcessHi = Inr (0, v') \<and> destroy_videoProcessHi v' = Inl Terminated
     \<and> init willing_driver no_cvbr v' = Inl e"
proof -
  have "\<not> ispThread new_videoProcessHi" by (simp add: new_videoProcessHi_def)
  then obtain r v' where i: "init willing_driver no_cvbr new_videoProcessHi = Inr (r, v')"
    using starting_init unfolding starting_def by blast
  with prompt_init obtain tr where "outcome willing_driver r tr" by (metis prompt_runE)
  then have "r = 0" using answered_all_ok [OF willing_driver(4)] willing_driver(2) by (simp add: outcome_def)
  with i have i: "init willing_driver no_cvbr new_videoProcessHi = Inr (0, v')" by simp
  from initialised_once [OF i, of willing_driver no_cvbr] willing_driver(2,4) i show ?thesis by blast
qed

end
