(* ===== verification/Eye_Main.thy ===== *)
theory Eye_Main
  imports Stream_Manager Rtsp_Server Logger Pipeline_Faults
begin

text \<open>
  \<open>app/main.cpp\<close>: the singletons and the order in which \<open>main\<close> brings them up, up to the call of
  \<open>test_main\<close>.  The arguments are what the operating system, the driver and
  live555 answer.
\<close>

section \<open>Set-up\<close>

record ('f, 'fs) eye =
  ey_fs :: 'fs
  ey_logger :: Logger
  ey_pipeline :: videoProcessHi
  ey_manager :: "('f, StreamFetcher) StreamConsumerManager"
  ey_rtsp :: RtspServer

definition new_eye :: "'fs \<Rightarrow> ('f, 'fs) eye" where
  "new_eye fs = \<lparr>ey_fs = fs, ey_logger = new_logger, ey_pipeline = new_videoProcessHi, ey_manager = new_manager,
     ey_rtsp = new_server\<rparr>"

record 'fs platform =
  pf_access :: "'fs \<Rightarrow> string \<Rightarrow> bool"
  pf_mkdir :: "'fs \<Rightarrow> string \<Rightarrow> mkdir_result \<times> 'fs"
  pf_zlog_init :: int
  pf_zlog :: "string \<Rightarrow> nat option"
  pf_mpp :: mpp_env
  pf_cvbr :: rc_cvbr
  pf_stack :: "ot_venc_pack list option \<times> u32"
  pf_scheduler :: bool
  pf_env :: bool
  pf_server :: bool
  pf_session :: "StreamType \<Rightarrow> bool"

definition fetcher_of :: "'fs platform \<Rightarrow> VencChannel \<Rightarrow> StreamType \<Rightarrow> CodecType \<Rightarrow> StreamFetcher" where
  "fetcher_of pf = new_fetcher (fst (pf_stack pf)) (snd (pf_stack pf))"

definition set_fetchers :: "'fs platform \<Rightarrow> ('f, StreamFetcher) StreamConsumerManager \<Rightarrow> ('f, StreamFetcher) StreamConsumerManager" where
  "set_fetchers pf m =
     set_fetcher VIDEO_MJPEG (Some (fetcher_of pf CHN2 VIDEO_MJPEG MJPEG))
       (set_fetcher VIDEO_SUB (Some (fetcher_of pf CHN1 VIDEO_SUB H264))
         (set_fetcher VIDEO_MAIN (Some (fetcher_of pf CHN0 VIDEO_MAIN H265)) m))"

definition rtsp_consumer_config :: ConsumerConfig where
  "rtsp_consumer_config = \<lparr>cfg_max_queue_size = 5, cfg_thread_priority = 0\<rparr>"

definition start_streaming ::
  "'fs platform \<Rightarrow> ('f, StreamFetcher) StreamConsumerManager \<Rightarrow> RtspServer
     \<Rightarrow> (('f, StreamFetcher) StreamConsumerManager \<times> RtspServer) checked" where
  "start_streaming pf m s =
     (case Rtsp_Server.start 8554 (pf_scheduler pf) (pf_env pf) (pf_server pf) s of
        Inl e \<Rightarrow> Inl e
      | Inr (ok, s) \<Rightarrow>
          if ok then
            let (_, s) = add_stream VIDEO_MAIN ''main'' (pf_session pf VIDEO_MAIN) s;
                (_, s) = add_stream VIDEO_SUB ''sub'' (pf_session pf VIDEO_SUB) s;
                (_, m) = register_consumer VIDEO_MAIN rtsp_consumer_config m;
                (_, m) = register_consumer VIDEO_SUB rtsp_consumer_config m
            in Inr (m, s)
          else Inr (m, s))"

text \<open>The results of the logger and of the pipeline are ignored.\<close>

definition main_setup :: "'fs platform \<Rightarrow> ('f, 'fs) eye \<Rightarrow> ('f, 'fs) eye checked" where
  "main_setup pf e =
     (case logger_init (pf_access pf) (pf_mkdir pf) (pf_zlog_init pf) (pf_zlog pf) (ey_fs e, ey_logger e) of
        Inl x \<Rightarrow> Inl x
      | Inr (_, fs, l) \<Rightarrow>
     (case init (pf_mpp pf) (pf_cvbr pf) (ey_pipeline e) of
        Inl x \<Rightarrow> Inl x
      | Inr (_, p) \<Rightarrow>
     (case start_streaming pf (set_fetchers pf (ey_manager e)) (ey_rtsp e) of
        Inl x \<Rightarrow> Inl x
      | Inr (m, s) \<Rightarrow>
          Inr \<lparr>ey_fs = fs, ey_logger = l, ey_pipeline = p, ey_manager = m, ey_rtsp = s\<rparr>)))"

section \<open>What is set up\<close>

lemma logger_init_new:
  "\<exists>ok fs' l. logger_init access mkdir ret zlog (fs, new_logger) = Inr (ok, fs', l)
     \<and> lg_thread l = lg_initialized l \<and> lg_zlog_open l = lg_initialized l"
  by (cases "ensure_dir access mkdir LOG_DIR fs")
    (auto simp: logger_init_def new_logger_def preload_categories_def Let_def)

lemma init_new: "\<exists>r p. init env junk new_videoProcessHi = Inr (r, p)"
  using starting_init unfolding starting_def by (simp add: new_videoProcessHi_def)

definition streaming :: "'fs platform \<Rightarrow> bool" where
  "streaming pf \<longleftrightarrow> pf_scheduler pf \<and> pf_env pf \<and> pf_server pf"

lemma start_new:
  "\<exists>s. Rtsp_Server.start 8554 (pf_scheduler pf) (pf_env pf) (pf_server pf) new_server = Inr (streaming pf, s)
     \<and> srv_running s = streaming pf \<and> srv_rtsp_server s = streaming pf \<and> srv_sessions s = Map.empty
     \<and> srv_stream_codecs s = Map.empty"
  by (auto simp: Rtsp_Server.start_def new_server_def streaming_def Let_def)

definition main_fetchers :: "'fs platform \<Rightarrow> StreamType \<rightharpoonup> StreamFetcher option" where
  "main_fetchers pf =
     [VIDEO_MAIN \<mapsto> Some (fetcher_of pf CHN0 VIDEO_MAIN H265), VIDEO_SUB \<mapsto> Some (fetcher_of pf CHN1 VIDEO_SUB H264),
      VIDEO_MJPEG \<mapsto> Some (fetcher_of pf CHN2 VIDEO_MJPEG MJPEG)]"

lemma fetchers_set: "m_fetchers (set_fetchers pf new_manager) = main_fetchers pf"
  by (simp add: set_fetchers_def set_fetcher_def new_manager_def main_fetchers_def)

lemma distributors_set:
  "m_distributors (set_fetchers pf new_manager) =
     [VIDEO_MAIN \<mapsto> Some (new_distributor CHN0), VIDEO_SUB \<mapsto> Some (new_distributor CHN1),
      VIDEO_MJPEG \<mapsto> Some (new_distributor CHN2)]"
  by (simp add: set_fetchers_def set_fetcher_def new_manager_def)

lemma add_consumer_new:
  "\<exists>cid d. add_consumer config (new_distributor chn) = (cid, d) \<and> length (d_slots d) = 1"
  by (simp add: add_consumer_def new_distributor_def Let_def)

definition consumers :: "('f, 'p) StreamConsumerManager \<Rightarrow> StreamType \<Rightarrow> nat" where
  "consumers m t = (case m_distributors m t of Some (Some d) \<Rightarrow> length (d_slots d) | _ \<Rightarrow> 0)"

text \<open>The manager and the server after the set-up.\<close>

definition streaming_manager :: "'fs platform \<Rightarrow> ('f, StreamFetcher) StreamConsumerManager" where
  "streaming_manager pf =
     (if streaming pf
      then (set_fetchers pf new_manager)\<lparr>m_distributors :=
        [VIDEO_MAIN \<mapsto> Some (snd (add_consumer rtsp_consumer_config (new_distributor CHN0))),
         VIDEO_SUB \<mapsto> Some (snd (add_consumer rtsp_consumer_config (new_distributor CHN1))),
         VIDEO_MJPEG \<mapsto> Some (new_distributor CHN2)]\<rparr>
      else set_fetchers pf new_manager)"

lemma streaming_manager_fields:
  "m_fetchers (streaming_manager pf) = main_fetchers pf"
  "consumers (streaming_manager pf) t = (if streaming pf \<and> t \<in> {VIDEO_MAIN, VIDEO_SUB} then 1 else 0)"
  by (cases t; simp add: streaming_manager_def fetchers_set consumers_def distributors_set add_consumer_def
      new_distributor_def Let_def)+

lemma register_both:
  "snd (register_consumer VIDEO_SUB cf (snd (register_consumer VIDEO_MAIN cf (set_fetchers pf new_manager))))
     = (set_fetchers pf new_manager)\<lparr>m_distributors :=
        [VIDEO_MAIN \<mapsto> Some (snd (add_consumer cf (new_distributor CHN0))),
         VIDEO_SUB \<mapsto> Some (snd (add_consumer cf (new_distributor CHN1))),
         VIDEO_MJPEG \<mapsto> Some (new_distributor CHN2)]\<rparr>"
  by (simp add: register_consumer_def distributors_set case_prod_unfold Let_def fun_upd_twist)

lemma streaming_set:
  obtains s where "start_streaming pf (set_fetchers pf new_manager) new_server = Inr (streaming_manager pf, s)"
    "srv_running s = streaming pf" "srv_inv s"
    "dom (srv_sessions s) = {t \<in> {VIDEO_MAIN, VIDEO_SUB}. streaming pf \<and> pf_session pf t}"
    "srv_stream_codecs s = (\<lambda>t. if t \<in> dom (srv_sessions s) then Some (if t = VIDEO_MAIN then H265 else H264) else None)"
proof -
  from start_new [of pf] obtain s where s:
    "Rtsp_Server.start 8554 (pf_scheduler pf) (pf_env pf) (pf_server pf) new_server = Inr (streaming pf, s)"
    "srv_running s = streaming pf" "srv_rtsp_server s = streaming pf" "srv_sessions s = Map.empty"
    "srv_stream_codecs s = Map.empty" by blast
  let ?s = "snd (add_stream VIDEO_SUB ''sub'' (pf_session pf VIDEO_SUB)
      (snd (add_stream VIDEO_MAIN ''main'' (pf_session pf VIDEO_MAIN) s)))"
  have inv: "srv_inv s \<and> srv_clean s"
    using srv_step_inv [OF new_server_inv new_server_clean, of "Start 8554 (pf_scheduler pf) (pf_env pf) (pf_server pf)"] s(1)
    by simp
  show thesis
  proof (cases "streaming pf")
    case True
    have "srv_inv ?s"
      using srv_run_inv [of s "[AddStream VIDEO_MAIN ''main'' (pf_session pf VIDEO_MAIN),
          AddStream VIDEO_SUB ''sub'' (pf_session pf VIDEO_SUB)]"] inv by fastforce
    moreover have "start_streaming pf (set_fetchers pf new_manager) new_server = Inr (streaming_manager pf, ?s)"
      using True s(1) register_both [of rtsp_consumer_config pf]
      by (simp add: start_streaming_def streaming_manager_def case_prod_unfold Let_def)
    ultimately show thesis
      using True s by (intro that [of ?s]) (auto simp: add_stream_def Let_def fun_eq_iff)
  next
    case False
    with s inv show thesis by (intro that [of s]) (auto simp: start_streaming_def streaming_manager_def)
  qed
qed

lemma streamingD:
  fixes m :: "('f, StreamFetcher) StreamConsumerManager"
  assumes "start_streaming pf (set_fetchers pf new_manager) new_server = Inr (m, s)"
  shows "m = streaming_manager pf"
    and "srv_running s = streaming pf" and "srv_inv s"
    and "dom (srv_sessions s) = {t \<in> {VIDEO_MAIN, VIDEO_SUB}. streaming pf \<and> pf_session pf t}"
    and "srv_stream_codecs s = (\<lambda>t. if t \<in> dom (srv_sessions s) then Some (if t = VIDEO_MAIN then H265 else H264) else None)"
proof -
  obtain s' where s': "start_streaming pf (set_fetchers pf new_manager) new_server = Inr (streaming_manager pf :: ('f, StreamFetcher) StreamConsumerManager, s')"
    "srv_running s' = streaming pf" "srv_inv s'"
    "dom (srv_sessions s') = {t \<in> {VIDEO_MAIN, VIDEO_SUB}. streaming pf \<and> pf_session pf t}"
    "srv_stream_codecs s' = (\<lambda>t. if t \<in> dom (srv_sessions s') then Some (if t = VIDEO_MAIN then H265 else H264) else None)"
    by (rule streaming_set)
  with assms have "m = streaming_manager pf" "s = s'" by simp_all
  with s' show "m = streaming_manager pf" "srv_running s = streaming pf" "srv_inv s"
    "dom (srv_sessions s) = {t \<in> {VIDEO_MAIN, VIDEO_SUB}. streaming pf \<and> pf_session pf t}"
    "srv_stream_codecs s = (\<lambda>t. if t \<in> dom (srv_sessions s) then Some (if t = VIDEO_MAIN then H265 else H264) else None)"
    by simp_all
qed

lemma main_setup_new:
  fixes fs :: 'fs and pf :: "'fs platform"
  obtains e :: "('f, 'fs) eye" and r where "main_setup pf (new_eye fs) = Inr e"
    "init (pf_mpp pf) (pf_cvbr pf) new_videoProcessHi = Inr (r, ey_pipeline e)"
    "start_streaming pf (set_fetchers pf new_manager) new_server = Inr (ey_manager e, ey_rtsp e)"
    "lg_thread (ey_logger e) = lg_initialized (ey_logger e)" "lg_zlog_open (ey_logger e) = lg_initialized (ey_logger e)"
proof -
  obtain ok fs' l where l: "logger_init (pf_access pf) (pf_mkdir pf) (pf_zlog_init pf) (pf_zlog pf) (fs, new_logger) = Inr (ok, fs', l)"
    "lg_thread l = lg_initialized l" "lg_zlog_open l = lg_initialized l"
    using logger_init_new [of "pf_access pf" "pf_mkdir pf" "pf_zlog_init pf" "pf_zlog pf" fs] by blast
  obtain r p where p: "init (pf_mpp pf) (pf_cvbr pf) new_videoProcessHi = Inr (r, p)"
    using init_new by blast
  obtain m :: "('f, StreamFetcher) StreamConsumerManager" and s where
    m: "start_streaming pf (set_fetchers pf new_manager) new_server = Inr (m, s)"
    by (rule streaming_set)
  let ?e = "\<lparr>ey_fs = fs', ey_logger = l, ey_pipeline = p, ey_manager = m, ey_rtsp = s\<rparr>"
  have "main_setup pf (new_eye fs) = Inr ?e" by (simp add: main_setup_def new_eye_def l(1) p m)
  with p m l(2,3) show thesis by (intro that [of ?e r]) simp_all
qed

section \<open>Properties\<close>

fun channel_number :: "VencChannel \<Rightarrow> int" where
  "channel_number CHN0 = 0" | "channel_number CHN1 = 1" | "channel_number CHN2 = 2"

fun payload_type :: "CodecType \<Rightarrow> ot_payload_type" where
  "payload_type H264 = OT_PT_H264" | "payload_type H265 = OT_PT_H265" | "payload_type MJPEG = OT_PT_MJPEG"

lemma main_fetchers_ready: "fetchers_all (\<lambda>f. fetcher_ready f \<and> \<not> ft_running f) m" if "m_fetchers m = main_fetchers pf"
  using that
  by (auto simp: fetchers_all_def main_fetchers_def fetcher_of_def new_fetcher_def fetcher_ready_def split: if_splits)

text \<open>
  C16: whatever the system, the driver and live555 answer, the set-up is defined.  Afterwards the three
  video streams have fetchers, none of which runs; the RTSP server runs exactly if its library objects
  could be created; exactly then the main and the sub stream have one consumer, and they are published
  if their session could be created, with the codec of their fetcher.  Starting all fetchers from there
  is defined and starts the three of them; so no stream flows until somebody calls \<open>start_all\<close>.
\<close>

theorem main_streams:
  fixes fs :: 'fs and pf :: "'fs platform"
  shows "\<exists>(e :: ('f, 'fs) eye) m'. main_setup pf (new_eye fs) = Inr e
    \<and> dom (m_fetchers (ey_manager e)) = {VIDEO_MAIN, VIDEO_SUB, VIDEO_MJPEG}
    \<and> fetchers_all (\<lambda>f. \<not> ft_running f) (ey_manager e)
    \<and> srv_running (ey_rtsp e) = streaming pf
    \<and> (\<forall>t. consumers (ey_manager e) t = (if streaming pf \<and> t \<in> {VIDEO_MAIN, VIDEO_SUB} then 1 else 0))
    \<and> dom (srv_sessions (ey_rtsp e)) = {t \<in> {VIDEO_MAIN, VIDEO_SUB}. streaming pf \<and> pf_session pf t}
    \<and> (\<forall>t codec. srv_stream_codecs (ey_rtsp e) t = Some codec \<longrightarrow>
         (\<exists>f. m_fetchers (ey_manager e) t = Some (Some f) \<and> ft_codec_type f = codec))
    \<and> start_all fetcher_start (ey_manager e) = Inr m' \<and> fetchers_all ft_running m'
    \<and> dom (m_fetchers m') = {VIDEO_MAIN, VIDEO_SUB, VIDEO_MJPEG}"
proof -
  obtain e :: "('f, 'fs) eye" and r where e: "main_setup pf (new_eye fs) = Inr e"
    "start_streaming pf (set_fetchers pf new_manager) new_server = Inr (ey_manager e, ey_rtsp e)"
    by (rule main_setup_new)
  note s = streamingD [OF e(2)]
  have m: "m_fetchers (ey_manager e) = main_fetchers pf"
    "consumers (ey_manager e) t = (if streaming pf \<and> t \<in> {VIDEO_MAIN, VIDEO_SUB} then 1 else 0)" for t
    unfolding s(1) by (rule streaming_manager_fields)+
  have d: "dom (m_fetchers (ey_manager e)) = {VIDEO_MAIN, VIDEO_SUB, VIDEO_MJPEG}"
    by (auto simp: m(1) main_fetchers_def)
  have c: "\<exists>f. m_fetchers (ey_manager e) t = Some (Some f) \<and> ft_codec_type f = codec"
    if "srv_stream_codecs (ey_rtsp e) t = Some codec" for t codec
    using that m(1) s(4,5) by (auto simp: main_fetchers_def fetcher_of_def new_fetcher_def split: if_splits)
  have all: "fetchers_all (\<lambda>f. fetcher_ready f \<and> \<not> ft_running f) (ey_manager e)" by (rule main_fetchers_ready [OF m(1)])
  then have "fetchers_all fetcher_ready (ey_manager e)" "fetchers_all (\<lambda>f. \<not> ft_running f) (ey_manager e)"
    unfolding fetchers_all_def by blast+
  moreover from fetcher.start_all_ready [OF this(1)] obtain m' where "start_all fetcher_start (ey_manager e) = Inr m'"
    "dom (m_fetchers m') = dom (m_fetchers (ey_manager e))" "fetchers_all ft_running m'"
    unfolding fetchers_all_def by blast
  ultimately show ?thesis
    by (intro exI [where x = e] exI [where x = m'] conjI allI impI e(1) d s(2,4) m(2) c) (simp_all add: d)
qed

definition willing_platform :: "unit platform" where
  "willing_platform =
     \<lparr>pf_access = (\<lambda>_ _. True), pf_mkdir = (\<lambda>fs _. (MkOk, fs)), pf_zlog_init = 0, pf_zlog = (\<lambda>_. None),
      pf_mpp = willing_driver, pf_cvbr = no_cvbr, pf_stack = (None, 0), pf_scheduler = True, pf_env = True,
      pf_server = True, pf_session = (\<lambda>_. True)\<rparr>"

theorem main_streams_witness:
  "\<exists>(e :: (unit, unit) eye) m'. main_setup willing_platform (new_eye ()) = Inr e \<and> srv_running (ey_rtsp e)
     \<and> consumers (ey_manager e) VIDEO_SUB = 1 \<and> consumers (ey_manager e) VIDEO_MJPEG = 0
     \<and> VIDEO_SUB \<in> dom (srv_sessions (ey_rtsp e))
     \<and> start_all fetcher_start (ey_manager e) = Inr m' \<and> fetchers_all ft_running m'"
proof -
  have s: "streaming willing_platform" "pf_session willing_platform t" for t
    by (simp_all add: streaming_def willing_platform_def)
  obtain e :: "(unit, unit) eye" and m' where e: "main_setup willing_platform (new_eye ()) = Inr e"
    "srv_running (ey_rtsp e) = streaming willing_platform"
    "\<forall>t. consumers (ey_manager e) t = (if streaming willing_platform \<and> t \<in> {VIDEO_MAIN, VIDEO_SUB} then 1 else 0)"
    "dom (srv_sessions (ey_rtsp e)) = {t \<in> {VIDEO_MAIN, VIDEO_SUB}. streaming willing_platform \<and> pf_session willing_platform t}"
    "start_all fetcher_start (ey_manager e) = Inr m'" "fetchers_all ft_running m'"
    using main_streams [of willing_platform "()"] by blast
  have "srv_running (ey_rtsp e)" "consumers (ey_manager e) VIDEO_SUB = 1" "consumers (ey_manager e) VIDEO_MJPEG = 0"
    "VIDEO_SUB \<in> dom (srv_sessions (ey_rtsp e))"
    unfolding e(2,4) by (simp_all add: e(3) s)
  with e(1,5,6) show ?thesis by blast
qed

text \<open>
  C17: when the driver accepts everything, the encoder channels that the pipeline has created are exactly
  those that the fetchers read, each with the payload type of its fetcher's codec.
\<close>

theorem main_codecs:
  fixes fs :: 'fs and pf :: "'fs platform"
  assumes "driver_reports rest (pf_mpp pf)" and "sensor_ok (pf_mpp pf)"
    and "\<And>tr. env_ret (pf_mpp pf) tr (sys_open MIPI_DEV_NODE) = fd" and "0 \<le> fd"
    and "\<And>tr c. \<not> failed (c, env_ret (pf_mpp pf) tr c)"
  shows "\<exists>e :: ('f, 'fs) eye. main_setup pf (new_eye fs) = Inr e
    \<and> {(c, va_type (venc_attr attr)) | c attr. ss_mpi_venc_create_chn c attr \<in> fst ` set (trace (ey_pipeline e))}
      = {(channel_number (ft_channel f), payload_type (ft_codec_type f)) | t f. m_fetchers (ey_manager e) t = Some (Some f)}"
proof -
  have fresh: "\<not> ispThread new_videoProcessHi" "plain new_videoProcessHi" "trace new_videoProcessHi = []"
    by (simp_all add: new_videoProcessHi_def plain_def)
  obtain e :: "('f, 'fs) eye" and r where e: "main_setup pf (new_eye fs) = Inr e"
    "init (pf_mpp pf) (pf_cvbr pf) new_videoProcessHi = Inr (r, ey_pipeline e)"
    "start_streaming pf (set_fetchers pf new_manager) new_server = Inr (ey_manager e, ey_rtsp e)"
    by (rule main_setup_new)
  have m: "m_fetchers (ey_manager e) = main_fetchers pf"
    unfolding streamingD(1) [OF e(3)] by (rule streaming_manager_fields)
  have "fst ` set (trace (ey_pipeline e)) = set (init_calls (env_pic_buf_size (pf_mpp pf)) fd rest)"
    using init_succeeds [OF fresh(1,2) assms, of "pf_cvbr pf"] e(2) fresh(3) by (auto simp flip: set_map)
  moreover have "ss_mpi_venc_create_chn c attr \<in> set (init_calls buf_size fd rest)
      \<longleftrightarrow> (c, attr) \<in> {(0, main_attr), (1, sub_attr), (2, mjpeg_attr)}" for c attr buf_size
    by (simp add: init_calls_def sys_calls_def mipi_calls_def vi_calls_def isp_calls_def vpss_calls_def bind_call_def
        venc_calls_def start_calls_def close_calls_def mini_buf_calls_def) auto
  ultimately have "{(c, va_type (venc_attr attr)) | c attr. ss_mpi_venc_create_chn c attr \<in> fst ` set (trace (ey_pipeline e))}
      = {(0, OT_PT_H265), (1, OT_PT_H264), (2, OT_PT_MJPEG)}"
    by (auto simp: main_attr_def sub_attr_def mjpeg_attr_def stream_attr_def)
  also have "\<dots> = {(channel_number (ft_channel f), payload_type (ft_codec_type f)) | t f.
      m_fetchers (ey_manager e) t = Some (Some f)}"
    unfolding m by (auto simp: main_fetchers_def fetcher_of_def new_fetcher_def split: if_splits)
  finally show ?thesis using e(1) by blast
qed

theorem main_codecs_witness:
  "\<exists>e :: (unit, unit) eye. main_setup willing_platform (new_eye ()) = Inr e
    \<and> {(c, va_type (venc_attr attr)) | c attr. ss_mpi_venc_create_chn c attr \<in> fst ` set (trace (ey_pipeline e))}
      = {(channel_number (ft_channel f), payload_type (ft_codec_type f)) | t f. m_fetchers (ey_manager e) t = Some (Some f)}"
proof -
  have "pf_mpp willing_platform = willing_driver" by (simp add: willing_platform_def)
  with main_codecs [of "\<lambda>_. []" willing_platform 3 "()", where 'f = unit] willing_driver show ?thesis by simp
qed

end
