(* ===== verification/Eye_Exit.thy ===== *)
theory Eye_Exit
  imports Eye_Main
begin

text \<open>
  The end of \<open>main\<close>.  The singletons are static objects of functions, constructed at the first call
  of \<open>instance\<close>: logger, pipeline, consumer manager, RTSP server.  When \<open>main\<close> returns they are
  destroyed in reverse; the manager's fetchers go before its distributors, in the reverse order of
  the members.  Destroying a \<open>std::thread\<close> that is joinable ends the process.
\<close>

section \<open>Destructors\<close>

definition destroy_RtspServer :: "RtspServer \<Rightarrow> RtspServer checked" where
  "destroy_RtspServer s = (let s = stop s in if srv_event_thread s then Inl Terminated else Inr s)"

definition destroy_Logger :: "Logger \<Rightarrow> Logger checked" where
  "destroy_Logger l = (let l = logger_fini l in if lg_thread l then Inl Terminated else Inr l)"

fun destroy_fetchers :: "StreamType list \<Rightarrow> (StreamType \<rightharpoonup> StreamFetcher option) \<Rightarrow> unit checked" where
  "destroy_fetchers [] fs = Inr ()"
| "destroy_fetchers (t # ts) fs =
     (case fs t of
        Some (Some f) \<Rightarrow> (case fetcher_destroy f of Inl x \<Rightarrow> Inl x | Inr _ \<Rightarrow> destroy_fetchers ts fs)
      | _ \<Rightarrow> destroy_fetchers ts fs)"

text \<open>
  The destructor of a distributor returns if the schedule \<open>xs\<close> of its threads takes it to its end
  (the exit is thread 0).
\<close>

definition destructor_returns :: "'f action list \<Rightarrow> 'f dist \<Rightarrow> bool" where
  "destructor_returns xs d =
     (case dist_run (Destroy 0 # xs) d of None \<Rightarrow> False | Some d' \<Rightarrow> d_shut d' 0 = None)"

definition destructors_return ::
  "(StreamType \<Rightarrow> 'f action list) \<Rightarrow> (StreamType \<rightharpoonup> 'f dist option) \<Rightarrow> bool" where
  "destructors_return schedule ds =
     list_all (\<lambda>t. case ds t of Some (Some d) \<Rightarrow> destructor_returns (schedule t) d | _ \<Rightarrow> True) stream_types"

text \<open>\<open>None\<close>: the exit waits in the destructor of a distributor.\<close>

definition main_exit :: "(StreamType \<Rightarrow> 'f action list) \<Rightarrow> ('f, 'fs) eye \<Rightarrow> ('f, 'fs) eye checked option" where
  "main_exit schedule e =
     (case destroy_RtspServer (ey_rtsp e) of
        Inl x \<Rightarrow> Some (Inl x)
      | Inr s \<Rightarrow>
     (case destroy_fetchers stream_types (m_fetchers (ey_manager e)) of
        Inl x \<Rightarrow> Some (Inl x)
      | Inr _ \<Rightarrow>
          if \<not> destructors_return schedule (m_distributors (ey_manager e)) then None
          else (case destroy_videoProcessHi (ey_pipeline e) of
              Inl x \<Rightarrow> Some (Inl x)
            | Inr _ \<Rightarrow>
                (case destroy_Logger (ey_logger e) of
                   Inl x \<Rightarrow> Some (Inl x)
                 | Inr l \<Rightarrow> Some (Inr (e\<lparr>ey_rtsp := s, ey_logger := l\<rparr>))))))"

section \<open>Each destructor\<close>

lemma destroy_RtspServer_ok: "srv_inv s \<Longrightarrow> \<exists>s'. destroy_RtspServer s = Inr s' \<and> srv_live s' = {} \<and> \<not> srv_running s'"
  by (auto simp: destroy_RtspServer_def stop_eq srv_inv_def Let_def)

lemma destroy_Logger_ok:
  assumes "lg_thread l = lg_initialized l" and "lg_zlog_open l = lg_initialized l"
  shows "\<exists>l'. destroy_Logger l = Inr l' \<and> \<not> lg_thread l' \<and> \<not> lg_zlog_open l'"
  using assms by (auto simp: destroy_Logger_def logger_fini_def Let_def)

lemma destroy_fetchers_ok: "fetchers_all (\<lambda>f. fetcher_ready f) m \<Longrightarrow> destroy_fetchers ts (m_fetchers m) = Inr ()"
  by (induction ts) (auto simp: fetchers_all_def fetcher_ready_def fetcher_destroy_def fetcher_stop_def Let_def
      split: option.splits)

text \<open>One consumer whose worker has not started: store the flag, let the worker see it, notify, join.\<close>

definition quick_exit :: "'fs platform \<Rightarrow> StreamType \<Rightarrow> 'f action list" where
  "quick_exit pf t =
     (if streaming pf \<and> t \<in> {VIDEO_MAIN, VIDEO_SUB} then [ShutStep 0, WorkerStep 0, ShutStep 0, ShutStep 0] else [])"

lemma quick_destructor:
  "d_slots d = [] \<Longrightarrow> d_shut d 0 = None \<Longrightarrow> destructor_returns [] d"
  "d_slots d = [0] \<Longrightarrow> d_shut d 0 = None \<Longrightarrow> d_heap d = s # heap \<Longrightarrow> sl_worker s = WLoop \<Longrightarrow>
     destructor_returns [ShutStep 0, WorkerStep 0, ShutStep 0, ShutStep 0] d"
  by (simp_all add: destructor_returns_def destroy_def shut_next_def shut_step_def upd_slot_def worker_func_def
      slot_notify_def)

text \<open>The distributors as the set-up leaves them, up to consumers that have gone.\<close>

definition quick_dist :: "'fs platform \<Rightarrow> StreamType \<Rightarrow> 'f dist \<Rightarrow> bool" where
  "quick_dist pf t d \<longleftrightarrow> d_shut d 0 = None
     \<and> (if streaming pf \<and> t \<in> {VIDEO_MAIN, VIDEO_SUB}
        then d_slots d = [0] \<and> (\<exists>s heap. d_heap d = s # heap \<and> sl_worker s = WLoop) else d_slots d = [])"

lemma quick_dist_setup: "m_distributors (streaming_manager pf) t = Some (Some d) \<Longrightarrow> quick_dist pf t d"
  by (auto simp: quick_dist_def streaming_manager_def distributors_set add_consumer_def new_distributor_def Let_def
      split: if_splits)

lemma quick_exit_returns:
  assumes "\<And>t d. ds t = Some (Some d) \<Longrightarrow> quick_dist pf t d"
  shows "destructors_return (quick_exit pf) ds"
proof -
  have "destructor_returns (quick_exit pf t) d" if "ds t = Some (Some d)" for t d
    using assms [OF that] quick_destructor [of d] by (auto simp: quick_dist_def quick_exit_def split: if_splits)
  then show ?thesis by (auto simp: destructors_return_def list_all_iff split: option.split)
qed

text \<open>The exit from a state in which everything can be destroyed, except possibly the pipeline.\<close>

lemma main_exit_eq:
  assumes "srv_inv (ey_rtsp e)" and "lg_thread (ey_logger e) = lg_initialized (ey_logger e)"
    and "lg_zlog_open (ey_logger e) = lg_initialized (ey_logger e)" and "fetchers_all fetcher_ready (ey_manager e)"
  obtains e' where "srv_live (ey_rtsp e') = {}" "\<not> lg_thread (ey_logger e')" "\<not> lg_zlog_open (ey_logger e')"
    "\<forall>schedule. main_exit schedule e =
       (if \<not> destructors_return schedule (m_distributors (ey_manager e)) then None
        else if ispThread (ey_pipeline e) then Some (Inl Terminated) else Some (Inr e'))"
proof -
  obtain s where s: "destroy_RtspServer (ey_rtsp e) = Inr s" "srv_live s = {}"
    using destroy_RtspServer_ok [OF assms(1)] by blast
  obtain l where l: "destroy_Logger (ey_logger e) = Inr l" "\<not> lg_thread l" "\<not> lg_zlog_open l"
    using destroy_Logger_ok [OF assms(2,3)] by blast
  have "destroy_fetchers stream_types (m_fetchers (ey_manager e)) = Inr ()"
    by (rule destroy_fetchers_ok) (use assms(4) in simp)
  with s l show thesis
    by (intro that [of "e\<lparr>ey_rtsp := s, ey_logger := l\<rparr>"]) (simp_all add: main_exit_def destroy_videoProcessHi_def)
qed

lemma initialised_isp: "init env junk new_videoProcessHi = Inr (0, p) \<Longrightarrow> ispThread p"
  using starts_init unfolding starts_thread_def by blast

section \<open>The exit after the set-up\<close>

lemma main_setup_state:
  fixes e :: "('f, 'fs) eye"
  assumes "main_setup pf (new_eye fs) = Inr e"
  shows "ey_manager e = streaming_manager pf" and "srv_inv (ey_rtsp e)"
    and "lg_thread (ey_logger e) = lg_initialized (ey_logger e)"
    and "lg_zlog_open (ey_logger e) = lg_initialized (ey_logger e)"
    and "\<exists>r. init (pf_mpp pf) (pf_cvbr pf) new_videoProcessHi = Inr (r, ey_pipeline e)"
proof -
  obtain e1 :: "('f, 'fs) eye" and r where e1: "main_setup pf (new_eye fs) = Inr e1"
    "init (pf_mpp pf) (pf_cvbr pf) new_videoProcessHi = Inr (r, ey_pipeline e1)"
    "start_streaming pf (set_fetchers pf new_manager) new_server = Inr (ey_manager e1, ey_rtsp e1)"
    "lg_thread (ey_logger e1) = lg_initialized (ey_logger e1)" "lg_zlog_open (ey_logger e1) = lg_initialized (ey_logger e1)"
    by (rule main_setup_new)
  then have "e1 = e" using assms by simp
  with e1 streamingD(1,3) [OF e1(3)] show "ey_manager e = streaming_manager pf" "srv_inv (ey_rtsp e)"
    "lg_thread (ey_logger e) = lg_initialized (ey_logger e)" "lg_zlog_open (ey_logger e) = lg_initialized (ey_logger e)"
    "\<exists>r. init (pf_mpp pf) (pf_cvbr pf) new_videoProcessHi = Inr (r, ey_pipeline e)" by auto
qed

text \<open>
  How the program ends from the state that its set-up leaves, which is also the state after a stream
  test that could not open its files: if the pipeline was initialised,
  the exit never completes - it ends in \<open>std::terminate\<close>, because nothing joins the ISP thread, or
  waits for ever for a distributor; if the ISP thread does not run, there is a schedule in which every
  destructor returns, and then no library object of the RTSP server is left, and the logger has
  stopped its thread and closed zlog.
\<close>

theorem main_exit_terminates:
  fixes fs :: 'fs and pf :: "'fs platform" and e :: "('f, 'fs) eye"
  assumes "main_setup pf (new_eye fs) = Inr e"
  shows "(init (pf_mpp pf) (pf_cvbr pf) new_videoProcessHi = Inr (0, ey_pipeline e) \<longrightarrow>
       main_exit schedule e \<in> {None, Some (Inl Terminated)} \<and> main_exit (quick_exit pf) e = Some (Inl Terminated))
    \<and> (\<not> ispThread (ey_pipeline e) \<longrightarrow>
       (\<exists>e'. main_exit (quick_exit pf) e = Some (Inr e') \<and> srv_live (ey_rtsp e') = {}
          \<and> \<not> lg_thread (ey_logger e') \<and> \<not> lg_zlog_open (ey_logger e')))"
proof -
  note e = main_setup_state [OF assms]
  have "m_fetchers (ey_manager e) = main_fetchers pf" by (simp add: e(1) streaming_manager_fields)
  from main_fetchers_ready [OF this] have "fetchers_all fetcher_ready (ey_manager e)"
    unfolding fetchers_all_def by blast
  with e(2-4) obtain e' where "srv_live (ey_rtsp e') = {}" "\<not> lg_thread (ey_logger e')"
    "\<not> lg_zlog_open (ey_logger e')"
    "\<forall>schedule. main_exit schedule e =
       (if \<not> destructors_return schedule (m_distributors (ey_manager e)) then None
        else if ispThread (ey_pipeline e) then Some (Inl Terminated) else Some (Inr e'))"
    by (rule main_exit_eq)
  with initialised_isp quick_exit_returns [OF quick_dist_setup [of pf]] show ?thesis by (auto simp: e(1))
qed

lemma willing_init: "init willing_driver junk new_videoProcessHi = Inr (r, p) \<Longrightarrow> r = 0"
  using prompt_init answered_all_ok [OF willing_driver(4)] willing_driver(2) by (metis prompt_runE outcome_def)

theorem main_exit_terminates_witness:
  "\<exists>e :: (unit, unit) eye. main_setup willing_platform (new_eye ()) = Inr e
     \<and> main_exit (quick_exit willing_platform) e = Some (Inl Terminated)"
proof -
  obtain e :: "(unit, unit) eye" and r where e: "main_setup willing_platform (new_eye ()) = Inr e"
    "init (pf_mpp willing_platform) (pf_cvbr willing_platform) new_videoProcessHi = Inr (r, ey_pipeline e)"
    by (rule main_setup_new)
  then have "r = 0" using willing_init by (simp add: willing_platform_def)
  with e main_exit_terminates [OF e(1)] show ?thesis by blast
qed

end
