(* ===== verification/Stream_Test.thy ===== *)
theory Stream_Test
  imports Test_Writer Eye_Exit
begin

text \<open>
  \<open>test_main\<close> with its call \<open>stream_test(5, 10)\<close>, from the state that the set-up of \<open>main\<close> leaves: it opens
  three files, registers a consumer on each stream, starts the fetchers, sleeps, and takes the
  consumers away again.  Its \<open>goto cleanup\<close> is the branch of \<open>stream_test\<close> on a file that cannot be opened.
\<close>

section \<open>Blocking calls\<close>

text \<open>What ends the blocking calls of the main thread, one by one.  \<open>pause\<close> ends with a signal only.\<close>

datatype wait_event = Elapsed | Signal int

fun sleep_call :: "wait_event list \<Rightarrow> wait_event list option" where
  "sleep_call [] = None"
| "sleep_call (e # es) = Some es"

fun pause_call :: "wait_event list \<Rightarrow> wait_event list option" where
  "pause_call (Signal sig # es) = Some es"
| "pause_call _ = None"

section \<open>The stream test\<close>

definition test_writers :: "ChannelWriter list" where
  "test_writers =
     [new_ChannelWriter ''/run/stream_chn0.h265'' ''CHN0'' VIDEO_MAIN,
      new_ChannelWriter ''/run/stream_chn1.h264'' ''CHN1'' VIDEO_SUB,
      new_ChannelWriter ''/run/stream_chn2.mjpeg'' ''CHN2'' VIDEO_MJPEG]"

fun stream_type_to_string :: "StreamType \<Rightarrow> string" where
  "stream_type_to_string VIDEO_MAIN = ''VIDEO_MAIN(CHN0 H265 2560x1440)''"
| "stream_type_to_string VIDEO_SUB = ''VIDEO_SUB(CHN1 H264 1280x720)''"
| "stream_type_to_string VIDEO_MJPEG = ''VIDEO_MJPEG(CHN2 MJPEG 640x360)''"
| "stream_type_to_string AUDIO_AAC = ''UNKNOWN''"

definition default_consumer_config :: ConsumerConfig where
  "default_consumer_config = \<lparr>cfg_max_queue_size = 3, cfg_thread_priority = 0\<rparr>"

text \<open>The first loop ends at the first file that cannot be opened.\<close>

fun open_writers :: "(string \<Rightarrow> bool) \<Rightarrow> ChannelWriter list \<Rightarrow> bool \<times> ChannelWriter list" where
  "open_writers fopen [] = (True, [])"
| "open_writers fopen (w # ws) =
     (case cw_open (fopen (cw_path w)) w of (ok, w) \<Rightarrow>
        if \<not> ok then (False, w # ws) else (case open_writers fopen ws of (ok, ws) \<Rightarrow> (ok, w # ws)))"

fun register_writers ::
  "ChannelWriter list \<Rightarrow> ('f, 'p) StreamConsumerManager \<Rightarrow> u32 list \<times> ('f, 'p) StreamConsumerManager" where
  "register_writers [] m = ([], m)"
| "register_writers (w # ws) m =
     (let (cid, m) = register_consumer (cw_stream_type w) default_consumer_config m;
          (cids, m) = register_writers ws m
      in (cid # cids, m))"

text \<open>
  The world of the test: which files can be opened, the file descriptors of the encoder channels, what
  \<open>fwrite\<close> accepts, and what the threads do on each stream from the start of the fetchers until its
  file is closed.
\<close>

record test_world =
  tw_fopen :: "string \<Rightarrow> bool"
  tw_fd :: "StreamType \<Rightarrow> int"
  tw_answer :: "StreamType \<Rightarrow> int \<Rightarrow> nat \<Rightarrow> nat"
  tw_acts :: "StreamType \<Rightarrow> test_action list"

text \<open>
  The streams share nothing but the main thread, which unregisters and closes them one after the other.
  \<open>None\<close>: the main thread has not got that far.  A stream without distributor has no consumer to
  remove.
\<close>

type_synonym manager = "(StreamFrame, StreamFetcher) StreamConsumerManager"

fun record_streams :: "test_world \<Rightarrow> (ChannelWriter \<times> u32) list \<Rightarrow> manager \<Rightarrow> (ChannelWriter list \<times> manager) checked option" where
  "record_streams tw [] m = Some (Inr ([], m))"
| "record_streams tw ((w, cid) # ws) m =
     (let t = cw_stream_type w
      in case (m_fetchers m t, m_distributors m t) of
           (Some (Some f), Some (Some d)) \<Rightarrow>
             (case test_run (tw_answer tw t) (tw_acts tw t) (test_stream_begin (tw_fd tw t) cid f d w) of
                None \<Rightarrow> None
              | Some (Inl e) \<Rightarrow> Some (Inl e)
              | Some (Inr s) \<Rightarrow>
                  if ts_phase s \<noteq> Closed then None
                  else map_option (map_sum id (map_prod (Cons (ss_consumers (ts_sys s))) id))
                    (record_streams tw ws (m\<lparr>m_distributors := (m_distributors m)(t \<mapsto> Some (ss_dist (ts_sys s))),
                       m_fetchers := (m_fetchers m)(t \<mapsto> Some (ss_fetcher (ts_sys s)))\<rparr>)))
         | _ \<Rightarrow> map_option (map_sum id (map_prod (Cons (cw_close w)) id)) (record_streams tw ws m))"

definition stream_test ::
  "test_world \<Rightarrow> wait_event list \<Rightarrow> manager \<Rightarrow> (ChannelWriter list \<times> manager \<times> wait_event list) checked option" where
  "stream_test tw es m =
     (case sleep_call es of
        None \<Rightarrow> None
      | Some es \<Rightarrow>
          (case open_writers (tw_fopen tw) test_writers of (ok, ws) \<Rightarrow>
             if \<not> ok then Some (Inr (map cw_close ws, m, es))
             else (case register_writers ws m of (cids, m) \<Rightarrow>
               (case start_all fetcher_start m of
                  Inl e \<Rightarrow> Some (Inl e)
                | Inr m \<Rightarrow>
                    (case sleep_call es of
                       None \<Rightarrow> None
                     | Some es \<Rightarrow> map_option (map_sum id (\<lambda>(ws, m). (ws, m, es))) (record_streams tw (zip ws cids) m))))))"

section \<open>What the test records\<close>

text \<open>
  The file of a stream: whole packs of some of its pictures, in order, each pack cut off where the disk
  did not accept more; and the counters agree with it.
\<close>

definition file_of_pictures :: "(int \<Rightarrow> nat \<Rightarrow> nat) \<Rightarrow> u8 list list list \<Rightarrow> ChannelWriter \<Rightarrow> bool" where
  "file_of_pictures answer pics w \<longleftrightarrow>
     (\<exists>ps chunks. subseq ps pics \<and> list_all2 prefix chunks (concat ps) \<and> cw_file w = concat chunks
        \<and> (disk_ok answer \<longrightarrow> chunks = concat ps) \<and> cw_frame_count w = word_of_nat (length ps))
   \<and> cw_bytes_written w = word_of_nat (length (cw_file w))"

lemma wrote_file:
  "subseq (map frame_payloads fs) pics \<Longrightarrow> wrote answer fs w \<Longrightarrow> file_of_pictures answer pics w"
  unfolding wrote_def file_of_pictures_def
  by (elim conjE exE, intro conjI exI [of _ "map frame_payloads fs"]) auto

lemma wrote_nothing: "wrote answer [] w \<longleftrightarrow> cw_file w = [] \<and> cw_frame_count w = 0 \<and> cw_bytes_written w = 0"
  by (auto simp: wrote_def)

text \<open>The main thread's side of one stream.\<close>

definition stream_recorded :: "test_world \<Rightarrow> StreamType \<Rightarrow> ChannelWriter \<Rightarrow> bool" where
  "stream_recorded tw t w \<longleftrightarrow> \<not> cw_fp w \<and> file_of_pictures (tw_answer tw t) (test_pictures (tw_acts tw t)) w"

text \<open>The assumptions on the world: the channels have file descriptors, and the driver keeps its contract.\<close>

definition test_ok :: "test_world \<Rightarrow> bool" where
  "test_ok tw \<longleftrightarrow> (\<forall>t. 0 \<le> tw_fd tw t \<and> (\<forall>x \<in> set (tw_acts tw t). test_act_ok x))"

lemma record_stream:
  assumes tw: "test_ok tw" and idle: "idle_dist d" and add: "add_consumer config d = (cid, d')"
    and f: "fetcher_ready f" "ft_running f" and w: "cw_fp w" "wrote (tw_answer tw t) [] w"
    and run: "test_run (tw_answer tw t) (tw_acts tw t) (test_stream_begin (tw_fd tw t) cid f d' w) = Some r"
  shows "\<exists>s. r = Inr s \<and> (ts_phase s = Closed \<longrightarrow>
      stream_recorded tw t (ss_consumers (ts_sys s)) \<and> fetcher_ready (ss_fetcher (ts_sys s))
    \<and> ft_running (ss_fetcher (ts_sys s)) \<and> d_slots (ss_dist (ts_sys s)) = d_slots d)"
proof -
  have fd: "0 \<le> tw_fd tw t" and acts: "\<And>x. x \<in> set (tw_acts tw t) \<Longrightarrow> test_act_ok x"
    using tw by (auto simp: test_ok_def)
  from test_run_keeps [OF test_stream_begin_inv [OF idle add f fd w] acts run] obtain s where
    s: "r = Inr s" "test_inv (fetcher_ids f) (tw_answer tw t) (d_slots d) s"
    "map frame_payloads (ss_fetched (ts_sys s)) = test_pictures (tw_acts tw t)"
    by (auto simp: test_stream_begin_def)
  from test_inv_file [OF s(2,3)] have "file_of_pictures (tw_answer tw t) (test_pictures (tw_acts tw t)) (ss_consumers (ts_sys s))"
    "cw_fp (ss_consumers (ts_sys s)) = (ts_phase s \<noteq> Closed)"
    by (auto intro: wrote_file)
  with s(1,2) show ?thesis
    by (auto simp: stream_recorded_def test_inv_def phase_inv_def stream_inv_def Let_def)
qed

text \<open>The three streams, from the registration to the end of the test.\<close>

definition registered :: "manager \<Rightarrow> manager \<Rightarrow> ChannelWriter \<times> u32 \<Rightarrow> bool" where
  "registered m0 m = (\<lambda>(w, cid).
     cw_fp w \<and> wrote (\<lambda>_ _. 0) [] w
   \<and> (\<exists>f d d'. m_fetchers m (cw_stream_type w) = Some (Some f) \<and> fetcher_ready f \<and> ft_running f
        \<and> m_distributors m0 (cw_stream_type w) = Some (Some d) \<and> idle_dist d
        \<and> m_distributors m (cw_stream_type w) = Some (Some d') \<and> add_consumer default_consumer_config d = (cid, d')))"

definition restored :: "manager \<Rightarrow> manager \<Rightarrow> StreamType \<Rightarrow> bool" where
  "restored m0 m t \<longleftrightarrow>
     (\<exists>f d d'. m_fetchers m t = Some (Some f) \<and> fetcher_ready f \<and> ft_running f
        \<and> m_distributors m0 t = Some (Some d) \<and> m_distributors m t = Some (Some d') \<and> d_slots d' = d_slots d)"

lemma registered_other:
  assumes "list_all (registered m0 m) ws" and "t \<notin> (cw_stream_type \<circ> fst) ` set ws"
  shows "list_all (registered m0 (m\<lparr>m_distributors := (m_distributors m)(t := d), m_fetchers := (m_fetchers m)(t := f)\<rparr>)) ws"
proof -
  have "registered m0 (m\<lparr>m_distributors := (m_distributors m)(t := d), m_fetchers := (m_fetchers m)(t := f)\<rparr>) y"
    if y: "y \<in> set ws" for y
  proof -
    have "cw_stream_type (fst y) \<noteq> t" using assms(2) y by force
    moreover have "registered m0 m y" using assms(1) y by (simp add: list_all_iff)
    ultimately show ?thesis by (simp add: registered_def case_prod_unfold)
  qed
  then show ?thesis by (simp add: list_all_iff)
qed

lemma record_streams_keeps:
  assumes tw: "test_ok tw"
  shows "list_all (registered m0 m) ws \<Longrightarrow> distinct (map (cw_stream_type \<circ> fst) ws) \<Longrightarrow>
     record_streams tw ws m = Some r \<Longrightarrow>
     \<exists>ws' m'. r = Inr (ws', m') \<and> list_all2 (\<lambda>(w, _). stream_recorded tw (cw_stream_type w)) ws ws'
       \<and> (\<forall>t. if t \<in> (cw_stream_type \<circ> fst) ` set ws then restored m0 m' t
              else m_fetchers m' t = m_fetchers m t \<and> m_distributors m' t = m_distributors m t)"
proof (induction ws arbitrary: m r)
  case (Cons x ws)
  obtain w cid where x: "x = (w, cid)" by (cases x)
  let ?t = "cw_stream_type w"
  from Cons.prems(1) x obtain f d d' where reg: "m_fetchers m ?t = Some (Some f)" "fetcher_ready f" "ft_running f"
    "m_distributors m0 ?t = Some (Some d)" "idle_dist d" "m_distributors m ?t = Some (Some d')"
    "add_consumer default_consumer_config d = (cid, d')" and w: "cw_fp w" "wrote (tw_answer tw ?t) [] w"
    by (auto simp: registered_def wrote_nothing)
  let ?run = "test_run (tw_answer tw ?t) (tw_acts tw ?t) (test_stream_begin (tw_fd tw ?t) cid f d' w)"
  from Cons.prems(3) reg(1,6) x obtain r1 where r1: "?run = Some r1"
    by (cases ?run) (simp_all add: Let_def)
  from record_stream [OF tw reg(5,7,2,3) w r1] obtain s where s: "r1 = Inr s"
    "ts_phase s = Closed \<longrightarrow> stream_recorded tw ?t (ss_consumers (ts_sys s)) \<and> fetcher_ready (ss_fetcher (ts_sys s))
      \<and> ft_running (ss_fetcher (ts_sys s)) \<and> d_slots (ss_dist (ts_sys s)) = d_slots d"
    by blast
  let ?m = "m\<lparr>m_distributors := (m_distributors m)(?t \<mapsto> Some (ss_dist (ts_sys s))),
      m_fetchers := (m_fetchers m)(?t \<mapsto> Some (ss_fetcher (ts_sys s)))\<rparr>"
  from Cons.prems(3) reg(1,6) x r1 s(1) obtain r2 where closed: "ts_phase s = Closed" and
    r2: "record_streams tw ws ?m = Some r2" "r = map_sum id (map_prod (Cons (ss_consumers (ts_sys s))) id) r2"
    by (auto simp: Let_def split: if_splits)
  have fresh: "?t \<notin> (cw_stream_type \<circ> fst) ` set ws" using Cons.prems(2) x by auto
  have "list_all (registered m0 ?m) ws" by (rule registered_other) (use Cons.prems(1) fresh in simp_all)
  from Cons.IH [OF this _ r2(1)] Cons.prems(2) obtain ws' m' where IH: "r2 = Inr (ws', m')"
    "list_all2 (\<lambda>(w, _). stream_recorded tw (cw_stream_type w)) ws ws'"
    "\<And>t. if t \<in> (cw_stream_type \<circ> fst) ` set ws then restored m0 m' t
        else m_fetchers m' t = m_fetchers ?m t \<and> m_distributors m' t = m_distributors ?m t" by auto
  have "restored m0 m' ?t" using IH(3) [of ?t] fresh s(2) closed reg(4) by (auto simp: restored_def)
  moreover have "if t \<in> (cw_stream_type \<circ> fst) ` set ws then restored m0 m' t
      else m_fetchers m' t = m_fetchers m t \<and> m_distributors m' t = m_distributors m t" if "t \<noteq> ?t" for t
    using IH(3) [of t] that by simp
  ultimately have "if t \<in> (cw_stream_type \<circ> fst) ` set (x # ws) then restored m0 m' t
      else m_fetchers m' t = m_fetchers m t \<and> m_distributors m' t = m_distributors m t" for t
    by (cases "t = ?t") (simp_all add: x)
  with IH(1,2) r2(2) s(2) closed show ?case
    by (intro exI [of _ "ss_consumers (ts_sys s) # ws'"] exI [of _ m']) (simp add: x)
qed auto

section \<open>Opening and registering\<close>

lemma open_writers_all:
  "fst (open_writers fopen ws) = list_all (fopen \<circ> cw_path) ws"
  "fst (open_writers fopen ws) \<Longrightarrow> snd (open_writers fopen ws) = map (\<lambda>w. w\<lparr>cw_fp := True, cw_file := []\<rparr>) ws"
  by (induction ws) (auto simp: cw_open_def Let_def split: prod.splits)

text \<open>The consumer of a writer has been added to an idle distributor.\<close>

definition consumer_added :: "manager \<Rightarrow> manager \<Rightarrow> ChannelWriter \<times> u32 \<Rightarrow> bool" where
  "consumer_added m0 m = (\<lambda>(w, cid). \<exists>d d'. m_distributors m0 (cw_stream_type w) = Some (Some d) \<and> idle_dist d
     \<and> m_distributors m (cw_stream_type w) = Some (Some d') \<and> add_consumer default_consumer_config d = (cid, d'))"

lemma register_writers_added:
  "register_writers ws m = (cids, m') \<Longrightarrow> distinct (map cw_stream_type ws) \<Longrightarrow>
   (\<And>w. w \<in> set ws \<Longrightarrow> \<exists>d. m_distributors m (cw_stream_type w) = Some (Some d) \<and> idle_dist d) \<Longrightarrow>
     length cids = length ws \<and> m_fetchers m' = m_fetchers m \<and> list_all (consumer_added m m') (zip ws cids)
   \<and> (\<forall>t. t \<notin> cw_stream_type ` set ws \<longrightarrow> m_distributors m' t = m_distributors m t)"
proof (induction ws arbitrary: m cids m')
  case (Cons w ws)
  let ?t = "cw_stream_type w"
  from Cons.prems(3) obtain d where d: "m_distributors m ?t = Some (Some d)" "idle_dist d" by auto
  obtain cid d' where d': "add_consumer default_consumer_config d = (cid, d')" by fastforce
  let ?m = "m\<lparr>m_distributors := (m_distributors m)(?t \<mapsto> Some d')\<rparr>"
  obtain cids' where cids': "register_writers ws ?m = (cids', m')" "cids = cid # cids'"
    using Cons.prems(1) d d' by (auto simp: register_consumer_def Let_def split: prod.splits)
  have fresh: "?t \<notin> cw_stream_type ` set ws" using Cons.prems(2) by simp
  have "\<exists>d. m_distributors ?m (cw_stream_type v) = Some (Some d) \<and> idle_dist d" if "v \<in> set ws" for v
  proof -
    have "cw_stream_type v \<noteq> ?t" using fresh that by (metis imageI)
    with Cons.prems(3) [of v] that show ?thesis by simp
  qed
  from Cons.IH [OF cids'(1) _ this] Cons.prems(2) have IH: "length cids' = length ws" "m_fetchers m' = m_fetchers m"
    "list_all (consumer_added ?m m') (zip ws cids')"
    "\<And>t. t \<notin> cw_stream_type ` set ws \<Longrightarrow> m_distributors m' t = m_distributors ?m t" by simp_all
  have "consumer_added m m' y" if y: "y \<in> set (zip ws cids')" for y
  proof -
    have "fst y \<in> set ws" using y by (metis prod.collapse set_zip_leftD)
    then have "cw_stream_type (fst y) \<noteq> ?t" using fresh by (metis imageI)
    moreover have "consumer_added ?m m' y" using IH(3) y by (simp add: list_all_iff)
    ultimately show ?thesis by (simp add: consumer_added_def case_prod_unfold)
  qed
  moreover have "consumer_added m m' (w, cid)" using d d' IH(4) [OF fresh] by (simp add: consumer_added_def)
  moreover have "m_distributors m' t = m_distributors m t" if "t \<notin> cw_stream_type ` set (w # ws)" for t
    using IH(4) [of t] that by auto
  ultimately show ?case using IH(1,2) cids'(2) by (simp add: list_all_iff)
qed simp

lemma idle_new: "idle_dist (new_distributor chn)"
  using dist_init [of chn] by (simp add: idle_dist_def) (simp add: new_distributor_def)

lemma idle_add_new: "idle_dist (snd (add_consumer config (new_distributor chn)))" (is "idle_dist ?d")
proof -
  have "length (d_heap ?d) = 1" by (simp add: add_consumer_def new_distributor_def Let_def)
  then have "length (d_heap ?d) < 2 ^ 31" by simp
  with idle_dist_add [OF idle_new [of chn] surjective_pairing, where config = config] show ?thesis
    unfolding idle_dist_def by blast
qed

definition video_streams :: "StreamType set" where
  "video_streams = {VIDEO_MAIN, VIDEO_SUB, VIDEO_MJPEG}"

lemma idle_manager:
  "t \<in> video_streams \<Longrightarrow> \<exists>d. m_distributors (streaming_manager pf) t = Some (Some d) \<and> idle_dist d"
  by (auto simp: video_streams_def streaming_manager_def distributors_set idle_new idle_add_new)

lemma types_of_writers:
  "distinct (map cw_stream_type test_writers)" "cw_stream_type ` set test_writers = video_streams"
  by (auto simp: test_writers_def new_ChannelWriter_def video_streams_def)

section \<open>The test as a whole\<close>

abbreviation opened_writers :: "ChannelWriter list" where
  "opened_writers \<equiv> map (\<lambda>w. w\<lparr>cw_fp := True, cw_file := []\<rparr>) test_writers"

text \<open>When the files can be opened, the three consumers are registered and the three fetchers started.\<close>

lemma stream_test_opened:
  assumes opens: "list_all (tw_fopen tw \<circ> cw_path) test_writers" and m: "m = streaming_manager pf"
  obtains cids m2 where "length cids = length opened_writers"
    "\<forall>e e' es. stream_test tw (e # e' # es) m
       = map_option (map_sum id (\<lambda>(ws, m). (ws, m, es))) (record_streams tw (zip opened_writers cids) m2)"
    "\<forall>es. length es < 2 \<longrightarrow> stream_test tw es m = None"
    "list_all (registered m m2) (zip opened_writers cids)" "dom (m_fetchers m2) = video_streams"
    "\<forall>t. t \<notin> video_streams \<longrightarrow> m_distributors m2 t = m_distributors m t"
proof -
  let ?ws = opened_writers
  have opened: "open_writers (tw_fopen tw) test_writers = (True, ?ws)"
    using open_writers_all [of "tw_fopen tw" test_writers] opens by (simp add: prod_eq_iff)
  have types: "distinct (map cw_stream_type ?ws)" "cw_stream_type ` set ?ws = video_streams"
    using types_of_writers by (simp_all add: image_image o_def)
  obtain cids m1 where reg: "register_writers ?ws m = (cids, m1)" by fastforce
  have "\<exists>d. m_distributors m (cw_stream_type w) = Some (Some d) \<and> idle_dist d" if "w \<in> set ?ws" for w
    using types(2) that idle_manager [of _ pf] unfolding m by blast
  from register_writers_added [OF reg types(1) this] have added: "length cids = length ?ws" "m_fetchers m1 = m_fetchers m"
    "list_all (consumer_added m m1) (zip ?ws cids)"
    "\<And>t. t \<notin> video_streams \<Longrightarrow> m_distributors m1 t = m_distributors m t" using types(2) by auto
  have fetchers: "m_fetchers m1 = main_fetchers pf" using added(2) m streaming_manager_fields(1) by metis
  have "fetchers_all fetcher_ready m1" using main_fetchers_ready [OF fetchers] unfolding fetchers_all_def by blast
  from fetcher.start_all_ready [OF this] obtain m2 where m2: "start_all fetcher_start m1 = Inr m2"
    "m_distributors m2 = m_distributors m1" "dom (m_fetchers m2) = dom (m_fetchers m1)"
    "fetchers_all (\<lambda>f. fetcher_ready f \<and> ft_running f) m2" by blast
  have dom: "dom (m_fetchers m2) = video_streams"
    unfolding m2(3) fetchers by (auto simp: main_fetchers_def video_streams_def)
  have "registered m m2 y" if y: "y \<in> set (zip ?ws cids)" for y
  proof -
    have w: "fst y \<in> set ?ws" using y by (metis prod.collapse set_zip_leftD)
    then have "cw_fp (fst y) \<and> wrote (\<lambda>_ _. 0) [] (fst y)"
      by (auto simp: wrote_nothing test_writers_def new_ChannelWriter_def)
    moreover have "cw_stream_type (fst y) \<in> dom (m_fetchers m2)" unfolding dom using types(2) w by blast
    then have "\<exists>f. m_fetchers m2 (cw_stream_type (fst y)) = Some (Some f) \<and> fetcher_ready f \<and> ft_running f"
      using m2(4) unfolding fetchers_all_def by blast
    moreover have "consumer_added m m2 y" using added(3) y m2(2) by (simp add: list_all_iff consumer_added_def)
    ultimately show ?thesis by (auto simp: registered_def consumer_added_def case_prod_unfold)
  qed
  then have "list_all (registered m m2) (zip ?ws cids)" by (simp add: list_all_iff)
  moreover have "stream_test tw es m = None" if "length es < 2" for es
    using that opened reg m2(1) by (cases es; cases "tl es") (auto simp: stream_test_def)
  moreover have "stream_test tw (e # e' # es) m
      = map_option (map_sum id (\<lambda>(ws, m). (ws, m, es))) (record_streams tw (zip ?ws cids) m2)" for e e' es
    using opened reg m2(1) by (simp add: stream_test_def)
  ultimately show thesis using dom added(1,4) m2(2) by (intro that [of cids m2]) simp_all
qed

lemma opened_types:
  assumes "length cids = length opened_writers"
  shows "distinct (map (cw_stream_type \<circ> fst) (zip opened_writers cids))"
    and "(cw_stream_type \<circ> fst) ` set (zip opened_writers cids) = video_streams"
    and "list_all2 (\<lambda>(w, _). P (cw_stream_type w)) (zip opened_writers cids) ws' =
      list_all2 (\<lambda>w. P (cw_stream_type w)) test_writers ws'"
proof -
  have zip: "map fst (zip opened_writers cids) = opened_writers" using assms by simp
  have types: "distinct (map cw_stream_type opened_writers)" "cw_stream_type ` set opened_writers = video_streams"
    using types_of_writers by (simp_all add: image_image o_def)
  from types(1) zip show "distinct (map (cw_stream_type \<circ> fst) (zip opened_writers cids))" by (metis map_map)
  from types(2) zip show "(cw_stream_type \<circ> fst) ` set (zip opened_writers cids) = video_streams"
    by (metis image_comp list.set_map)
  have "list_all2 (\<lambda>(w, _). P (cw_stream_type w)) (zip opened_writers cids) ws' =
      list_all2 (\<lambda>w. P (cw_stream_type w)) (map fst (zip opened_writers cids)) ws'"
    by (simp only: list_all2_map1 case_prod_unfold)
  then show "list_all2 (\<lambda>(w, _). P (cw_stream_type w)) (zip opened_writers cids) ws' =
      list_all2 (\<lambda>w. P (cw_stream_type w)) test_writers ws'"
    unfolding zip by (simp add: list_all2_map1)
qed

lemma stream_test_cases:
  assumes tw: "test_ok tw" and m: "m = streaming_manager pf" and run: "stream_test tw es m = Some r"
  obtains
    (not_opened) e es' ws where "es = e # es'" "\<not> list_all (tw_fopen tw \<circ> cw_path) test_writers"
      "r = Inr (ws, m, es')" "list_all (\<lambda>w. \<not> cw_fp w) ws"
  | (recorded) e e' es' ws m' where "es = e # e' # es'" "list_all (tw_fopen tw \<circ> cw_path) test_writers"
      "r = Inr (ws, m', es')" "list_all2 (\<lambda>w. stream_recorded tw (cw_stream_type w)) test_writers ws"
      "\<And>t. t \<in> video_streams \<Longrightarrow> restored m m' t" "dom (m_fetchers m') = video_streams"
      "\<And>t. t \<notin> video_streams \<Longrightarrow> m_distributors m' t = m_distributors m t"
proof (cases "list_all (tw_fopen tw \<circ> cw_path) test_writers")
  case False
  obtain e es' where es: "es = e # es'" using run by (cases es) (simp_all add: stream_test_def)
  let ?ws = "map cw_close (snd (open_writers (tw_fopen tw) test_writers))"
  have "\<not> fst (open_writers (tw_fopen tw) test_writers)" using False open_writers_all(1) by metis
  then have "r = Inr (?ws, m, es')"
    using run es by (simp add: stream_test_def case_prod_unfold)
  moreover have "list_all (\<lambda>w. \<not> cw_fp w) ?ws" by (auto simp: list_all_iff cw_close_def)
  ultimately show thesis using not_opened es False by blast
next
  case True
  obtain cids m2 where len: "length cids = length opened_writers" and
    eq: "\<forall>e e' es. stream_test tw (e # e' # es) m
       = map_option (map_sum id (\<lambda>(ws, m). (ws, m, es))) (record_streams tw (zip opened_writers cids) m2)"
    "\<forall>es. length es < 2 \<longrightarrow> stream_test tw es m = None" and
    all: "list_all (registered m m2) (zip opened_writers cids)" and
    m2: "dom (m_fetchers m2) = video_streams" "\<forall>t. t \<notin> video_streams \<longrightarrow> m_distributors m2 t = m_distributors m t"
    by (rule stream_test_opened [OF True m])
  have "\<not> length es < 2" using eq(2) run by auto
  then obtain e e' es' where es: "es = e # e' # es'" by (cases es; cases "tl es") auto
  with eq(1) run obtain r1 where r1: "record_streams tw (zip opened_writers cids) m2 = Some r1"
    "r = map_sum id (\<lambda>(ws, m). (ws, m, es')) r1" by auto
  from record_streams_keeps [OF tw all opened_types(1) [OF len] r1(1)]
  obtain ws' m' where ws': "r1 = Inr (ws', m')"
    "list_all2 (\<lambda>w. stream_recorded tw (cw_stream_type w)) test_writers ws'"
    "\<And>t. if t \<in> video_streams then restored m m' t
        else m_fetchers m' t = m_fetchers m2 t \<and> m_distributors m' t = m_distributors m2 t"
    unfolding opened_types(2) [OF len] opened_types(3) [OF len, of "stream_recorded tw"] by blast
  have "t \<in> dom (m_fetchers m') \<longleftrightarrow> t \<in> video_streams" for t
    using ws'(3) [of t] m2(1) by (cases "t \<in> video_streams") (auto simp: restored_def domIff)
  then have "dom (m_fetchers m') = video_streams" by blast
  moreover have "restored m m' t" if "t \<in> video_streams" for t using ws'(3) [of t] that by simp
  moreover have "m_distributors m' t = m_distributors m t" if "t \<notin> video_streams" for t
    using ws'(3) [of t] that m2(2) by simp
  ultimately show thesis using recorded es True r1(2) ws'(1,2) by simp
qed

section \<open>A test that ends\<close>

text \<open>
  What the threads do takes the main thread to the end on every stream, and establishes \<open>Q\<close>.
\<close>

definition acts_end :: "test_world \<Rightarrow> (StreamType \<Rightarrow> test_stream \<Rightarrow> bool) \<Rightarrow> manager \<Rightarrow> bool" where
  "acts_end tw Q m0 \<longleftrightarrow>
     (\<forall>t d cid d' f w. m_distributors m0 t = Some (Some d) \<longrightarrow> idle_dist d \<longrightarrow> t \<in> video_streams \<longrightarrow>
        add_consumer default_consumer_config d = (cid, d') \<longrightarrow> ft_running f \<longrightarrow> fetcher_ready f \<longrightarrow>
        cw_fp w \<longrightarrow> wrote (tw_answer tw t) [] w \<longrightarrow>
        (\<exists>s. test_run (tw_answer tw t) (tw_acts tw t) (test_stream_begin (tw_fd tw t) cid f d' w) = Some (Inr s)
           \<and> ts_phase s = Closed \<and> Q t s))"

lemma record_streams_ends:
  assumes acts: "acts_end tw Q m0"
  shows "list_all (registered m0 m) ws \<Longrightarrow> distinct (map (cw_stream_type \<circ> fst) ws) \<Longrightarrow>
     (cw_stream_type \<circ> fst) ` set ws \<subseteq> video_streams \<Longrightarrow>
     \<exists>ws' m'. record_streams tw ws m = Some (Inr (ws', m'))
       \<and> list_all2 (\<lambda>(w, _) w'. \<exists>s. Q (cw_stream_type w) s \<and> w' = ss_consumers (ts_sys s)) ws ws'
       \<and> (\<forall>t. if t \<in> (cw_stream_type \<circ> fst) ` set ws
              then \<exists>s. Q t s \<and> m_distributors m' t = Some (Some (ss_dist (ts_sys s)))
              else m_distributors m' t = m_distributors m t)"
proof (induction ws arbitrary: m)
  case (Cons x ws)
  obtain w cid where x: "x = (w, cid)" by (cases x)
  let ?t = "cw_stream_type w"
  from Cons.prems(1) x obtain f d d' where reg: "m_fetchers m ?t = Some (Some f)" "fetcher_ready f" "ft_running f"
    "m_distributors m0 ?t = Some (Some d)" "idle_dist d" "m_distributors m ?t = Some (Some d')"
    "add_consumer default_consumer_config d = (cid, d')" and w: "cw_fp w" "wrote (tw_answer tw ?t) [] w"
    by (auto simp: registered_def wrote_nothing)
  moreover have "?t \<in> video_streams" using Cons.prems(3) x by simp
  ultimately obtain s where s: "test_run (tw_answer tw ?t) (tw_acts tw ?t) (test_stream_begin (tw_fd tw ?t) cid f d' w)
      = Some (Inr s)" "ts_phase s = Closed" "Q ?t s"
    using acts unfolding acts_end_def by blast
  let ?m = "m\<lparr>m_distributors := (m_distributors m)(?t \<mapsto> Some (ss_dist (ts_sys s))),
      m_fetchers := (m_fetchers m)(?t \<mapsto> Some (ss_fetcher (ts_sys s)))\<rparr>"
  have fresh: "?t \<notin> (cw_stream_type \<circ> fst) ` set ws" using Cons.prems(2) x by auto
  have "list_all (registered m0 ?m) ws" by (rule registered_other) (use Cons.prems(1) fresh in simp_all)
  from Cons.IH [OF this] Cons.prems(2,3) obtain ws' m' where IH: "record_streams tw ws ?m = Some (Inr (ws', m'))"
    "list_all2 (\<lambda>(w, _) w'. \<exists>s. Q (cw_stream_type w) s \<and> w' = ss_consumers (ts_sys s)) ws ws'"
    "\<And>t. if t \<in> (cw_stream_type \<circ> fst) ` set ws
        then \<exists>s. Q t s \<and> m_distributors m' t = Some (Some (ss_dist (ts_sys s)))
        else m_distributors m' t = m_distributors ?m t" by auto
  have "if t \<in> (cw_stream_type \<circ> fst) ` set (x # ws)
      then \<exists>s. Q t s \<and> m_distributors m' t = Some (Some (ss_dist (ts_sys s)))
      else m_distributors m' t = m_distributors m t" for t
    using IH(3) [of t] fresh s(3) x by (cases "t = ?t") auto
  moreover have "record_streams tw (x # ws) m = Some (Inr (ss_consumers (ts_sys s) # ws', m'))"
    using x reg(1,6) s(1,2) IH(1) by (simp add: Let_def)
  ultimately show ?case using IH(2) s(3) x by (intro exI [of _ "ss_consumers (ts_sys s) # ws'"] exI [of _ m']) auto
qed simp

lemma stream_test_ends:
  assumes m: "m = streaming_manager pf" and opens: "list_all (tw_fopen tw \<circ> cw_path) test_writers"
    and acts: "acts_end tw Q m"
  obtains ws m' where "\<forall>e e' es. stream_test tw (e # e' # es) m = Some (Inr (ws, m', es))"
    "list_all2 (\<lambda>w w'. \<exists>s. Q (cw_stream_type w) s \<and> w' = ss_consumers (ts_sys s)) test_writers ws"
    "\<forall>t. if t \<in> video_streams then \<exists>s. Q t s \<and> m_distributors m' t = Some (Some (ss_dist (ts_sys s)))
         else m_distributors m' t = m_distributors m t"
proof -
  obtain cids m2 where len: "length cids = length opened_writers" and
    eq: "\<forall>e e' es. stream_test tw (e # e' # es) m
       = map_option (map_sum id (\<lambda>(ws, m). (ws, m, es))) (record_streams tw (zip opened_writers cids) m2)" and
    all: "list_all (registered m m2) (zip opened_writers cids)" and
    m2: "\<forall>t. t \<notin> video_streams \<longrightarrow> m_distributors m2 t = m_distributors m t"
    by (rule stream_test_opened [OF opens m])
  have types: "(cw_stream_type \<circ> fst) ` set (zip opened_writers cids) \<subseteq> video_streams"
    using opened_types(2) [OF len] by simp
  from record_streams_ends [OF acts all opened_types(1) [OF len] types] obtain ws m' where
    "record_streams tw (zip opened_writers cids) m2 = Some (Inr (ws, m'))"
    "list_all2 (\<lambda>w w'. \<exists>s. Q (cw_stream_type w) s \<and> w' = ss_consumers (ts_sys s)) test_writers ws"
    "\<forall>t. if t \<in> video_streams then \<exists>s. Q t s \<and> m_distributors m' t = Some (Some (ss_dist (ts_sys s)))
         else m_distributors m' t = m_distributors m2 t"
    unfolding opened_types(2) [OF len]
      opened_types(3) [OF len, of "\<lambda>t w'. \<exists>s. Q t s \<and> w' = ss_consumers (ts_sys s)"]
    by blast
  with eq m2 show thesis by (intro that [of ws m']) auto
qed

text \<open>The quick schedule on a stream whose writer has a fresh slot.\<close>

lemma quick_stream:
  assumes idle: "idle_dist d" and add: "add_consumer config d = (cid, d')" and "0 \<le> fd"
  shows "test_run answer (quick_test (length (d_heap d))) (test_stream_begin fd cid f d' c)
    = Some (Inr \<lparr>ts_sys = \<lparr>ss_fetcher = run_begin fd f, ss_dist = ended d', ss_consumers = cw_close c, ss_fetched = [],
        ss_calls = []\<rparr>, ts_slot = length (d_heap d), ts_cid = cid, ts_phase = Closed\<rparr>)"
proof -
  note d' = idle_dist_add [OF idle add]
  have "ids_ok d'" "addrs_ok d'" using dist_reachable_inv [OF d'(1)] by (simp_all add: dist_inv_def)
  moreover have "last (d_slots d') = length (d_heap d)" "d_heap d' = d_heap d @ [fresh_slot config cid]"
    using add by (auto simp: add_consumer_def fresh_slot_def Let_def)
  ultimately show ?thesis
    using d'(4,6,7,8) unfolding test_stream_begin_def
    by (simp add: quick_test_run [where heap = "d_heap d" and sl = "fresh_slot config cid" and slots = "d_slots d"]
        fresh_slot_def)
qed

lemma setup_slots:
  "m_distributors (streaming_manager pf) t = Some (Some d) \<Longrightarrow>
     length (d_heap d) = (if streaming pf \<and> t \<in> {VIDEO_MAIN, VIDEO_SUB} then 1 else 0)"
  by (auto simp: streaming_manager_def distributors_set add_consumer_def new_distributor_def Let_def split: if_splits)

text \<open>A world in which the fetcher of the MJPEG stream gets one picture.\<close>

definition demo_world :: test_world where
  "demo_world =
     \<lparr>tw_fopen = (\<lambda>_. True), tw_fd = (\<lambda>_. 3), tw_answer = (\<lambda>_ _ _. 2 ^ 32),
      tw_acts = (\<lambda>t. if t = VIDEO_MJPEG then map Thread demo_picture @ quick_test 0 else quick_test 1)\<rparr>"

lemma demo_world_ok: "test_ok demo_world"
proof -
  have "act_ok x" if "x \<in> set demo_picture" for x :: "unit sys_action"
    using demo_acts_ok [of x "[]" "[]"] that by (simp add: demo_acts_def)
  then show ?thesis by (auto simp: test_ok_def demo_world_def quick_test_ok)
qed

lemma demo_stream:
  assumes d: "d = \<lparr>d_channel = CHN2, d_heap = [fresh_slot cfg3 0], d_slots = [0], d_next_consumer_id = 1,
      d_push = Map.empty, d_shut = Map.empty\<rparr>"
    and f: "ft_running f" "fetcher_ready f" and w: "cw_fp w" "wrote answer [] w" and answer: "disk_ok answer"
  shows "\<exists>s. test_run answer (map Thread demo_picture @ quick_test 0) (test_stream_begin 3 0 f d w) = Some (Inr s)
    \<and> ts_phase s = Closed \<and> cw_file (ss_consumers (ts_sys s)) = [0, 0, 1, 0x65]"
proof -
  let ?f = "run_begin 3 f"
  let ?y = "\<lparr>ss_fetcher = ?f, ss_dist = d, ss_consumers = w, ss_fetched = [], ss_calls = []\<rparr>"
  have threads: "list_all test_thread demo_picture" by (simp add: demo_picture_def)
  have "ft_running ?f" "fetcher_ready ?f" using f by (simp_all add: run_begin_def fetcher_ready_def)
  then obtain sf f' where sf: "good_frame sf" "frame_payloads sf = [[0, 0, 1, 0x65]]" and
    run: "sys_run (writer_cb 0 answer) no_thread demo_picture ?y
       = (case writer_cb 0 answer 0 0 sf w of
            None \<Rightarrow> None
          | Some (Inl e) \<Rightarrow> Some (Inl e)
          | Some (Inr (threw, c')) \<Rightarrow> Some (Inr \<lparr>ss_fetcher = f', ss_dist = d\<lparr>d_heap := [(fresh_slot cfg3 0)
               \<lparr>sl_pushed := [sf], sl_taken := [sf],
                 sl_failed := if threw then 1 else 0, sl_consumed := if threw then 0 else 1\<rparr>]\<rparr>,
               ss_consumers = c', ss_fetched = [sf], ss_calls = [(0, sf)]\<rparr>))"
    by (rule demo_picture_run [where d = d]) (simp_all add: d)
  from wrote_callback [OF w(2,1) sf(1), of 0] obtain c where c: "frame_writer_cb (answer 0) sf w = Inr c"
    "wrote answer [sf] c" by auto
  let ?sl = "(fresh_slot cfg3 0)\<lparr>sl_pushed := [sf], sl_taken := [sf], sl_failed := 0, sl_consumed := 1\<rparr>"
  let ?d = "d\<lparr>d_heap := [?sl]\<rparr>"
  have "test_run answer (map Thread demo_picture) (test_stream_begin 3 0 f d w)
      = Some (Inr \<lparr>ts_sys = \<lparr>ss_fetcher = f', ss_dist = ?d, ss_consumers = c, ss_fetched = [sf], ss_calls = [(0, sf)]\<rparr>,
          ts_slot = 0, ts_cid = 0, ts_phase = Recording\<rparr>)"
    using run c(1) d by (simp add: test_run_threads [OF threads] test_stream_begin_def writer_cb_def)
  moreover have "ids_ok ?d" "addrs_ok ?d" by (simp_all add: d ids_ok_def addrs_ok_def fresh_slot_def)
  moreover have "cw_file (cw_close c) = [0, 0, 1, 0x65]"
    using c(2) answer sf(2) by (auto simp: wrote_def cw_close_def)
  ultimately show ?thesis
    by (simp add: test_run_append quick_test_run [where heap = "[]" and sl = ?sl and slots = "[]"] d fresh_slot_def)
qed

lemma demo_world_pictures: "test_pictures (tw_acts demo_world VIDEO_MJPEG) = [[[0, 0, 1, 0x65]]]"
proof -
  have acts: "concat (map thread_act (map Thread xs)) = xs" for xs by (induction xs) simp_all
  have "pictures (as @ bs) = pictures as @ pictures bs" for as bs :: "unit sys_action list"
    by (induction as) simp_all
  moreover have "pictures (demo_picture :: unit sys_action list) = [[[0, 0, 1, 0x65]]]"
    using demo_pictures [of "[] :: unit list" "[]"] by (simp add: demo_acts_def)
  ultimately show ?thesis
    by (simp add: test_pictures_def demo_world_def acts del: map_map) (simp add: quick_test_def)
qed

lemma willing_streaming: "streaming willing_platform"
  by (simp add: streaming_def willing_platform_def)

lemma demo_world_ends:
  "acts_end demo_world (\<lambda>t s. t = VIDEO_MJPEG \<longrightarrow> cw_file (ss_consumers (ts_sys s)) = [0, 0, 1, 0x65])
     (streaming_manager willing_platform)"
  unfolding acts_end_def
proof (intro allI impI)
  fix t cid f w and d d' :: "StreamFrame dist"
  assume d: "m_distributors (streaming_manager willing_platform) t = Some (Some d)" "idle_dist d" "t \<in> video_streams"
    "add_consumer default_consumer_config d = (cid, d')" and f: "ft_running f" "fetcher_ready f"
    and w: "cw_fp w" "wrote (tw_answer demo_world t) [] w"
  show "\<exists>s. test_run (tw_answer demo_world t) (tw_acts demo_world t) (test_stream_begin (tw_fd demo_world t) cid f d' w)
        = Some (Inr s) \<and> ts_phase s = Closed
      \<and> (t = VIDEO_MJPEG \<longrightarrow> cw_file (ss_consumers (ts_sys s)) = [0, 0, 1, 0x65])"
  proof (cases "t = VIDEO_MJPEG")
    case True
    with d(1,4) have "d' = \<lparr>d_channel = CHN2, d_heap = [fresh_slot cfg3 0], d_slots = [0], d_next_consumer_id = 1,
        d_push = Map.empty, d_shut = Map.empty\<rparr>" "cid = 0"
      by (auto simp: streaming_manager_def distributors_set willing_streaming new_distributor_def add_consumer_def
          default_consumer_config_def cfg3_def fresh_slot_def Let_def)
    moreover have "disk_ok (tw_answer demo_world t)" by (simp add: disk_ok_def demo_world_def)
    ultimately show ?thesis using demo_stream [of d' f w "tw_answer demo_world t"] f w True by (simp add: demo_world_def)
  next
    case False
    have "0 \<le> tw_fd demo_world t" by (simp add: demo_world_def)
    from quick_stream [OF d(2,4) this] setup_slots [OF d(1)] False d(3) willing_streaming show ?thesis
      by (auto simp: demo_world_def video_streams_def)
  qed
qed

section \<open>Properties\<close>

lemma restored_consumers: "restored m0 m t \<Longrightarrow> consumers m t = consumers m0 t"
  by (auto simp: restored_def consumers_def)

text \<open>
  C19: the stream test, from the state that the set-up leaves, with a driver that keeps its contract: no
  interleaving of fetchers, workers and the main thread is undefined - in particular no callback runs on
  a file that is closed - and it ends in one of two ways.  If the three files can be opened, each ends
  closed with the payloads of some of its stream's pictures, in the encoder's order, cut only where the disk
  refused bytes, and counters that agree; the fetchers run on, and every stream has the consumers it had
  before.  Otherwise nothing is registered or started, and no file stays open.
\<close>

theorem stream_test_records:
  fixes e :: "(StreamFrame, 'fs) eye"
  assumes tw: "test_ok tw" and begins: "main_setup pf (new_eye fs) = Inr e"
    and run: "stream_test tw es (ey_manager e) = Some r"
  shows "\<exists>ws m es'. r = Inr (ws, m, es') \<and> list_all (\<lambda>w. \<not> cw_fp w) ws
    \<and> (if list_all (tw_fopen tw \<circ> cw_path) test_writers
       then list_all2 (\<lambda>w. file_of_pictures (tw_answer tw (cw_stream_type w)) (test_pictures (tw_acts tw (cw_stream_type w))))
              test_writers ws
          \<and> dom (m_fetchers m) = video_streams \<and> fetchers_all ft_running m
          \<and> (\<forall>t. consumers m t = consumers (ey_manager e) t)
       else m = ey_manager e \<and> fetchers_all (\<lambda>f. \<not> ft_running f) m)"
  using tw main_setup_state(1) [OF begins] run
proof (cases rule: stream_test_cases)
  case (not_opened e0 es' ws)
  have "m_fetchers (ey_manager e) = main_fetchers pf"
    using main_setup_state(1) [OF begins] streaming_manager_fields(1) by metis
  from main_fetchers_ready [OF this] have "fetchers_all (\<lambda>f. \<not> ft_running f) (ey_manager e)"
    unfolding fetchers_all_def by blast
  with not_opened show ?thesis by simp
next
  case (recorded e0 e1 es' ws m')
  have closed: "list_all (\<lambda>w. \<not> cw_fp w) ws"
    using recorded(4) by (auto simp: list_all2_conv_all_nth list_all_length stream_recorded_def)
  have files: "list_all2 (\<lambda>w. file_of_pictures (tw_answer tw (cw_stream_type w))
      (test_pictures (tw_acts tw (cw_stream_type w)))) test_writers ws"
    using recorded(4) by (rule list_all2_mono) (simp add: stream_recorded_def)
  have "fetchers_all ft_running m'"
    using recorded(5,6) unfolding fetchers_all_def restored_def by (metis domI option.inject)
  moreover have "consumers m' t = consumers (ey_manager e) t" for t
    using recorded(5,7) restored_consumers [of "ey_manager e" m' t]
    by (cases "t \<in> video_streams") (auto simp: consumers_def)
  ultimately show ?thesis using recorded(2,3,6) closed files by simp
qed


theorem stream_test_records_witness:
  "\<exists>(e :: (StreamFrame, unit) eye) w0 w1 w2 m. main_setup willing_platform (new_eye ()) = Inr e
     \<and> stream_test demo_world [Elapsed, Signal 2] (ey_manager e) = Some (Inr ([w0, w1, w2], m, []))
     \<and> cw_file w2 = [0, 0, 1, 0x65] \<and> file_of_pictures (\<lambda>_ _. 2 ^ 32) [[[0, 0, 1, 0x65]]] w2
     \<and> fetchers_all ft_running m \<and> consumers m VIDEO_SUB = consumers (ey_manager e) VIDEO_SUB"
proof -
  obtain e :: "(StreamFrame, unit) eye" where e: "main_setup willing_platform (new_eye ()) = Inr e"
    by (rule main_setup_new)
  note m = main_setup_state(1) [OF e]
  have opens: "list_all (tw_fopen demo_world \<circ> cw_path) test_writers"
    by (simp add: demo_world_def list_all_iff)
  obtain ws m' where run: "\<forall>e1 e2 es. stream_test demo_world (e1 # e2 # es) (ey_manager e) = Some (Inr (ws, m', es))" and
    files: "list_all2 (\<lambda>w w'. \<exists>s :: test_stream. (cw_stream_type w = VIDEO_MJPEG \<longrightarrow>
        cw_file (ss_consumers (ts_sys s)) = [0, 0, 1, 0x65]) \<and> w' = ss_consumers (ts_sys s)) test_writers ws"
    by (rule stream_test_ends [OF m opens demo_world_ends [folded m]]) (rule that; assumption)
  have "stream_test demo_world [Elapsed, Signal 2] (ey_manager e) = Some (Inr (ws, m', []))" using run by blast
  from stream_test_records [OF demo_world_ok e this] opens have
    "list_all2 (\<lambda>w. file_of_pictures (tw_answer demo_world (cw_stream_type w))
       (test_pictures (tw_acts demo_world (cw_stream_type w)))) test_writers ws"
    "fetchers_all ft_running m'" "consumers m' VIDEO_SUB = consumers (ey_manager e) VIDEO_SUB" by auto
  moreover obtain w0 w1 w2 where "ws = [w0, w1, w2]" using files by (auto simp: test_writers_def list_all2_Cons1)
  ultimately show ?thesis
    using e run files demo_world_pictures
    by (intro exI [of _ e] exI [of _ w0] exI [of _ w1] exI [of _ w2] exI [of _ m'])
      (auto simp: test_writers_def new_ChannelWriter_def demo_world_def)
qed

end
