(* ===== verification/Eye_Run.thy ===== *)
theory Eye_Run
  imports Stream_Test
begin

text \<open>
  The whole of \<open>main\<close>: the set-up, \<open>test_main\<close>, which is what starts the fetchers, \<open>pause\<close>, and the exit.  A
  signal only runs a handler that prints; so all it does is to end the blocking call in which the
  main thread is.
\<close>

section \<open>main\<close>


section \<open>A schedule in which main ends\<close>






section \<open>The end of main\<close>








section \<open>Property\<close>



end
